(* ===== verification/Prelude.thy ===== *)
theory Prelude
  imports Main "HOL-Library.Word" "HOL-Library.Sublist" "HOL-Library.Signed_Division"
begin

text \<open>
  What the components share.
  \<^item> Results: an operation that can throw returns \<open>exn + 'a\<close>, \<open>Inl\<close> for the exception
    that leaves it.  The constructors keep apart what the code's handlers tell apart:
    \<^verbatim>\<open>throw (std::string)\<close> (caught by the main loop), the classes under
    \<^verbatim>\<open>std::exception\<close> (caught by \<^verbatim>\<open>main\<close> only, which then exits), undefined
    behaviour of the language, after which nothing is claimed, and a call that never
    returns because a loop of it does not end.
  \<^item> \<^verbatim>\<open>std::string\<close>: a list of bytes.  A position that can be \<^verbatim>\<open>npos\<close> is a
    \<open>nat option\<close>, \<open>None\<close> for \<^verbatim>\<open>npos\<close> (the largest \<^verbatim>\<open>size_t\<close>), and the arithmetic
    on it that the code relies on (\<^verbatim>\<open>npos + 1\<close> is 0) is written out and compared with
    64-bit words below.
  \<^item> \<^verbatim>\<open>int\<close>: an \<open>int\<close> with the 32-bit wrap-around \<open>wrap32\<close> where it can matter.
\<close>

section \<open>Results and exceptions\<close>

datatype exn =
    Str_Exn string
  | Out_Of_Range
  | Runtime_Error string
  | Invalid_Argument string
  | Undef string
  | Never_Returns
  | Exit int

type_synonym 'a res = "exn + 'a"

abbreviation Throw :: "exn \<Rightarrow> 'a res" where "Throw \<equiv> Inl"

abbreviation Ret :: "'a \<Rightarrow> 'a res" where "Ret \<equiv> Inr"

fun rbind :: "'a res \<Rightarrow> ('a \<Rightarrow> 'b res) \<Rightarrow> 'b res" where
  "rbind (Inl e) f = Inl e"
| "rbind (Inr x) f = f x"

definition returns :: "'a res \<Rightarrow> bool" where
  "returns m = (case m of Inl _ \<Rightarrow> False | Inr _ \<Rightarrow> True)"

lemma returns_simps [simp]: "returns (Inr x)" "\<not> returns (Inl e)"
  by (simp_all add: returns_def)

lemma rbind_split:
  "P (rbind m f) \<longleftrightarrow> (\<forall>e. m = Inl e \<longrightarrow> P (Inl e)) \<and> (\<forall>x. m = Inr x \<longrightarrow> P (f x))"
  by (cases m) auto

lemma rbind_split_asm:
  "P (rbind m f) \<longleftrightarrow> \<not> ((\<exists>e. m = Inl e \<and> \<not> P (Inl e)) \<or> (\<exists>x. m = Inr x \<and> \<not> P (f x)))"
  by (cases m) auto

lemmas rbind_splits = rbind_split rbind_split_asm

lemma rbind_eq_Inr: "rbind m f = Inr y \<longleftrightarrow> (\<exists>x. m = Inr x \<and> f x = Inr y)"
  by (cases m) auto

lemma rbind_Ret [simp]: "rbind m Ret = m"
  by (cases m) simp_all

lemma rbind_assoc: "rbind (rbind m f) g = rbind m (\<lambda>x. rbind (f x) g)"
  by (cases m) auto

lemma rbind_cong [fundef_cong]:
  assumes "m = m'" and "\<And>x. m' = Inr x \<Longrightarrow> f x = f' x"
  shows "rbind m f = rbind m' f'"
  using assms by (cases m') auto

section \<open>32-bit integers\<close>

definition wrap32 :: "int \<Rightarrow> int" where
  "wrap32 x = (x + 2147483648) mod 4294967296 - 2147483648"

definition int32 :: "int \<Rightarrow> bool" where
  "int32 x \<longleftrightarrow> -2147483648 \<le> x \<and> x < 2147483648"

lemma wrap32_id: "int32 x \<Longrightarrow> wrap32 x = x"
  by (simp add: wrap32_def int32_def)

lemma wrap32_range: "int32 (wrap32 x)"
  unfolding wrap32_def int32_def
  using pos_mod_bound [of 4294967296 "x + 2147483648"]
    pos_mod_sign [of 4294967296 "x + 2147483648"] by linarith

text \<open>\<open>wrap32\<close> is the two's complement reading of the low 32 bits.\<close>

lemma wrap32_word: "wrap32 x = sint (word_of_int x :: 32 word)"
  using int_word_sint [of x, where 'a = 32] by (simp add: wrap32_def)

text \<open>A \<^verbatim>\<open>char\<close> as the \<^verbatim>\<open>int\<close> the code compares: signed, as on x86.\<close>

definition schar :: "char \<Rightarrow> int" where
  "schar c = (let n = int (of_char c :: nat) in if n < 128 then n else n - 256)"

section \<open>Positions in a std::string\<close>

type_synonym pos = "nat option"

fun pos_add :: "pos \<Rightarrow> nat \<Rightarrow> pos" where
  "pos_add (Some p) k = Some (p + k)"
| "pos_add None 0 = None"
| "pos_add None (Suc k) = Some k"

fun pos_diff :: "pos \<Rightarrow> pos \<Rightarrow> pos" where
  "pos_diff (Some e) (Some s) = (if s \<le> e then Some (e - s) else None)"
| "pos_diff _ _ = None"

fun int_of_pos :: "pos \<Rightarrow> int" where
  "int_of_pos None = -1"
| "int_of_pos (Some p) = int p"

definition pos_of_int :: "int \<Rightarrow> pos" where
  "pos_of_int i = (if i < 0 then None else Some (nat i))"

text \<open>
  The encoding against the machine's \<^verbatim>\<open>size_t\<close>: \<open>None\<close> is the word with all bits set,
  adding a constant is the addition of 64-bit words, and the cast to \<^verbatim>\<open>int\<close> of a
  position below \<open>2 ^ 31\<close> is \<open>int_of_pos\<close>.
\<close>

fun size_of_pos :: "pos \<Rightarrow> 64 word" where
  "size_of_pos None = - 1"
| "size_of_pos (Some p) = of_nat p"

lemma pos_add_word: "size_of_pos (pos_add p k) = size_of_pos p + of_nat k"
  by (cases "(p, k)" rule: pos_add.cases) auto

lemma int_of_pos_word:
  assumes "\<And>n. p = Some n \<Longrightarrow> n < 2 ^ 31"
  shows "int_of_pos p = sint (ucast (size_of_pos p) :: 32 word)"
proof (cases p)
  case None
  have "sint (ucast (- 1 :: 64 word) :: 32 word) = - 1" by code_simp
  with None show ?thesis by simp
next
  case (Some n)
  with assms have "n < 2 ^ 31" by simp
  then have "(ucast (of_nat n :: 64 word) :: 32 word) = of_nat n"
    by (simp add: unsigned_of_nat take_bit_nat_eq_self)
  moreover have "sint (of_nat n :: 32 word) = int n"
    using \<open>n < 2 ^ 31\<close> int_word_sint [of "int n", where 'a = 32] by simp
  ultimately show ?thesis using Some by simp
qed

section \<open>std::map\<close>

text \<open>
  A \<^verbatim>\<open>std::map\<close> is the list of its entries in the order of their keys, as its iterator
  gives them.  \<^verbatim>\<open>insert\<close> leaves an entry that is there alone, \<^verbatim>\<open>operator[]\<close> and an
  assignment replace it.
\<close>

fun map_insert :: "'k::linorder \<Rightarrow> 'v \<Rightarrow> ('k \<times> 'v) list \<Rightarrow> ('k \<times> 'v) list" where
  "map_insert k v [] = [(k, v)]"
| "map_insert k v ((a, b) # r) =
     (if k < a then (k, v) # (a, b) # r
      else if k = a then (a, b) # r else (a, b) # map_insert k v r)"

definition sorted_map :: "('k::linorder \<times> 'v) list \<Rightarrow> bool" where
  "sorted_map m \<longleftrightarrow> sorted_wrt (<) (map fst m)"

lemma fst_map_insert: "fst ` set (map_insert k v m) = insert k (fst ` set m)"
  by (induction k v m rule: map_insert.induct) auto

lemma set_map_insert: "set (map_insert k v m) \<subseteq> insert (k, v) (set m)"
  by (induction k v m rule: map_insert.induct) auto

lemma sorted_map_Nil [simp]: "sorted_map []"
  by (simp add: sorted_map_def)

lemma sorted_map_insert: "sorted_map m \<Longrightarrow> sorted_map (map_insert k v m)"
proof (induction m)
  case (Cons x m)
  obtain a b where x: "x = (a, b)" by (cases x)
  have "\<forall>z\<in>fst ` set (map_insert k v m). a < z" if "a < k"
    using Cons.prems that x by (auto simp: fst_map_insert sorted_map_def)
  with Cons x show ?case by (fastforce simp: sorted_map_def)
qed (simp add: sorted_map_def)

lemma map_of_map_insert:
  "sorted_map m \<Longrightarrow>
     map_of (map_insert k v m) j = (if j = k \<and> map_of m k = None then Some v else map_of m j)"
proof (induction m)
  case (Cons x m)
  obtain a b where x: "x = (a, b)" by (cases x)
  have "map_of m k = None" if "k < a"
    using Cons.prems that x by (auto simp: sorted_map_def map_of_eq_None_iff)
  with Cons x show ?case by (auto simp: sorted_map_def)
qed simp

text \<open>An assignment through \<^verbatim>\<open>operator[]\<close>, the entry's value there or the default one, and \<^verbatim>\<open>erase\<close>.\<close>

fun map_put :: "'k::linorder \<Rightarrow> 'v \<Rightarrow> ('k \<times> 'v) list \<Rightarrow> ('k \<times> 'v) list" where
  "map_put k v [] = [(k, v)]"
| "map_put k v ((a, b) # r) =
     (if k < a then (k, v) # (a, b) # r
      else if k = a then (a, v) # r else (a, b) # map_put k v r)"

definition map_at :: "'v \<Rightarrow> 'k \<Rightarrow> ('k \<times> 'v) list \<Rightarrow> 'v" where
  "map_at d k m = (case map_of m k of None \<Rightarrow> d | Some v \<Rightarrow> v)"

definition map_erase :: "'k \<Rightarrow> ('k \<times> 'v) list \<Rightarrow> ('k \<times> 'v) list" where
  "map_erase k m = filter (\<lambda>x. fst x \<noteq> k) m"

lemma fst_map_put: "fst ` set (map_put k v m) = insert k (fst ` set m)"
  by (induction k v m rule: map_put.induct) auto

lemma sorted_map_put: "sorted_map m \<Longrightarrow> sorted_map (map_put k v m)"
proof (induction m)
  case (Cons x m)
  obtain a b where x: "x = (a, b)" by (cases x)
  have "\<forall>z\<in>fst ` set (map_put k v m). a < z" if "a < k"
    using Cons.prems that x by (auto simp: fst_map_put sorted_map_def)
  with Cons x show ?case by (fastforce simp: sorted_map_def)
qed (simp add: sorted_map_def)

lemma map_of_map_put: "sorted_map m \<Longrightarrow> map_of (map_put k v m) = (map_of m)(k \<mapsto> v)"
proof (induction m)
  case (Cons x m)
  obtain a b where x: "x = (a, b)" by (cases x)
  with Cons show ?case by (auto simp: sorted_map_def fun_eq_iff)
qed (simp add: fun_eq_iff)

lemma sorted_map_erase: "sorted_map m \<Longrightarrow> sorted_map (map_erase k m)"
  by (induction m) (auto simp: sorted_map_def map_erase_def)

lemma map_of_map_erase: "map_of (map_erase k m) = (map_of m)(k := None)"
  by (induction m) (auto simp: map_erase_def fun_eq_iff)

lemma map_at_put:
  "sorted_map m \<Longrightarrow> map_at d j (map_put k v m) = (if j = k then v else map_at d j m)"
  by (simp add: map_at_def map_of_map_put)

section \<open>Interfaces several components share\<close>

text \<open>
  A printer and its reader: what is printed from a valid value is read back as it.  The
  decimal conversions and the Base64 routines both provide it.
\<close>

locale codec =
  fixes enc :: "'a \<Rightarrow> 'b" and dec :: "'b \<Rightarrow> 'a" and valid :: "'a \<Rightarrow> bool"
  assumes dec_enc: "valid x \<Longrightarrow> dec (enc x) = x"
begin

lemma enc_eq_iff: "valid x \<Longrightarrow> valid y \<Longrightarrow> enc x = enc y \<longleftrightarrow> x = y"
  by (metis dec_enc)

lemma enc_inj_on: "inj_on enc {x. valid x}"
  by (rule inj_onI) (simp add: enc_eq_iff)

end

text \<open>
  A cleaning pass: it gives only clean values and leaves clean values alone, so running it
  again changes nothing.
\<close>

locale normaliser =
  fixes norm :: "'a \<Rightarrow> 'a" and clean :: "'a \<Rightarrow> bool"
  assumes norm_clean: "clean (norm x)" and clean_norm: "clean x \<Longrightarrow> norm x = x"
begin

lemma norm_idem: "norm (norm x) = norm x"
  by (simp add: norm_clean clean_norm)

lemma norm_fixed_iff: "norm x = x \<longleftrightarrow> clean x"
  by (metis norm_clean clean_norm)

end

end
