(* ===== verification/StdString.thy ===== *)
theory StdString
  imports Prelude
begin

text \<open>
  The operations of \<^verbatim>\<open>std::string\<close> the code uses, on lists of bytes: the searches
  \<^verbatim>\<open>find\<close>, \<^verbatim>\<open>find_first_of\<close>, \<^verbatim>\<open>find_first_not_of\<close>, \<^verbatim>\<open>find_last_of\<close> (a start
  position past the end finds nothing) and \<^verbatim>\<open>substr\<close> (a start position past the end
  throws \<^verbatim>\<open>std::out_of_range\<close>, a count that is too long is cut).  Nothing here models a
  line of the repository; the lemmas are the vocabulary of all the component proofs and are
  collected in \<open>str_simps\<close>.
\<close>

named_theorems str_simps

abbreviation "NUL \<equiv> CHR 0x00"
abbreviation "CR \<equiv> CHR 0x0D"
abbreviation "LF \<equiv> CHR 0x0A"
abbreviation "SP \<equiv> CHR 0x20"
abbreviation "SLASH \<equiv> CHR 0x2F"

abbreviation CRLF :: string where "CRLF \<equiv> [CR, LF]"

abbreviation CRLF2 :: string where "CRLF2 \<equiv> [CR, LF, CR, LF]"

section \<open>Searching for a character\<close>

fun find_idx :: "('a \<Rightarrow> bool) \<Rightarrow> 'a list \<Rightarrow> nat option" where
  "find_idx P [] = None"
| "find_idx P (c # cs) = (if P c then Some 0 else map_option Suc (find_idx P cs))"

definition find_pred :: "(char \<Rightarrow> bool) \<Rightarrow> string \<Rightarrow> pos \<Rightarrow> pos" where
  "find_pred P s p = (case p of None \<Rightarrow> None
     | Some i \<Rightarrow> map_option (\<lambda>k. k + i) (find_idx P (drop i s)))"

definition find_first_of :: "string \<Rightarrow> char \<Rightarrow> pos \<Rightarrow> pos" where
  "find_first_of s c p = find_pred (\<lambda>x. x = c) s p"

definition find_first_not_of :: "string \<Rightarrow> char \<Rightarrow> pos \<Rightarrow> pos" where
  "find_first_not_of s c p = find_pred (\<lambda>x. x \<noteq> c) s p"

definition find_last_of :: "string \<Rightarrow> char \<Rightarrow> pos" where
  "find_last_of s c =
     map_option (\<lambda>k. length s - 1 - k) (find_idx (\<lambda>x. x = c) (rev s))"

lemma find_idx_None_iff [str_simps]: "find_idx P s = None \<longleftrightarrow> (\<forall>x\<in>set s. \<not> P x)"
  by (induction s) auto

lemma find_idx_None [simp]: "\<forall>x\<in>set s. \<not> P x \<Longrightarrow> find_idx P s = None"
  by (simp add: find_idx_None_iff)

lemma find_idx_append:
  "find_idx P (xs @ ys) = (case find_idx P xs of Some i \<Rightarrow> Some i
     | None \<Rightarrow> map_option (\<lambda>k. k + length xs) (find_idx P ys))"
  by (induction xs) (auto simp: option.map_comp option.map_ident o_def split: option.splits)

lemma find_idx_first [simp]:
  "\<forall>x\<in>set xs. \<not> P x \<Longrightarrow> P c \<Longrightarrow> find_idx P (xs @ c # ys) = Some (length xs)"
  by (simp add: find_idx_append)

lemma find_idx_SomeD:
  "find_idx P s = Some i \<Longrightarrow>
     i < length s \<and> P (s ! i) \<and> (\<forall>x\<in>set (take i s). \<not> P x)"
  by (induction s arbitrary: i) (auto split: if_splits)

lemma find_idx_decomp:
  assumes "find_idx P s = Some i"
  obtains xs c ys where "s = xs @ c # ys" "length xs = i" "P c" "\<forall>x\<in>set xs. \<not> P x"
proof -
  from find_idx_SomeD [OF assms] have i: "i < length s" and P: "P (s ! i)"
    and n: "\<forall>x\<in>set (take i s). \<not> P x" by blast+
  from i have l: "length (take i s) = i" by simp
  show thesis by (rule that [OF id_take_nth_drop [OF i] l P n])
qed

lemma find_idx_bound: "find_idx P s = Some i \<Longrightarrow> i < length s"
  by (drule find_idx_SomeD) simp

lemma find_pred_bound: "find_pred P s p = Some i \<Longrightarrow> i < length s"
  by (auto simp: find_pred_def less_diff_conv dest: find_idx_bound split: option.splits)

lemma find_pred_0 [str_simps]: "find_pred P s (Some 0) = find_idx P s"
  by (simp add: find_pred_def option.map_ident)

lemma find_pred_npos [simp]: "find_pred P s None = None"
  by (simp add: find_pred_def)

lemmas find_char_defs = find_first_of_def find_first_not_of_def

lemma find_first_of_bound: "find_first_of s c p = Some i \<Longrightarrow> i < length s"
  unfolding find_first_of_def by (rule find_pred_bound)

lemma find_first_of_0: "find_first_of s c (Some 0) = find_idx (\<lambda>x. x = c) s"
  by (simp add: find_first_of_def find_pred_0)

lemma find_sep:
  assumes "c \<notin> set v" shows "find_first_of (v @ c # w) c (Some 0) = Some (length v)"
proof -
  have "\<forall>x\<in>set v. x \<noteq> c" using assms by blast
  then show ?thesis unfolding find_first_of_0 by (rule find_idx_first) simp
qed

lemma find_no_sep: "find_first_of v c (Some 0) = None \<longleftrightarrow> c \<notin> set v"
  unfolding find_first_of_0 find_idx_None_iff by blast

lemma find_last_of_None [str_simps]: "find_last_of s c = None \<longleftrightarrow> c \<notin> set s"
  by (auto simp: find_last_of_def find_idx_None_iff)

lemma find_last_of_append:
  assumes "c \<notin> set ys" shows "find_last_of (xs @ c # ys) c = Some (length xs)"
proof -
  have "\<forall>x\<in>set (rev ys). x \<noteq> c" using assms by auto
  then have "find_idx (\<lambda>x. x = c) (rev (xs @ c # ys)) = Some (length ys)"
    using find_idx_first [of "rev ys" "\<lambda>x. x = c" c "rev xs"] by simp
  then show ?thesis by (simp add: find_last_of_def)
qed

section \<open>Searching for a string\<close>

fun find_sub_idx :: "'a list \<Rightarrow> 'a list \<Rightarrow> nat option" where
  "find_sub_idx pat [] = (if pat = [] then Some 0 else None)"
| "find_sub_idx pat (c # cs) =
     (if prefix pat (c # cs) then Some 0 else map_option Suc (find_sub_idx pat cs))"

definition find_sub :: "string \<Rightarrow> string \<Rightarrow> pos \<Rightarrow> pos" where
  "find_sub s pat p = (case p of None \<Rightarrow> None
     | Some i \<Rightarrow> if length s < i then None
                 else map_option (\<lambda>k. k + i) (find_sub_idx pat (drop i s)))"

definition contains :: "string \<Rightarrow> string \<Rightarrow> bool" where
  "contains s pat \<longleftrightarrow> find_sub s pat (Some 0) \<noteq> None"

lemma find_sub_0 [str_simps]: "find_sub s pat (Some 0) = find_sub_idx pat s"
  by (simp add: find_sub_def option.map_ident)

lemma find_sub_npos [simp]: "find_sub s pat None = None"
  by (simp add: find_sub_def)

lemma find_sub_idx_None_iff: "find_sub_idx pat s = None \<longleftrightarrow> \<not> sublist pat s"
  by (induction s) (auto simp: sublist_Cons_right)

lemma contains_sublist: "contains s pat \<longleftrightarrow> sublist pat s"
  by (auto simp: contains_def find_sub_0 find_sub_idx_None_iff)

lemma contains_find: "contains s pat \<longleftrightarrow> find_sub_idx pat s \<noteq> None"
  by (simp add: contains_def find_sub_0)

lemma find_sub_idx_char: "find_sub_idx [c] s = find_idx (\<lambda>x. x = c) s"
  by (induction s) auto

text \<open>A pattern without the separator lies on one side of it.\<close>

lemma contains_sep:
  assumes "c \<notin> set pat" "pat \<noteq> []"
  shows "contains (xs @ c # ys) pat \<longleftrightarrow> contains xs pat \<or> contains ys pat"
proof
  assume "contains (xs @ c # ys) pat"
  then obtain us vs where e: "xs @ c # ys = us @ pat @ vs"
    by (auto simp: contains_sublist sublist_def)
  show "contains xs pat \<or> contains ys pat"
  proof (cases "length us + length pat \<le> length xs")
    case True
    have "take (length us + length pat) (xs @ c # ys) = us @ pat" using e by simp
    with True have "take (length us + length pat) xs = us @ pat" by simp
    then show ?thesis
      by (metis append_assoc append_take_drop_id contains_sublist sublist_appendI)
  next
    case f: False
    have "length xs < length us"
    proof (rule ccontr)
      assume "\<not> length xs < length us"
      with f have i: "length us \<le> length xs" "length xs - length us < length pat" by auto
      have "(xs @ c # ys) ! length xs = c" by simp
      with e i have "pat ! (length xs - length us) = c"
        by (simp add: nth_append)
      with i(2) assms(1) show False by (metis nth_mem)
    qed
    then have "drop (Suc (length xs)) (us @ pat @ vs) = drop (Suc (length xs)) us @ pat @ vs"
      by simp
    moreover have "drop (Suc (length xs)) (xs @ c # ys) = ys" by simp
    ultimately show ?thesis using e
      by (metis contains_sublist sublist_appendI)
  qed
next
  assume "contains xs pat \<or> contains ys pat"
  moreover have "sublist xs (xs @ c # ys)" "sublist ys (xs @ c # ys)"
    using sublist_append_leftI [of ys "xs @ [c]"] by simp_all
  ultimately show "contains (xs @ c # ys) pat"
    unfolding contains_sublist by (meson sublist_order.order_trans)
qed

lemma contains_blanks:
  "set bl \<subseteq> {c} \<Longrightarrow> c \<notin> set pat \<Longrightarrow> pat \<noteq> [] \<Longrightarrow> contains (bl @ xs) pat \<longleftrightarrow> contains xs pat"
proof (induction bl)
  case (Cons b bl)
  then show ?case using contains_sep [of c pat "[]" "bl @ xs"] by (cases pat) (auto simp: contains_find)
qed simp

lemma contains_longer: "contains s (pat @ q) \<Longrightarrow> contains s pat"
  by (auto simp: contains_sublist sublist_def)

lemma find_sub_idx_SomeD:
  "find_sub_idx pat s = Some i \<Longrightarrow> prefix pat (drop i s) \<and> i + length pat \<le> length s"
proof (induction s arbitrary: i)
  case (Cons c cs)
  then show ?case
    by (auto split: if_splits dest: prefix_length_le)
qed (auto split: if_splits)

lemma find_sub_idx_minimal:
  "find_sub_idx pat s = Some i \<Longrightarrow> j < i \<Longrightarrow> \<not> prefix pat (drop j s)"
proof (induction s arbitrary: i j)
  case (Cons c cs)
  then show ?case by (cases j) (auto split: if_splits)
qed (auto split: if_splits)

lemma find_sub_idx_eqI:
  assumes "prefix pat (drop i s)" "i \<le> length s" "\<And>j. j < i \<Longrightarrow> \<not> prefix pat (drop j s)"
  shows "find_sub_idx pat s = Some i"
  using assms
proof (induction s arbitrary: i)
  case Nil
  then show ?case by simp
next
  case (Cons c cs)
  show ?case
  proof (cases i)
    case 0
    with Cons.prems show ?thesis by simp
  next
    case (Suc k)
    have "find_sub_idx pat cs = Some k"
    proof (rule Cons.IH)
      fix j assume "j < k"
      then show "\<not> prefix pat (drop j cs)" using Cons.prems(3) [of "Suc j"] Suc by simp
    qed (use Cons.prems Suc in auto)
    moreover have "\<not> prefix pat (c # cs)" using Cons.prems(3) [of 0] Suc by simp
    ultimately show ?thesis using Suc by simp
  qed
qed

text \<open>A pattern found in a prefix is found at the same place in the whole.\<close>

lemma find_sub_idx_append_left:
  assumes "find_sub_idx pat xs = Some i"
  shows "find_sub_idx pat (xs @ ys) = Some i"
proof (rule find_sub_idx_eqI)
  from find_sub_idx_SomeD [OF assms]
  have p: "prefix pat (drop i xs)" and l: "i + length pat \<le> length xs" by auto
  from p l show "prefix pat (drop i (xs @ ys))" by (simp add: prefix_append)
  from l show "i \<le> length (xs @ ys)" by simp
  fix j assume j: "j < i"
  from find_sub_idx_minimal [OF assms j] l j show "\<not> prefix pat (drop j (xs @ ys))"
    by (auto simp: prefix_def append_eq_append_conv2)
qed

lemma find_sub_idx_take:
  assumes "find_sub_idx pat s = Some p"
  shows "find_sub_idx pat (take (p + length pat) s) = Some p"
proof (rule find_sub_idx_eqI)
  from find_sub_idx_SomeD [OF assms] obtain ys where "drop p s = pat @ ys" "p + length pat \<le> length s"
    by (auto simp: prefix_def)
  then show "prefix pat (drop p (take (p + length pat) s))" "p \<le> length (take (p + length pat) s)"
    by (simp_all add: drop_take)
  fix j assume "j < p"
  from find_sub_idx_minimal [OF assms this]
  show "\<not> prefix pat (drop j (take (p + length pat) s))"
    by (metis drop_take prefix_order.trans take_is_prefix)
qed

section \<open>Substrings\<close>

fun substr :: "string \<Rightarrow> pos \<Rightarrow> pos \<Rightarrow> string res" where
  "substr s None n = Throw Out_Of_Range"
| "substr s (Some p) n =
     (if length s < p then Throw Out_Of_Range
      else Ret (case n of None \<Rightarrow> drop p s | Some k \<Rightarrow> take k (drop p s)))"

lemma substr_tail: "p \<le> length s \<Longrightarrow> substr s (Some p) None = Ret (drop p s)"
  by simp

lemma sublist_take_drop: "sublist (take k (drop p s)) s"
  by (metis sublist_drop sublist_order.order_trans sublist_take)

section \<open>C strings\<close>

text \<open>What \<^verbatim>\<open>c_str ()\<close> shows to a function that reads up to the first NUL.\<close>

definition c_str :: "string \<Rightarrow> string" where
  "c_str s = takeWhile (\<lambda>c. c \<noteq> NUL) s"

lemma c_str_id: "NUL \<notin> set s \<Longrightarrow> c_str s = s"
  by (auto simp: c_str_def takeWhile_eq_all_conv)

lemma c_str_idem [simp]: "c_str (c_str s) = c_str s"
  by (simp add: c_str_def takeWhile_idem)

lemma NUL_c_str [simp]: "NUL \<notin> set (c_str s)"
  by (auto simp: c_str_def dest: set_takeWhileD)

lemma c_str_append_NUL: "NUL \<notin> set s \<Longrightarrow> c_str (s @ NUL # t) = s"
  unfolding c_str_def by (subst takeWhile_append2) auto

end
