(* ===== verification/LibFunctions.thy ===== *)
theory LibFunctions
  imports StdString
begin

text \<open>
  \<^verbatim>\<open>webserver/helper/lib_functions.cpp\<close>: the C string and number helpers.  A fresh block
  of memory is \<open>Some m\<close> with arbitrary bytes \<open>m 0, m 1, \<dots>\<close>, a failed \<^verbatim>\<open>malloc\<close> is
  \<open>None\<close>, and a write outside the block is undefined behaviour (\<open>poke\<close>).  The results
  show that \<open>ft_itoa\<close> never leaves its block and prints the decimal numeral for every
  \<^verbatim>\<open>int\<close>, and that \<open>ft_atoi\<close> reads it back.
\<close>

section \<open>ft_atoi\<close>

definition is_blank :: "char \<Rightarrow> bool" where
  "is_blank c \<longleftrightarrow> c = SP \<or> (9 \<le> schar c \<and> schar c \<le> 13)"

definition is_digit :: "char \<Rightarrow> bool" where
  "is_digit c \<longleftrightarrow> 48 \<le> schar c \<and> schar c \<le> 57"

text \<open>
  The digit loop.  \<^verbatim>\<open>result\<close> is an \<^verbatim>\<open>unsigned long\<close>, so each update is taken modulo
  \<open>2 ^ 64\<close> before the two overflow tests see it.
\<close>

fun atoi_digits :: "int \<Rightarrow> nat \<Rightarrow> string \<Rightarrow> int" where
  "atoi_digits sign r [] = wrap32 ((int r * sign) mod 18446744073709551616)"
| "atoi_digits sign r (c # cs) =
     (if is_digit c then
        (let r' = (r * 10 + nat (schar c - 48)) mod 18446744073709551616
         in if 9223372036854775808 \<le> r' \<and> sign = -1 then 0
            else if 9223372036854775807 \<le> r' \<and> sign = 1 then -1
            else atoi_digits sign r' cs)
      else wrap32 ((int r * sign) mod 18446744073709551616))"

definition ft_atoi :: "string \<Rightarrow> int" where
  "ft_atoi str =
     (let s = dropWhile is_blank str;
          sign = (if take 1 s = ''-'' then -1 else 1);
          t = (if take 1 s = ''-'' \<or> take 1 s = ''+'' then drop 1 s else s)
      in atoi_digits sign 0 t)"

section \<open>ft_strdup, ft_strlen, ft_strjoin\<close>

type_synonym block = "(nat \<Rightarrow> char) option"

definition ft_strdup :: "block \<Rightarrow> string \<Rightarrow> string res" where
  "ft_strdup mem str = (case mem of None \<Rightarrow> Throw (Str_Exn ''Malloc failed'')
     | Some _ \<Rightarrow> Ret (c_str str))"

definition ft_strlen :: "string \<Rightarrow> nat" where
  "ft_strlen s = length (c_str s)"

text \<open>The two arguments are pointers that may be null.\<close>

definition ft_strjoin :: "block \<Rightarrow> string option \<Rightarrow> string option \<Rightarrow> string option res" where
  "ft_strjoin mem s1 s2 = (case (s1, s2) of
      (Some a, Some b) \<Rightarrow> (case mem of None \<Rightarrow> Throw (Str_Exn ''Malloc failed'')
         | Some _ \<Rightarrow> Ret (Some (c_str a @ c_str b)))
    | _ \<Rightarrow> Ret None)"

section \<open>ft_itoa\<close>

function n_size_loop :: "int \<Rightarrow> int \<Rightarrow> int" where
  "n_size_loop n i = (if n \<noteq> 0 then n_size_loop (n sdiv 10) (i + 1) else i)"
  by pat_completeness auto
termination
  by (relation "measure (\<lambda>(n, i). nat \<bar>n\<bar>)") (auto simp: signed_divide_int_def abs_mult)

declare n_size_loop.simps [simp del]

definition get_n_size :: "int \<Rightarrow> int" where
  "get_n_size n = n_size_loop n (if 0 < n then 0 else 1)"

text \<open>A write \<^verbatim>\<open>result[i] = c\<close> to a block of \<open>length b\<close> bytes.\<close>

definition poke :: "char list \<Rightarrow> int \<Rightarrow> char \<Rightarrow> char list res" where
  "poke b i c = (if 0 \<le> i \<and> i < int (length b) then Ret (b[nat i := c])
                 else Throw (Undef ''write outside the block''))"

definition digit_char :: "int \<Rightarrow> char" where
  "digit_char d = char_of (nat (d + 48))"

function put_digits :: "char list \<Rightarrow> int \<Rightarrow> int \<Rightarrow> char list res" where
  "put_digits result i n =
     (if n \<noteq> 0 then rbind (poke result i (digit_char (n smod 10)))
                         (\<lambda>result. put_digits result (i - 1) (n sdiv 10))
      else Ret result)"
  by pat_completeness auto
termination
  by (relation "measure (\<lambda>(b, i, n). nat \<bar>n\<bar>)") (auto simp: signed_divide_int_def abs_mult)

declare put_digits.simps [simp del]

definition put_in_array :: "char list \<Rightarrow> int \<Rightarrow> int \<Rightarrow> int \<Rightarrow> char list res" where
  "put_in_array result i n sz =
     rbind (if n = -2147483648
            then rbind (poke result 0 CHR ''-'') (\<lambda>result.
                 rbind (poke result 1 CHR ''2'') (\<lambda>result. Ret (result, 147483648)))
            else Ret (result, n)) (\<lambda>(result, n).
     if n = 0 then rbind (poke result 0 CHR ''0'') (\<lambda>result. poke result 1 NUL)
     else rbind (if n < 0 then rbind (poke result 0 CHR ''-'') (\<lambda>result. Ret (result, n * -1))
                 else Ret (result, n)) (\<lambda>(result, n).
          rbind (put_digits result i n) (\<lambda>result. poke result sz NUL)))"

definition ft_itoa :: "block \<Rightarrow> int \<Rightarrow> string option res" where
  "ft_itoa mem n =
     (let sz = get_n_size n; i = sz - 1
      in case mem of None \<Rightarrow> Ret None
         | Some m \<Rightarrow> rbind (put_in_array (map m [0..<nat (sz + 1)]) i n sz)
                          (\<lambda>result. Ret (Some (c_str result))))"

section \<open>The decimal numeral, as the specification\<close>

fun dec_digits :: "nat \<Rightarrow> string" where
  "dec_digits n = (if n < 10 then [digit_char (int n)]
                   else dec_digits (n div 10) @ [digit_char (int (n mod 10))])"

declare dec_digits.simps [simp del]

definition decimal :: "int \<Rightarrow> string" where
  "decimal n = (if n < 0 then CHR ''-'' # dec_digits (nat (- n)) else dec_digits (nat n))"

definition digits_value :: "nat \<Rightarrow> string \<Rightarrow> nat" where
  "digits_value r s = foldl (\<lambda>r c. r * 10 + nat (schar c - 48)) r s"

lemma schar_char_of [simp]: "n < 128 \<Longrightarrow> schar (char_of n) = int n"
  by (simp add: schar_def Let_def take_bit_nat_eq_self)

lemma schar_digit [simp]: "0 \<le> d \<Longrightarrow> d < 10 \<Longrightarrow> schar (digit_char d) = d + 48"
  by (simp add: digit_char_def)

lemma digit_char_lit:
  "digit_char 0 = CHR ''0''" "digit_char 1 = CHR ''1''" "digit_char 2 = CHR ''2''"
  "digit_char 3 = CHR ''3''" "digit_char 4 = CHR ''4''" "digit_char 5 = CHR ''5''"
  "digit_char 6 = CHR ''6''" "digit_char 7 = CHR ''7''" "digit_char 8 = CHR ''8''"
  "digit_char 9 = CHR ''9''"
  by code_simp+

lemma is_digit_digit_char [simp]: "0 \<le> d \<Longrightarrow> d < 10 \<Longrightarrow> is_digit (digit_char d)"
  by (simp add: is_digit_def)

lemma is_digit_not_NUL: "is_digit c \<Longrightarrow> c \<noteq> NUL"
  by (auto simp: is_digit_def schar_def)

lemma is_digit_not_blank: "is_digit c \<Longrightarrow> \<not> is_blank c"
  by (auto simp: is_digit_def is_blank_def schar_def)

lemma is_digit_no_sign: "is_digit c \<Longrightarrow> c \<noteq> CHR ''-'' \<and> c \<noteq> CHR ''+''"
  by (auto simp: is_digit_def schar_def)

lemma dec_digits_digits: "\<forall>c\<in>set (dec_digits n). is_digit c"
proof (induction n rule: dec_digits.induct)
  case (1 n)
  then show ?case by (cases "n < 10") (auto simp: dec_digits.simps [of n])
qed

lemma dec_digits_nonempty [simp]: "dec_digits n \<noteq> []"
  by (subst dec_digits.simps) simp

lemma dec_digits_no_NUL: "NUL \<notin> set (dec_digits n)"
  using dec_digits_digits is_digit_not_NUL by blast

lemma digits_value_append:
  "digits_value r (s @ [c]) = digits_value r s * 10 + nat (schar c - 48)"
  by (simp add: digits_value_def)

lemma digits_value_dec: "digits_value 0 (dec_digits n) = n"
proof (induction n rule: dec_digits.induct)
  case (1 n)
  show ?case
  proof (cases "n < 10")
    case True
    then show ?thesis by (simp add: dec_digits.simps [of n] digits_value_def)
  next
    case False
    with 1 show ?thesis by (simp add: dec_digits.simps [of n] digits_value_append)
  qed
qed

lemma digits_value_Cons:
  "digits_value r (c # s) = digits_value (r * 10 + nat (schar c - 48)) s"
  by (simp add: digits_value_def)

lemma digits_value_mono: "r \<le> digits_value r s"
proof (induction s arbitrary: r)
  case Nil
  then show ?case by (simp add: digits_value_def)
next
  case (Cons c s)
  have "r \<le> r * 10 + nat (schar c - 48)" by simp
  also note Cons.IH
  finally show ?case by (simp add: digits_value_Cons)
qed

section \<open>ft_atoi reads decimal numerals\<close>

lemma atoi_digits_value:
  assumes "\<forall>c\<in>set ds. is_digit c" and "digits_value r ds < 9223372036854775807"
    and "rest = [] \<or> \<not> is_digit (hd rest)" and "sign = 1 \<or> sign = -1"
  shows "atoi_digits sign r (ds @ rest) =
    wrap32 ((int (digits_value r ds) * sign) mod 18446744073709551616)"
  using assms(1,2)
proof (induction ds arbitrary: r)
  case Nil
  then show ?case using assms(3) by (cases rest) (auto simp: digits_value_def)
next
  case (Cons c ds)
  let ?r = "r * 10 + nat (schar c - 48)"
  from Cons.prems have d: "is_digit c" and v: "digits_value ?r ds < 9223372036854775807"
    by (auto simp: digits_value_Cons)
  have "?r \<le> digits_value ?r ds" by (rule digits_value_mono)
  with v have "?r < 9223372036854775807" by linarith
  then show ?case using Cons.IH [of ?r] Cons.prems d v
    by (simp add: digits_value_Cons)
qed

lemma wrap32_mod64: "wrap32 (x mod 18446744073709551616) = wrap32 x"
proof -
  have "x mod 18446744073709551616 mod 4294967296 = x mod 4294967296"
    by (rule mod_mod_cancel) simp
  then have "(x mod 18446744073709551616 + 2147483648) mod 4294967296
    = (x + 2147483648) mod 4294967296"
    by (rule mod_add_cong) simp
  then show ?thesis by (simp add: wrap32_def)
qed

lemma atoi_digits_int32: "int32 (atoi_digits sign r s)"
proof (induction sign r s rule: atoi_digits.induct)
  case (2 sign r c cs)
  then show ?case
    by (cases "is_digit c") (auto simp: Let_def wrap32_range, auto simp: int32_def)
qed (simp add: wrap32_range)

lemma ft_atoi_int32: "int32 (ft_atoi s)"
  by (simp add: ft_atoi_def atoi_digits_int32 Let_def)

lemma take_1_digits:
  "ds \<noteq> [] \<Longrightarrow> \<forall>c\<in>set ds. is_digit c \<Longrightarrow>
     take 1 (ds @ rest) \<noteq> ''-'' \<and> take 1 (ds @ rest) \<noteq> ''+''"
  by (cases ds) (auto dest: is_digit_no_sign)

lemma ft_atoi_digits:
  assumes "ds \<noteq> []" "\<forall>c\<in>set ds. is_digit c" "digits_value 0 ds < 9223372036854775807"
    and "rest = [] \<or> \<not> is_digit (hd rest)" and "\<forall>c\<in>set bl. is_blank c"
  shows "ft_atoi (bl @ ds @ rest) = wrap32 (int (digits_value 0 ds))"
proof -
  have "dropWhile is_blank (bl @ ds @ rest) = ds @ rest"
    using assms by (cases ds) (auto simp: dropWhile_append2 is_digit_not_blank)
  then show ?thesis
    using take_1_digits [OF assms(1,2), of rest] atoi_digits_value [OF assms(2-4), of 1]
    by (simp add: ft_atoi_def wrap32_mod64 split del: if_split)
qed

lemma ft_atoi_minus_digits:
  assumes "\<forall>c\<in>set ds. is_digit c" "digits_value 0 ds < 9223372036854775807"
  shows "ft_atoi (CHR ''-'' # ds) = wrap32 (- int (digits_value 0 ds))"
proof -
  have "\<not> is_blank CHR ''-''" by (simp add: is_blank_def schar_def)
  then show ?thesis using atoi_digits_value [OF assms, of "[]" "-1"]
    by (simp add: ft_atoi_def wrap32_mod64)
qed

lemma ft_atoi_decimal:
  assumes "int32 n" shows "ft_atoi (decimal n) = n"
proof (cases "n < 0")
  case True
  have v: "digits_value 0 (dec_digits (nat (- n))) = nat (- n)" by (rule digits_value_dec)
  have "nat (- n) < 9223372036854775807" using assms unfolding int32_def by linarith
  with v True assms show ?thesis
    using ft_atoi_minus_digits [OF dec_digits_digits, of "nat (- n)"]
    by (simp add: decimal_def wrap32_id)
next
  case False
  have v: "digits_value 0 (dec_digits (nat n)) = nat n" by (rule digits_value_dec)
  have "nat n < 9223372036854775807" using assms unfolding int32_def by linarith
  with v False assms show ?thesis
    using ft_atoi_digits [OF dec_digits_nonempty dec_digits_digits, of "nat n" "[]" "[]"]
    by (simp add: decimal_def wrap32_id)
qed

section \<open>ft_itoa prints them, inside its block\<close>

lemma sdiv_nonneg: "0 \<le> (n::int) \<Longrightarrow> n sdiv 10 = n div 10"
  by (cases "n = 0") (auto simp: signed_divide_int_def)

lemma smod_nonneg: "0 \<le> (n::int) \<Longrightarrow> n smod 10 = n mod 10"
  by (cases "n = 0") (auto simp: signed_modulo_int_def)

lemma sdiv_minus: "(- n :: int) sdiv 10 = - (n sdiv 10)"
  by (simp add: signed_divide_int_def sgn_minus)

lemma int_div_pos: "10 \<le> m \<Longrightarrow> int m div 10 = int (m div 10) \<and> 0 < m div 10"
  by (simp add: zdiv_int div_greater_zero_iff)

lemma n_size_loop_0 [simp]: "n_size_loop 0 i = i"
  by (subst n_size_loop.simps) simp

lemma n_size_loop_pos:
  "0 < m \<Longrightarrow> n_size_loop (int m) i = i + int (length (dec_digits m))"
proof (induction m arbitrary: i rule: dec_digits.induct)
  case (1 m)
  have step: "n_size_loop (int m) i = n_size_loop (int (m div 10)) (i + 1)"
    using "1.prems" by (subst n_size_loop.simps) (simp add: sdiv_nonneg zdiv_int)
  show ?case
  proof (cases "m < 10")
    case True
    then show ?thesis using step by (simp add: dec_digits.simps [of m])
  next
    case False
    then show ?thesis using step "1.IH" [of "i + 1"] int_div_pos [of m]
      by (simp add: dec_digits.simps [of m])
  qed
qed

lemma n_size_loop_minus: "n_size_loop (- n) i = n_size_loop n i"
proof (induction n i rule: n_size_loop.induct)
  case (1 n i)
  show ?case
  proof (cases "n = 0")
    case False
    with 1 have "n_size_loop (- (n sdiv 10)) (i + 1) = n_size_loop (n sdiv 10) (i + 1)" by blast
    with False show ?thesis
      by (simp add: n_size_loop.simps [of n i] n_size_loop.simps [of "- n" i] sdiv_minus)
  qed simp
qed

lemma get_n_size_decimal: "get_n_size n = int (length (decimal n))"
proof -
  consider "n < 0" | "n = 0" | "0 < n" by linarith
  then show ?thesis
  proof cases
    case 1
    then have "n_size_loop n 1 = n_size_loop (int (nat (- n))) 1"
      using n_size_loop_minus [of n 1] by simp
    also have "\<dots> = 1 + int (length (dec_digits (nat (- n))))"
      by (rule n_size_loop_pos) (use 1 in simp)
    finally show ?thesis using 1 by (simp add: get_n_size_def decimal_def)
  next
    case 2
    then show ?thesis by (simp add: get_n_size_def decimal_def dec_digits.simps [of 0])
  next
    case 3
    then show ?thesis using n_size_loop_pos [of "nat n" 0]
      by (simp add: get_n_size_def decimal_def)
  qed
qed

lemma poke_in: "i < length b \<Longrightarrow> poke b (int i) c = Ret (b[i := c])"
  by (simp add: poke_def)

lemma put_digits_pos:
  assumes "0 < m" and "p + length (dec_digits m) \<le> length b"
  shows "put_digits b (int (p + length (dec_digits m)) - 1) (int m) =
    Ret (take p b @ dec_digits m @ drop (p + length (dec_digits m)) b)"
  using assms
proof (induction m arbitrary: b rule: dec_digits.induct)
  case (1 m)
  let ?D = "dec_digits m" and ?i = "p + length (dec_digits m) - 1"
  let ?b = "b[?i := digit_char (int m mod 10)]"
  obtain k where len: "length ?D = Suc k" by (cases ?D) auto
  then have i: "int (p + length ?D) - 1 = int ?i" "?i < length b" using "1.prems" by auto
  have step: "put_digits b (int ?i) (int m) = put_digits ?b (int ?i - 1) (int (m div 10))"
    using "1.prems"(1) i(2) by (subst put_digits.simps)
      (simp add: poke_in smod_nonneg sdiv_nonneg zdiv_int)
  show ?case
  proof (cases "m < 10")
    case True
    then have D: "?D = [digit_char (int m)]" by (simp add: dec_digits.simps [of m])
    have "put_digits ?b (int ?i - 1) (int (m div 10)) = Ret ?b"
      using True by (subst put_digits.simps) simp
    then show ?thesis using step i D True by (simp add: upd_conv_take_nth_drop)
  next
    case False
    let ?E = "dec_digits (m div 10)"
    have D: "?D = ?E @ [digit_char (int m mod 10)]"
      using False by (simp add: dec_digits.simps [of m] zmod_int)
    then have i': "int ?i - 1 = int (p + length ?E) - 1" "?i = p + length ?E"
      and l: "p + length ?E \<le> length ?b"
      using i by auto
    have "put_digits ?b (int (p + length ?E) - 1) (int (m div 10)) =
        Ret (take p ?b @ ?E @ drop (p + length ?E) ?b)"
      by (rule "1.IH") (use False l int_div_pos [of m] in auto)
    moreover have "take p ?b = take p b"
      and "drop (p + length ?E) ?b = digit_char (int m mod 10) # drop (p + length ?D) b"
      using i i' D by (simp_all add: upd_conv_take_nth_drop)
    ultimately show ?thesis using step i i' D by simp
  qed
qed

lemma put_digits_at_end:
  assumes "0 < m" and "length b = p + length (dec_digits m) + 1"
    and "i = int (p + length (dec_digits m)) - 1"
  shows "\<exists>x. put_digits b i (int m) = Ret (take p b @ dec_digits m @ [x])"
proof -
  have single: "\<exists>x. ys = [x]" if "length ys = 1" for ys :: string
    using that by (cases ys) auto
  have "length (drop (p + length (dec_digits m)) b) = 1" using assms(2) by simp
  from single [OF this] obtain x where "drop (p + length (dec_digits m)) b = [x]" ..
  then show ?thesis using put_digits_pos [of m p b] assms by simp
qed

lemma poke_last: "j = int (length xs) \<Longrightarrow> poke (xs @ [x]) j c = Ret (xs @ [c])"
  by (simp add: poke_def)

lemma decimal_chars: "set (decimal n) \<subseteq> {c. is_digit c} \<union> {CHR ''-''}"
  using dec_digits_digits by (auto simp: decimal_def)

lemma decimal_no_NUL: "NUL \<notin> set (decimal n)"
  using dec_digits_no_NUL by (auto simp: decimal_def)

lemma min_int_digits: "dec_digits 2147483648 = CHR ''2'' # dec_digits 147483648"
  by (simp add: dec_digits.simps digit_char_lit)

lemma put_in_array_decimal:
  assumes n: "int32 n" and l: "length b = length (decimal n) + 1"
  shows "put_in_array b (int (length (decimal n)) - 1) n (int (length (decimal n))) =
    Ret (decimal n @ [NUL])"
proof -
  consider "n = -2147483648" | "n = 0" | "0 < n" | "n < 0" "n \<noteq> -2147483648" by linarith
  then show ?thesis
  proof cases
    case 1
    let ?b = "b[0 := CHR ''-'', 1 := CHR ''2'']" and ?D = "dec_digits 147483648"
    have dec: "decimal n = ''-2'' @ ?D" using 1 by (simp add: decimal_def min_int_digits)
    then have "\<exists>x. put_digits ?b (int (length (decimal n)) - 1) (int 147483648) =
        Ret (take 2 ?b @ ?D @ [x])"
      using l by (intro put_digits_at_end) auto
    then obtain x where x: "put_digits ?b (int (length (decimal n)) - 1) 147483648 =
        Ret (take 2 ?b @ ?D @ [x])" by auto
    obtain u v w where b: "b = u # v # w" using l dec by (cases b; cases "tl b") auto
    have p0: "poke b 0 CHR ''-'' = Ret (CHR ''-'' # v # w)"
      and p1: "poke (CHR ''-'' # v # w) 1 CHR ''2'' = Ret ?b"
      using b by (simp_all add: poke_def)
    have "poke (''-2'' @ ?D @ [x]) (int (length (decimal n))) NUL = Ret (''-2'' @ ?D @ [NUL])"
      using dec poke_last [of _ "''-2'' @ ?D"] by simp
    then show ?thesis using 1 x p0 p1 dec b by (simp add: put_in_array_def)
  next
    case 2
    then have dec: "decimal n = ''0''"
      by (simp add: decimal_def dec_digits.simps [of 0] digit_char_lit)
    then obtain u v where "b = [u, v]" using l by (auto simp: length_Suc_conv)
    then show ?thesis using 2 dec by (simp add: put_in_array_def poke_def)
  next
    case 3
    then have dec: "decimal n = dec_digits (nat n)" by (simp add: decimal_def)
    have "\<exists>x. put_digits b (int (length (decimal n)) - 1) (int (nat n)) =
        Ret (take 0 b @ dec_digits (nat n) @ [x])"
      using 3 l dec by (intro put_digits_at_end) auto
    then show ?thesis using 3 dec by (auto simp: put_in_array_def poke_last)
  next
    case 4
    let ?b = "b[0 := CHR ''-'']" and ?D = "dec_digits (nat (- n))"
    have dec: "decimal n = ''-'' @ ?D" using 4 by (simp add: decimal_def)
    have "\<exists>x. put_digits ?b (int (length (decimal n)) - 1) (int (nat (- n))) =
        Ret (take 1 ?b @ ?D @ [x])"
      using 4 l dec by (intro put_digits_at_end) auto
    then obtain x where x: "put_digits ?b (int (length (decimal n)) - 1) (- n) =
        Ret (take 1 ?b @ ?D @ [x])" using 4 by auto
    obtain u w where "b = u # w" using l dec by (cases b) auto
    with x show ?thesis using 4 l dec
      by (simp add: put_in_array_def poke_in [of 0, simplified]
          poke_last [of _ "CHR ''-'' # ?D", simplified])
  qed
qed

lemma ft_itoa_decimal:
  assumes "int32 n" shows "ft_itoa (Some m) n = Ret (Some (decimal n))"
proof -
  let ?L = "length (decimal n)"
  let ?b = "map m [0..<nat (int ?L + 1)]"
  have "length ?b = ?L + 1" by simp
  from put_in_array_decimal [OF assms this] show ?thesis
    by (simp add: ft_itoa_def get_n_size_decimal c_str_append_NUL decimal_no_NUL Let_def)
qed

text \<open>The numeral as the callers use it, who take any freshly allocated block.\<close>

definition itoa_str :: "int \<Rightarrow> string" where
  "itoa_str n = (case ft_itoa (Some (\<lambda>_. NUL)) n of Inr (Some s) \<Rightarrow> s | _ \<Rightarrow> [])"

lemma itoa_str_decimal: "int32 n \<Longrightarrow> itoa_str n = decimal n"
  by (simp add: itoa_str_def ft_itoa_decimal)

interpretation itoa: codec itoa_str ft_atoi int32
  by unfold_locales (simp add: itoa_str_decimal ft_atoi_decimal)

section \<open>Properties\<close>

text \<open>
  For every \<^verbatim>\<open>int\<close> and whatever bytes the fresh block holds, \<open>ft_itoa\<close> stays inside
  the block it allocates and returns a string that \<open>ft_atoi\<close> reads back as the same
  number, \<^verbatim>\<open>INT_MIN\<close> included.
\<close>

theorem itoa_atoi_roundtrip:
  assumes "int32 n"
  shows "\<exists>s. ft_itoa (Some m) n = Ret (Some s) \<and> ft_atoi s = n"
  using ft_itoa_decimal [OF assms] ft_atoi_decimal [OF assms] by blast

theorem itoa_atoi_roundtrip_witness:
  "\<exists>s. ft_itoa (Some (\<lambda>i. char_of i)) (-2147483648) = Ret (Some s) \<and> ft_atoi s = -2147483648"
  by (rule itoa_atoi_roundtrip) (simp add: int32_def)

text \<open>
  \<open>ft_atoi\<close> on a numeral below \<open>2 ^ 63 - 1\<close>, after any white space and before any
  byte that is not a digit, is the numeral's value reduced to a 32-bit \<^verbatim>\<open>int\<close>.
\<close>

theorem ft_atoi_numeral:
  assumes "ds \<noteq> []" "\<forall>c\<in>set ds. is_digit c" "digits_value 0 ds < 9223372036854775807"
    and "rest = [] \<or> \<not> is_digit (hd rest)" and "\<forall>c\<in>set bl. is_blank c"
  shows "ft_atoi (bl @ ds @ rest) = wrap32 (int (digits_value 0 ds))"
  using assms by (rule ft_atoi_digits)

theorem ft_atoi_numeral_witness: "ft_atoi '' 4294967301;'' = 5"
  using ft_atoi_numeral [of "''4294967301''" "'';''" "'' ''"]
  by (simp add: is_digit_def is_blank_def schar_def digits_value_def wrap32_def)

end
