(* ===== verification/ParseFunctions.thy ===== *)
theory ParseFunctions
  imports LibFunctions
begin

text \<open>
  \<^verbatim>\<open>webserver/helper/parse_functions.cpp\<close>: splitting a configuration line into its value,
  a header block into lines, and the read of a request.  The position arithmetic is the
  code's: a line without a space gives \<^verbatim>\<open>npos\<close>, and \<^verbatim>\<open>npos + 1\<close> is 0, so the
  value of such a line is the whole line.
\<close>

definition word_end :: "string \<Rightarrow> pos" where
  "word_end str = find_first_of str SP (find_first_not_of str SP (Some 0))"

function split_spaces :: "string list \<Rightarrow> string \<Rightarrow> string list res" where
  "split_spaces vec tmp =
     (case find_first_of tmp SP (Some 0) of
        None \<Rightarrow> Ret (vec @ [tmp])
      | Some p \<Rightarrow> rbind (substr tmp (Some 0) (Some p)) (\<lambda>value.
                  rbind (substr tmp (Some (p + 1)) None) (\<lambda>rest.
                  split_spaces (vec @ [value]) rest)))"
  by pat_completeness auto
termination
  by (relation "measure (\<lambda>(vec, tmp). length tmp)")
    (auto dest: find_first_of_bound split: if_splits)

declare split_spaces.simps [simp del]

definition parse_vector :: "string \<Rightarrow> string list res" where
  "parse_vector str = rbind (substr str (pos_add (word_end str) 1) None) (split_spaces [])"

definition parse_string :: "string \<Rightarrow> string res" where
  "parse_string str = substr str (pos_add (word_end str) 1) None"

definition parse_number :: "string \<Rightarrow> int res" where
  "parse_number str = rbind (substr str (pos_add (word_end str) 1) None) (\<lambda>temp.
     Ret (ft_atoi (c_str temp)))"

text \<open>\<^verbatim>\<open>parse_invalid\<close> looks at its argument and does nothing.\<close>

definition parse_invalid :: "string \<Rightarrow> unit res" where
  "parse_invalid str = (if str = ''0'' then Ret () else Ret ())"

function str_to_vector_loop :: "string list \<Rightarrow> string \<Rightarrow> string list res" where
  "str_to_vector_loop elements request =
     (case find_first_of request CR (Some 0) of
        None \<Rightarrow> Ret (elements @ [request])
      | Some p \<Rightarrow> rbind (substr request (Some 0) (Some p)) (\<lambda>value.
                  rbind (substr request (Some (p + 2)) None) (\<lambda>rest.
                  str_to_vector_loop (elements @ [value]) rest)))"
  by pat_completeness auto
termination
  by (relation "measure (\<lambda>(vec, tmp). length tmp)")
    (auto dest: find_first_of_bound split: if_splits)

declare str_to_vector_loop.simps [simp del]

definition str_to_vector :: "string \<Rightarrow> string list res" where
  "str_to_vector request = str_to_vector_loop [] request"

text \<open>
  \<open>data\<close> is what \<^verbatim>\<open>read (fd, buff, 6000000)\<close> gives, \<open>None\<close> for -1.  The buffer has
  6000000 bytes and \<^verbatim>\<open>buff[ret] = 0\<close> follows, so a full read writes past it.
\<close>

definition read_browser_request :: "string \<Rightarrow> string option \<Rightarrow> string res" where
  "read_browser_request request data = (case data of
      None \<Rightarrow> Throw (Str_Exn ''Read browser request failed'')
    | Some bytes \<Rightarrow>
        if 6000000 \<le> length bytes then Throw (Undef ''write past buff'')
        else Ret (request @ bytes))"

section \<open>The value of a configuration line\<close>

definition value_of :: "string \<Rightarrow> string" where
  "value_of str = drop (case word_end str of None \<Rightarrow> 0 | Some p \<Rightarrow> p + 1) str"

lemma value_substr: "substr str (pos_add (word_end str) 1) None = Ret (value_of str)"
proof (cases "word_end str")
  case (Some i)
  then have "i < length str" unfolding word_end_def by (rule find_first_of_bound)
  with Some show ?thesis by (simp add: value_of_def)
qed (simp add: value_of_def)

lemma parse_string_value: "parse_string str = Ret (value_of str)"
  unfolding parse_string_def by (rule value_substr)

lemma parse_number_value: "parse_number str = Ret (ft_atoi (c_str (value_of str)))"
  unfolding parse_number_def value_substr by simp

lemma parse_vector_value: "parse_vector str = split_spaces [] (value_of str)"
  unfolding parse_vector_def value_substr by simp

lemma word_end_line:
  assumes "set bl \<subseteq> {SP}" "key \<noteq> []" "SP \<notin> set key"
  shows "word_end (bl @ key @ SP # v) = Some (length bl + length key)"
proof -
  obtain k ks where key: "key = k # ks" using assms(2) by (cases key) auto
  have "\<forall>x\<in>set bl. \<not> x \<noteq> SP" "k \<noteq> SP" using assms key by auto
  then have "find_idx (\<lambda>x. x \<noteq> SP) (bl @ k # ks @ SP # v) = Some (length bl)"
    by (rule find_idx_first)
  then have "find_first_not_of (bl @ key @ SP # v) SP (Some 0) = Some (length bl)"
    using key by (simp add: find_first_not_of_def find_pred_0)
  moreover have "find_idx (\<lambda>x. x = SP) (key @ SP # v) = Some (length key)"
    using find_sep [OF assms(3), of v] by (simp add: find_first_of_0)
  ultimately show ?thesis
    by (simp add: word_end_def find_first_of_def find_pred_def)
qed

lemma value_of_line:
  "set bl \<subseteq> {SP} \<Longrightarrow> key \<noteq> [] \<Longrightarrow> SP \<notin> set key \<Longrightarrow> value_of (bl @ key @ SP # v) = v"
  by (simp add: value_of_def word_end_line)

section \<open>Splitting at a separator\<close>

fun join :: "string \<Rightarrow> string list \<Rightarrow> string" where
  "join sep [] = []"
| "join sep [x] = x"
| "join sep (x # y # xs) = x @ sep @ join sep (y # xs)"

lemma split_spaces_step:
  "SP \<notin> set v \<Longrightarrow> split_spaces vec (v @ SP # w) = split_spaces (vec @ [v]) w"
  by (subst split_spaces.simps) (simp add: find_sep)

lemma split_spaces_last: "SP \<notin> set v \<Longrightarrow> split_spaces vec v = Ret (vec @ [v])"
  by (subst split_spaces.simps) (simp add: find_no_sep [THEN iffD2])

lemma split_spaces_join:
  "xs \<noteq> [] \<Longrightarrow> \<forall>x\<in>set xs. SP \<notin> set x \<Longrightarrow> split_spaces vec (join [SP] xs) = Ret (vec @ xs)"
proof (induction xs arbitrary: vec)
  case (Cons x xs)
  show ?case
  proof (cases xs)
    case Nil
    with Cons.prems show ?thesis by (simp add: split_spaces_last)
  next
    case (Cons y ys)
    then show ?thesis using Cons.IH [of "vec @ [x]"] Cons.prems
      by (simp add: split_spaces_step)
  qed
qed simp

lemma split_sep_cases:
  assumes "\<And>v. c \<notin> set v \<Longrightarrow> s = v \<Longrightarrow> P" "\<And>v w. c \<notin> set v \<Longrightarrow> s = v @ c # w \<Longrightarrow> P"
  shows P
  using assms split_list_first [of c s] by blast

lemma split_spaces_words:
  "\<exists>ys. split_spaces vec s = Ret (vec @ ys) \<and> join [SP] ys = s \<and> ys \<noteq> []
     \<and> (\<forall>y\<in>set ys. SP \<notin> set y)"
proof (induction "length s" arbitrary: vec s rule: less_induct)
  case less
  show ?case
  proof (cases s rule: split_sep_cases [of SP])
    case (1 v)
    then show ?thesis by (intro exI [of _ "[v]"]) (simp add: split_spaces_last)
  next
    case (2 v w)
    then obtain ys where ys: "split_spaces (vec @ [v]) w = Ret ((vec @ [v]) @ ys)"
      "join [SP] ys = w" "ys \<noteq> []" "\<forall>y\<in>set ys. SP \<notin> set y"
      using less [of w "vec @ [v]"] by auto
    then show ?thesis using 2
      by (intro exI [of _ "v # ys"]) (cases ys; simp add: split_spaces_step)
  qed
qed

lemma str_to_vector_loop_step:
  "CR \<notin> set v \<Longrightarrow>
     str_to_vector_loop vec (v @ CR # x # w) = str_to_vector_loop (vec @ [v]) w"
  by (subst str_to_vector_loop.simps) (simp add: find_sep)

lemma str_to_vector_loop_last: "CR \<notin> set v \<Longrightarrow> str_to_vector_loop vec v = Ret (vec @ [v])"
  by (subst str_to_vector_loop.simps) (simp add: find_no_sep [THEN iffD2])

lemma str_to_vector_loop_cut:
  "CR \<notin> set v \<Longrightarrow> str_to_vector_loop vec (v @ [CR]) = Throw Out_Of_Range"
  by (subst str_to_vector_loop.simps) (simp add: find_sep)

lemma str_to_vector_loop_join:
  "xs \<noteq> [] \<Longrightarrow> \<forall>x\<in>set xs. CR \<notin> set x \<Longrightarrow>
     str_to_vector_loop vec (join CRLF xs) = Ret (vec @ xs)"
proof (induction xs arbitrary: vec)
  case (Cons x xs)
  show ?case
  proof (cases xs)
    case Nil
    with Cons.prems show ?thesis by (simp add: str_to_vector_loop_last)
  next
    case (Cons y ys)
    then show ?thesis using Cons.IH [of "vec @ [x]"] Cons.prems
      by (simp add: str_to_vector_loop_step)
  qed
qed simp

text \<open>
  The header splitter steps two bytes past each CR, so it throws exactly when its last
  piece ends in a CR; a text that ends in LF has no such piece.
\<close>

lemma str_to_vector_loop_returns:
  "s = [] \<or> last s \<noteq> CR \<Longrightarrow> \<exists>ys. ys \<noteq> [] \<and> str_to_vector_loop vec s = Ret (vec @ ys)
     \<and> (\<forall>y\<in>set ys. CR \<notin> set y)"
proof (induction "length s" arbitrary: vec s rule: less_induct)
  case less
  show ?case
  proof (cases s rule: split_sep_cases [of CR])
    case (1 v)
    then show ?thesis by (intro exI [of _ "[v]"]) (simp add: str_to_vector_loop_last)
  next
    case (2 v w)
    with less.prems obtain x t where w: "w = x # t" and t: "t = [] \<or> last t \<noteq> CR"
      by (cases w) (auto split: if_splits)
    then obtain ys where "ys \<noteq> []" "str_to_vector_loop (vec @ [v]) t = Ret ((vec @ [v]) @ ys)"
      "\<forall>y\<in>set ys. CR \<notin> set y"
      using less.hyps [of t "vec @ [v]"] 2 by auto
    then show ?thesis using 2 w
      by (intro exI [of _ "v # ys"]) (simp add: str_to_vector_loop_step)
  qed
qed

section \<open>Properties\<close>

text \<open>
  \<open>parse_vector\<close> never throws, and the words it returns are the value of the line split
  at its spaces: none holds a space and joined with single spaces they are the value.
\<close>

theorem parse_vector_words:
  "\<exists>ws. parse_vector str = Ret ws \<and> ws \<noteq> [] \<and> join [SP] ws = value_of str
     \<and> list_all (\<lambda>w. SP \<notin> set w) ws"
  using split_spaces_words [of "[]" "value_of str"]
  by (auto simp: parse_vector_value list_all_iff)

text \<open>
  The three value parsers agree on an indented directive line \<open>key value\<close>: the value
  is everything after the one space that ends the key, taken as it is, as a number, or as
  words.
\<close>

theorem directive_value:
  assumes "set bl \<subseteq> {SP}" "key \<noteq> []" "SP \<notin> set key"
    and "ws \<noteq> []" "\<forall>w\<in>set ws. SP \<notin> set w" and v: "v = join [SP] ws"
  shows "parse_string (bl @ key @ SP # v) = Ret v
     \<and> parse_number (bl @ key @ SP # v) = Ret (ft_atoi (c_str v))
     \<and> parse_vector (bl @ key @ SP # v) = Ret ws"
proof -
  show ?thesis
    using value_of_line [OF assms(1-3)] split_spaces_join [OF assms(4,5), of "[]"] v
    by (simp add: parse_string_value parse_number_value parse_vector_value)
qed

theorem directive_value_witness:
  "parse_string ''    time_out 5'' = Ret ''5''
   \<and> parse_number ''    time_out 5'' = Ret (ft_atoi (c_str ''5''))
   \<and> parse_vector ''    time_out 5'' = Ret [''5'']"
  using directive_value [of "''    ''" "''time_out''" "[''5'']"] by simp

text \<open>
  \<open>str_to_vector\<close> undoes the joining of header lines with CRLF, and it returns (it does
  not throw) for every text whose last byte is not a CR.
\<close>

theorem str_to_vector_lines:
  "(ls \<noteq> [] \<longrightarrow> (\<forall>l\<in>set ls. CR \<notin> set l) \<longrightarrow> str_to_vector (join CRLF ls) = Ret ls)
   \<and> (s = [] \<or> last s \<noteq> CR \<longrightarrow> (\<exists>ys. ys \<noteq> [] \<and> str_to_vector s = Ret ys))"
  using str_to_vector_loop_join [of ls "[]"] str_to_vector_loop_returns [of s "[]"]
  by (auto simp: str_to_vector_def)

theorem str_to_vector_lines_witness:
  "str_to_vector (join CRLF [''GET / HTTP/1.1'', ''Host: a'', [], []])
     = Ret [''GET / HTTP/1.1'', ''Host: a'', [], []]
   \<and> (\<exists>ys. ys \<noteq> [] \<and> str_to_vector [CR, LF] = Ret ys)"
  using str_to_vector_lines [of "[''GET / HTTP/1.1'', ''Host: a'', [], []]" "[CR, LF]"]
  by simp

end
