(* ===== verification/CheckFunctions.thy ===== *)
theory CheckFunctions
  imports ParseFunctions
begin

text \<open>
  \<^verbatim>\<open>webserver/helper/check_functions.cpp\<close>: when a server block of the configuration is
  complete, how long a location block is, and the hexadecimal chunk sizes.
\<close>

fun count_lines :: "char \<Rightarrow> string list \<Rightarrow> nat" where
  "count_lines c [] = 0"
| "count_lines c (str # rest) =
     (if find_first_of str c (Some 0) \<noteq> None then Suc (count_lines c rest)
      else count_lines c rest)"

definition check_server_block :: "string list \<Rightarrow> bool" where
  "check_server_block server_block =
     (let open_bracket = count_lines CHR 0x7B server_block;
          closing_bracket = count_lines CHR 0x7D server_block
      in open_bracket = closing_bracket \<and> open_bracket \<noteq> 0)"

text \<open>\<open>location_block_size_loop\<close> is the loop with its counter \<^verbatim>\<open>i\<close>.\<close>

fun location_block_size_loop :: "nat \<Rightarrow> string list \<Rightarrow> nat" where
  "location_block_size_loop i [] = 0"
| "location_block_size_loop i (str # rest) =
     (if find_sub str [CHR 0x7D] (Some 0) \<noteq> None then i
      else location_block_size_loop (Suc i) rest)"

definition location_block_size :: "string list \<Rightarrow> nat" where
  "location_block_size ls = location_block_size_loop 0 ls"

definition hex_val :: "char \<Rightarrow> int" where
  "hex_val c = (if 48 \<le> schar c \<and> schar c \<le> 57 then schar c - 48 else schar c - 97 + 10)"

text \<open>
  The digit loop runs from the last byte to the first; \<^verbatim>\<open>num\<close> and \<^verbatim>\<open>power\<close> are
  \<^verbatim>\<open>int\<close>s and wrap at 32 bits.
\<close>

fun hex_loop :: "int \<Rightarrow> int \<Rightarrow> int \<Rightarrow> string \<Rightarrow> int" where
  "hex_loop base pw num [] = num"
| "hex_loop base pw num (c # cs) =
     (if base \<le> hex_val c then -1
      else hex_loop base (wrap32 (pw * base)) (wrap32 (num + hex_val c * pw)) cs)"

definition hex_to_dec :: "string \<Rightarrow> int \<Rightarrow> int" where
  "hex_to_dec str base = (if str = ''0'' then 0 else hex_loop base 1 0 (rev str))"

section \<open>Blocks\<close>

lemma count_lines_filter: "count_lines c ls = length (filter (\<lambda>l. c \<in> set l) ls)"
  by (induction ls) (simp_all add: find_no_sep)

lemma check_server_block_iff:
  "check_server_block ls \<longleftrightarrow>
     length (filter (\<lambda>l. CHR 0x7B \<in> set l) ls) = length (filter (\<lambda>l. CHR 0x7D \<in> set l) ls)
     \<and> (\<exists>l\<in>set ls. CHR 0x7B \<in> set l)"
  by (auto simp: check_server_block_def count_lines_filter filter_empty_conv Let_def)

lemma find_sub_char: "find_sub str [c] (Some 0) \<noteq> None \<longleftrightarrow> c \<in> set str"
proof -
  have "find_sub_idx [c] str \<noteq> None \<longleftrightarrow> c \<in> set str" by (induction str) auto
  then show ?thesis by (simp only: find_sub_0)
qed

lemma location_block_size_loop_closed:
  "\<forall>l\<in>set ls. CHR 0x7D \<notin> set l \<Longrightarrow> CHR 0x7D \<in> set m \<Longrightarrow>
     location_block_size_loop i (ls @ m # rest) = i + length ls"
  by (induction ls arbitrary: i) (auto simp: find_sub_char simp del: not_None_eq)

lemma location_block_size_loop_le: "location_block_size_loop i ls \<le> i + length ls"
proof (induction ls arbitrary: i)
  case (Cons l ls)
  show ?case using Cons.IH [of "Suc i"] by simp
qed simp

lemma location_block_size_le: "location_block_size ls \<le> length ls"
  using location_block_size_loop_le [of 0 ls] by (simp add: location_block_size_def)

section \<open>Hexadecimal numerals\<close>

definition hex_digit :: "char \<Rightarrow> bool" where
  "hex_digit c \<longleftrightarrow> (48 \<le> schar c \<and> schar c \<le> 57) \<or> (97 \<le> schar c \<and> schar c \<le> 102)"

lemma hex_val_range: "hex_digit c \<Longrightarrow> 0 \<le> hex_val c \<and> hex_val c < 16"
  by (auto simp: hex_digit_def hex_val_def)

text \<open>The value a numeral stands for, most significant digit first.\<close>

definition hex_value :: "string \<Rightarrow> int" where
  "hex_value s = foldl (\<lambda>v c. v * 16 + hex_val c) 0 s"

lemma hex_value_snoc: "hex_value (s @ [c]) = hex_value s * 16 + hex_val c"
  by (simp add: hex_value_def)

lemma hex_value_bounds:
  "\<forall>c\<in>set s. hex_digit c \<Longrightarrow> 0 \<le> hex_value s \<and> hex_value s < 16 ^ length s"
proof (induction s rule: rev_induct)
  case Nil
  then show ?case by (simp add: hex_value_def)
next
  case (snoc c s)
  then have "0 \<le> hex_value s" "hex_value s + 1 \<le> 16 ^ length s" "0 \<le> hex_val c" "hex_val c < 16"
    using hex_val_range [of c] by auto
  then show ?case by (simp add: hex_value_snoc)
qed

text \<open>
  The loop computes \<open>num + power * value\<close> of what is left; seven digits stay below
  \<open>2 ^ 28\<close>, so nothing wraps.
\<close>

lemma hex_loop_value:
  assumes "\<forall>c\<in>set s. hex_digit c" "k + length s \<le> 7" "0 \<le> num" "num < 16 ^ k"
  shows "hex_loop 16 (16 ^ k) num (rev s) = num + 16 ^ k * hex_value s"
  using assms
proof (induction s arbitrary: k num rule: rev_induct)
  case Nil
  then show ?case by (simp add: hex_value_def)
next
  case (snoc c s)
  have c: "0 \<le> hex_val c" "hex_val c < 16" using hex_val_range [of c] snoc.prems(1) by auto
  let ?num = "num + hex_val c * 16 ^ k"
  have "hex_val c * 16 ^ k \<le> 15 * 16 ^ k" using c by (intro mult_right_mono) auto
  moreover have "0 \<le> hex_val c * 16 ^ k" using c by simp
  ultimately have n: "0 \<le> ?num" "?num < 16 ^ Suc k"
    using snoc.prems(3,4) unfolding power_Suc by linarith+
  have p: "(16::int) ^ Suc k \<le> 16 ^ 7"
    using snoc.prems(2) by (intro power_increasing) auto
  then have "int32 ?num" "int32 (16 ^ k * 16)" using n by (auto simp: int32_def)
  then have "hex_loop 16 (16 ^ k) num (rev (s @ [c])) = hex_loop 16 (16 ^ Suc k) ?num (rev s)"
    using c by (simp add: wrap32_id mult.commute)
  also have "\<dots> = ?num + 16 ^ Suc k * hex_value s"
    using snoc.prems n by (intro snoc.IH) auto
  finally show ?case by (simp add: hex_value_snoc algebra_simps)
qed

lemma hex_to_dec_value:
  assumes "\<forall>c\<in>set s. hex_digit c" "length s \<le> 7"
  shows "hex_to_dec s 16 = hex_value s"
proof (cases "s = ''0''")
  case True
  then show ?thesis by (simp add: hex_to_dec_def hex_value_def hex_val_def schar_def)
next
  case False
  then show ?thesis using hex_loop_value [of s 0 0] assms by (simp add: hex_to_dec_def)
qed

lemma hex_to_dec_empty [simp]: "hex_to_dec [] base = 0"
  by (simp add: hex_to_dec_def)

section \<open>Properties\<close>

text \<open>
  A hexadecimal numeral of at most seven lower-case digits is converted to its value;
  an upper-case digit is not recognised: \<open>A\<close> counts as -22.
\<close>

theorem hex_to_dec_lower_case:
  assumes "\<forall>c\<in>set s. hex_digit c" and "length s \<le> 7"
  shows "hex_to_dec s 16 = hex_value s \<and> hex_to_dec ''A'' 16 = -22"
  using hex_to_dec_value [OF assms]
  by (simp add: hex_to_dec_def hex_val_def schar_def wrap32_def)

theorem hex_to_dec_lower_case_witness: "hex_to_dec ''1fa'' 16 = 506"
  using hex_to_dec_lower_case [of "''1fa''"]
  by (simp add: hex_digit_def hex_value_def hex_val_def schar_def)

end
