(* ===== verification/GetNextLine.thy ===== *)
theory GetNextLine
  imports StdString
begin

text \<open>
  \<^verbatim>\<open>webserver/gnl\<close>: reading a file line by line through one static buffer.  The buffer is
  \<open>None\<close> for the null pointer and otherwise the bytes before its NUL; a file is the bytes
  still unread.  \<open>malloc_ok k\<close> says whether a request for \<open>k\<close> bytes succeeds.  The
  buffer is shared by all callers, and the configuration reader opens a second file while
  it is between two lines of the first; the lemmas show why this works with the
  \<^verbatim>\<open>BUFFER_SIZE\<close> of 1 the code sets.
\<close>

type_synonym gnl_buf = "string option"

definition BUFFER_SIZE :: nat where
  "BUFFER_SIZE = 1"

section \<open>get_next_line_utils.cpp\<close>

definition cpy :: "(nat \<Rightarrow> bool) \<Rightarrow> gnl_buf \<Rightarrow> string \<Rightarrow> int \<times> gnl_buf" where
  "cpy malloc_ok buf s1 =
     (if malloc_ok (length (c_str s1) + 1) then (1, Some (c_str s1)) else (-1, buf))"

definition cleanup :: "gnl_buf \<Rightarrow> int \<times> gnl_buf" where
  "cleanup buf = (-1, None)"

definition join_free :: "(nat \<Rightarrow> bool) \<Rightarrow> string \<Rightarrow> string \<Rightarrow> int \<times> gnl_buf" where
  "join_free malloc_ok s1 s2 =
     (if malloc_ok (length s1 + length (c_str s2) + 1) then (1, Some (s1 @ c_str s2))
      else cleanup (Some s1))"

fun has_newline :: "string \<Rightarrow> bool" where
  "has_newline [] = False"
| "has_newline (c # cs) = (c = LF \<or> has_newline cs)"

definition line_break :: "gnl_buf \<Rightarrow> bool" where
  "line_break buf = (case buf of None \<Rightarrow> False | Some s \<Rightarrow> has_newline s)"

definition return_value :: "gnl_buf \<Rightarrow> int" where
  "return_value buf = (case buf of None \<Rightarrow> 0 | Some s \<Rightarrow> if s \<noteq> [] then 1 else 0)"

section \<open>get_next_line.cpp\<close>

definition generate_output :: "int \<Rightarrow> gnl_buf \<Rightarrow> int \<times> gnl_buf" where
  "generate_output res buf = (if res = 0 then (0, None) else (1, buf))"

text \<open>
  The guard of the copying loop reads \<^verbatim>\<open>buf[i + 1]\<close> before it looks at \<^verbatim>\<open>size\<close>.  With
  no newline in the buffer, \<^verbatim>\<open>i\<close> is at the NUL and this byte lies past the block:
  \<open>past\<close> is whatever is there.
\<close>

definition save_remainder :: "(nat \<Rightarrow> bool) \<Rightarrow> char \<Rightarrow> string \<Rightarrow> int \<times> gnl_buf" where
  "save_remainder malloc_ok past buf =
     (let r = dropWhile (\<lambda>c. c \<noteq> LF) buf;
          sz = length r;
          next_byte = (case r of [] \<Rightarrow> past | [_] \<Rightarrow> NUL | _ # c # _ \<Rightarrow> c)
      in if \<not> malloc_ok (sz + 1) then cleanup (Some buf)
         else (1, Some (if next_byte \<noteq> NUL \<and> sz \<noteq> 0 then tl r else [])))"

text \<open>The new line, or the failure that also clears the buffer.\<close>

definition save_line :: "(nat \<Rightarrow> bool) \<Rightarrow> string \<Rightarrow> string option" where
  "save_line malloc_ok buf =
     (let l = takeWhile (\<lambda>c. c \<noteq> LF) buf
      in if malloc_ok (length l + 1) then Some l else None)"

text \<open>The reading loop: it stops at a newline, at the end of the file or on a failure.\<close>

function fill :: "(nat \<Rightarrow> bool) \<Rightarrow> gnl_buf \<Rightarrow> string \<Rightarrow> int \<times> gnl_buf \<times> string" where
  "fill malloc_ok buf rest =
     (if line_break buf then (1, buf, rest)
      else let b = take BUFFER_SIZE rest; rest' = drop BUFFER_SIZE rest;
               (fail, buf') = (case buf of None \<Rightarrow> cpy malloc_ok None b
                                | Some s \<Rightarrow> join_free malloc_ok s b)
           in if fail = -1 then (-1, buf', rest')
              else if b = [] then (1, buf', rest')
              else fill malloc_ok buf' rest')"
  by pat_completeness auto
termination
  by (relation "measure (\<lambda>(m, buf, rest). length rest)") (auto simp: BUFFER_SIZE_def)

declare fill.simps [simp del]

text \<open>
  \<open>readable\<close> is the answer to \<^verbatim>\<open>read (fd, 0, 0)\<close>.  The result is the returned code, the
  line stored through \<^verbatim>\<open>line\<close> (if one is), the buffer and what is left of the file.
\<close>

definition get_next_line ::
  "(nat \<Rightarrow> bool) \<Rightarrow> char \<Rightarrow> bool \<Rightarrow> gnl_buf \<Rightarrow> string \<Rightarrow> int \<times> string option \<times> gnl_buf \<times> string" where
  "get_next_line malloc_ok past readable buf rest =
     (if \<not> readable then (-1, None, buf, rest)
      else let (fail, buf1, rest1) = fill malloc_ok buf rest
           in if fail = -1 then (-1, None, buf1, rest1)
              else let s = (case buf1 of None \<Rightarrow> [] | Some s \<Rightarrow> s)
                   in case save_line malloc_ok s of
                        None \<Rightarrow> (-1, None, snd (cleanup buf1), rest1)
                      | Some l \<Rightarrow>
                          let res = return_value buf1;
                              (ok, buf2) = save_remainder malloc_ok past s
                          in if ok = -1 then (-1, Some l, buf2, rest1)
                             else let (ret, buf3) = generate_output res buf2
                                  in (ret, Some l, buf3, rest1))"

section \<open>What one call does\<close>

abbreviation (input) "always \<equiv> (\<lambda>_ :: nat. True)"

lemma has_newline_iff: "has_newline s \<longleftrightarrow> LF \<in> set s"
  by (induction s) auto

text \<open>Between two lines the buffer is empty: the null pointer or an empty string.\<close>

definition idle :: "gnl_buf \<Rightarrow> bool" where
  "idle buf \<longleftrightarrow> buf = None \<or> buf = Some []"

lemma fill_Some_LF: "LF \<in> set s \<Longrightarrow> fill m (Some s) rest = (1, Some s, rest)"
  by (subst fill.simps) (simp add: line_break_def has_newline_iff)

lemma fill_step:
  "LF \<notin> set s \<Longrightarrow> NUL \<noteq> c \<Longrightarrow>
     fill always (Some s) (c # rest) = fill always (Some (s @ [c])) rest"
  by (subst fill.simps)
    (auto simp: line_break_def has_newline_iff BUFFER_SIZE_def join_free_def c_str_def)

lemma fill_eof: "LF \<notin> set s \<Longrightarrow> fill always (Some s) [] = (1, Some s, [])"
  by (subst fill.simps)
    (simp add: line_break_def has_newline_iff BUFFER_SIZE_def join_free_def c_str_def)

lemma fill_None:
  "NUL \<notin> set rest \<Longrightarrow> fill always None rest =
     (case rest of [] \<Rightarrow> (1, Some [], []) | c # cs \<Rightarrow> fill always (Some [c]) cs)"
  by (subst fill.simps, cases rest)
    (auto simp: line_break_def BUFFER_SIZE_def cpy_def c_str_def)

lemma fill_idle:
  assumes "idle buf" "NUL \<notin> set rest"
  shows "fill always buf rest = fill always (Some []) rest"
  using assms fill_None [of rest] fill_eof [of "[]"]
  by (cases rest) (auto simp: idle_def fill_step)

text \<open>One byte is read at a time, so the buffer ends with the first newline it holds.\<close>

lemma fill_line:
  assumes "LF \<notin> set s" "NUL \<notin> set rest"
  shows "fill always (Some s) rest =
    (if LF \<in> set rest
     then (1, Some (s @ takeWhile (\<lambda>c. c \<noteq> LF) rest @ [LF]), tl (dropWhile (\<lambda>c. c \<noteq> LF) rest))
     else (1, Some (s @ rest), []))"
  using assms
proof (induction rest arbitrary: s)
  case Nil
  then show ?case by (simp add: fill_eof)
next
  case (Cons c rest)
  then show ?case
    by (cases "c = LF") (simp_all add: fill_step fill_Some_LF Cons.IH [of "s @ [c]"])
qed

definition line_of :: "string \<Rightarrow> string" where
  "line_of s = takeWhile (\<lambda>c. c \<noteq> LF) s"

definition after_line :: "string \<Rightarrow> string" where
  "after_line s = tl (dropWhile (\<lambda>c. c \<noteq> LF) s)"

lemma after_line_shorter: "s \<noteq> [] \<Longrightarrow> length (after_line s) < length s"
  using length_dropWhile_le [of "\<lambda>c. c \<noteq> LF" s]
  by (cases s) (auto simp: after_line_def less_Suc_eq_le)

lemma set_after_line: "set (after_line s) \<subseteq> set s"
proof -
  have "set (tl xs) \<subseteq> set xs" for xs :: string by (cases xs) auto
  then have "set (after_line s) \<subseteq> set (dropWhile (\<lambda>c. c \<noteq> LF) s)" by (simp add: after_line_def)
  then show ?thesis using set_dropWhileD by fastforce
qed

lemma get_next_line_idle:
  assumes "idle buf" "NUL \<notin> set rest"
  shows "get_next_line always past True buf rest =
    (if rest = [] then (0, Some [], None, [])
     else (1, Some (line_of rest), Some [], after_line rest))"
proof (cases "LF \<in> set rest")
  case True
  have t: "takeWhile (\<lambda>c. c \<noteq> LF) (takeWhile (\<lambda>c. c \<noteq> LF) rest @ [LF]) = takeWhile (\<lambda>c. c \<noteq> LF) rest"
    and d: "dropWhile (\<lambda>c. c \<noteq> LF) (takeWhile (\<lambda>c. c \<noteq> LF) rest @ [LF]) = [LF]"
    by (subst takeWhile_append2 dropWhile_append2; auto dest: set_takeWhileD)+
  have "fill always buf rest =
      (1, Some (takeWhile (\<lambda>c. c \<noteq> LF) rest @ [LF]), tl (dropWhile (\<lambda>c. c \<noteq> LF) rest))"
    using True fill_idle [OF assms] fill_line [of "[]" rest] assms(2) by simp
  with True show ?thesis
    by (cases "rest = []") (simp_all add: get_next_line_def save_line_def save_remainder_def
        return_value_def generate_output_def t d line_of_def after_line_def Let_def)
next
  case False
  then have n: "takeWhile (\<lambda>c. c \<noteq> LF) rest = rest" "dropWhile (\<lambda>c. c \<noteq> LF) rest = []"
    by (auto simp: takeWhile_eq_all_conv dropWhile_eq_Nil_conv)
  have "fill always buf rest = (1, Some rest, [])"
    using False fill_idle [OF assms] fill_line [of "[]" rest] assms(2) by simp
  then show ?thesis
    by (cases "rest = []") (simp_all add: n get_next_line_def save_line_def save_remainder_def
        return_value_def generate_output_def line_of_def after_line_def Let_def)
qed

section \<open>Reading a whole file\<close>

lemma fill_length:
  "fill m buf rest = (r, buf', rest') \<Longrightarrow>
     length rest' + (case buf' of None \<Rightarrow> 0 | Some s \<Rightarrow> length s)
       \<le> length rest + (case buf of None \<Rightarrow> 0 | Some s \<Rightarrow> length s)"
proof (induction m buf rest rule: fill.induct)
  case (1 m buf rest)
  have c: "length (c_str x) \<le> length x" for x by (simp add: c_str_def length_takeWhile_le)
  show ?case
  proof (cases "line_break buf")
    case True
    with "1.prems" show ?thesis by (simp add: fill.simps)
  next
    case False
    obtain f b where fb: "(case buf of None \<Rightarrow> cpy m None (take BUFFER_SIZE rest)
        | Some s \<Rightarrow> join_free m s (take BUFFER_SIZE rest)) = (f, b)" by fastforce
    then have l: "(case b of None \<Rightarrow> 0 | Some s \<Rightarrow> length s)
        \<le> (case buf of None \<Rightarrow> 0 | Some s \<Rightarrow> length s) + length (take BUFFER_SIZE rest)"
      using c [of "take BUFFER_SIZE rest"]
      by (cases buf) (auto simp: cpy_def join_free_def cleanup_def split: if_splits)
    consider "f = -1 \<or> take BUFFER_SIZE rest = []"
      | "f \<noteq> -1" "take BUFFER_SIZE rest \<noteq> []" by blast
    then show ?thesis
    proof cases
      case 1
      then have "buf' = b" "rest' = drop BUFFER_SIZE rest"
        using "1.prems" False fb by (auto simp: fill.simps [of m buf rest] split: if_splits)
      with l show ?thesis by (simp add: min_def split: if_splits)
    next
      case 2
      then have "fill m b (drop BUFFER_SIZE rest) = (r, buf', rest')"
        using "1.prems" False fb by (simp add: fill.simps [of m buf rest])
      from "1.IH" [OF False refl refl fb [symmetric] refl 2 this] l show ?thesis
        by (simp add: min_def split: if_splits)
    qed
  qed
qed

definition buf_len :: "gnl_buf \<Rightarrow> nat" where
  "buf_len buf = (case buf of None \<Rightarrow> 0 | Some s \<Rightarrow> length s)"

lemma save_remainder_shorter:
  "save_remainder m past s = (ok, b) \<Longrightarrow> ok \<noteq> -1 \<Longrightarrow> s \<noteq> [] \<Longrightarrow> buf_len b < length s"
  using after_line_shorter [of s]
  by (auto simp: save_remainder_def cleanup_def buf_len_def after_line_def Let_def split: if_splits)

lemma get_next_line_shorter:
  assumes "get_next_line m past readable buf rest = (1, l, buf', rest')"
  shows "length rest' + buf_len buf' < length rest + buf_len buf"
proof -
  obtain f b1 r1 where fl: "fill m buf rest = (f, b1, r1)" by (metis surj_pair)
  let ?s = "case b1 of None \<Rightarrow> [] | Some s \<Rightarrow> s"
  obtain ok b2 where sr: "save_remainder m past ?s = (ok, b2)" by fastforce
  have "return_value b1 \<noteq> 0" "ok \<noteq> -1" "buf' = b2" "rest' = r1"
    using assms fl sr
    by (auto simp: get_next_line_def generate_output_def Let_def split: if_splits option.splits)
  then have "buf_len buf' < length ?s" "rest' = r1" "length ?s = buf_len b1"
    using save_remainder_shorter [OF sr]
    by (auto simp: return_value_def buf_len_def split: option.splits if_splits)
  then show ?thesis using fill_length [OF fl] unfolding buf_len_def [symmetric] by simp
qed

text \<open>
  The loop \<^verbatim>\<open>while ((ret = get_next_line (fd, &line)) == 1)\<close> that collects the lines; with them, it gives the
  last code and the line the last call stored, if it stored one.
\<close>

function line_loop ::
  "(nat \<Rightarrow> bool) \<Rightarrow> char \<Rightarrow> bool \<Rightarrow> string list \<Rightarrow> gnl_buf \<Rightarrow> string \<Rightarrow> string list \<times> int \<times> string option \<times> gnl_buf" where
  "line_loop malloc_ok past readable acc buf rest =
     (case get_next_line malloc_ok past readable buf rest of
        (ret, line, buf', rest') \<Rightarrow>
          if ret = 1
          then line_loop malloc_ok past readable
                 (acc @ (case line of None \<Rightarrow> [] | Some l \<Rightarrow> [l])) buf' rest'
          else (acc, ret, line, buf'))"
  by pat_completeness auto
termination
  by (relation "measure (\<lambda>(m, past, r, acc, buf, rest). length rest + buf_len buf)")
    (auto dest: get_next_line_shorter [OF sym])

declare line_loop.simps [simp del]

definition read_lines ::
  "(nat \<Rightarrow> bool) \<Rightarrow> char \<Rightarrow> bool \<Rightarrow> string list \<Rightarrow> gnl_buf \<Rightarrow> string \<Rightarrow> string list \<times> int \<times> gnl_buf" where
  "read_lines malloc_ok past readable acc buf rest =
     (case line_loop malloc_ok past readable acc buf rest of (lines, ret, line, buf) \<Rightarrow> (lines, ret, buf))"

lemma read_lines_step:
  "read_lines malloc_ok past readable acc buf rest =
     (case get_next_line malloc_ok past readable buf rest of
        (ret, line, buf', rest') \<Rightarrow>
          if ret = 1
          then read_lines malloc_ok past readable
                 (acc @ (case line of None \<Rightarrow> [] | Some l \<Rightarrow> [l])) buf' rest'
          else (acc, ret, buf'))"
  unfolding read_lines_def by (subst line_loop.simps) (simp split: prod.split)

function lines_of :: "string \<Rightarrow> string list" where
  "lines_of s = (if s = [] then [] else line_of s # lines_of (after_line s))"
  by pat_completeness auto
termination
  by (relation "measure length") (auto simp: after_line_shorter)

declare lines_of.simps [simp del]

lemma lines_of_Nil [simp]: "lines_of [] = []"
  by (simp add: lines_of.simps)

lemma lines_of_line: "LF \<notin> set l \<Longrightarrow> lines_of (l @ LF # s) = l # lines_of s"
proof -
  assume "LF \<notin> set l"
  then have "\<forall>x\<in>set l. x \<noteq> LF" by blast
  then have "line_of (l @ LF # s) = l" "after_line (l @ LF # s) = s"
    by (simp_all add: line_of_def after_line_def takeWhile_append2 dropWhile_append2)
  then show ?thesis by (subst lines_of.simps) simp
qed

lemma read_lines_idle:
  assumes "idle buf" "NUL \<notin> set rest"
  shows "read_lines always past True acc buf rest = (acc @ lines_of rest, 0, None)"
  using assms
proof (induction rest arbitrary: acc buf rule: lines_of.induct)
  case (1 s)
  show ?case
  proof (cases "s = []")
    case True
    then show ?thesis using "1.prems"
      by (simp add: read_lines_step [of _ _ _ acc buf] get_next_line_idle)
  next
    case False
    have "read_lines always past True (acc @ [line_of s]) (Some []) (after_line s)
        = ((acc @ [line_of s]) @ lines_of (after_line s), 0, None)"
      using "1.prems"(2) set_after_line [of s] False by (intro "1.IH") (auto simp: idle_def)
    then show ?thesis using "1.prems" False
      by (simp add: read_lines_step [of _ _ _ acc buf] get_next_line_idle lines_of.simps [of s])
  qed
qed

section \<open>Properties\<close>

text \<open>
  C34. While no allocation fails, reading a file without NUL bytes from an idle buffer gives
  exactly its lines, ends with code 0 and the null buffer, and does not depend on the byte
  past the block that the remainder loop looks at.
\<close>

theorem read_lines_lines:
  assumes "idle buf" "NUL \<notin> set rest"
  shows "read_lines (\<lambda>_. True) past True [] buf rest = (lines_of rest, 0, None)"
  using read_lines_idle [OF assms, of past "[]"] by simp

theorem read_lines_lines_witness:
  "read_lines (\<lambda>_. True) CHR ''x'' True [] None (''ab'' @ LF # LF # ''c'') = ([''ab'', [], ''c''], 0, None)"
  using read_lines_lines [of None "''ab'' @ LF # LF # ''c''" "CHR ''x''"]
    lines_of_line [of "''ab''" "LF # ''c''"] lines_of_line [of "[]" "''c''"]
  by (simp add: idle_def lines_of.simps [of "''c''"] line_of_def after_line_def)

text \<open>
  After a call that returned a line the shared buffer is idle again, so a caller may
  read another file to its end before it asks for its own next line: the first file loses
  nothing.
\<close>

theorem get_next_line_interleaves:
  assumes "idle buf" "NUL \<notin> set rest" "rest \<noteq> []" "NUL \<notin> set other"
  shows "\<exists>buf1 buf2. get_next_line (\<lambda>_. True) past True buf rest
      = (1, Some (line_of rest), buf1, after_line rest)
    \<and> read_lines (\<lambda>_. True) past True [] buf1 other = (lines_of other, 0, buf2)
    \<and> read_lines (\<lambda>_. True) past True [] buf2 (after_line rest) = (lines_of (after_line rest), 0, None)"
proof -
  have "NUL \<notin> set (after_line rest)" using assms(2) set_after_line by blast
  then show ?thesis
    using get_next_line_idle [OF assms(1,2), of past] assms(3)
      read_lines_idle [of "Some []" other past "[]"] assms(4)
      read_lines_idle [of None "after_line rest" past "[]"]
    by (simp add: idle_def)
qed

theorem get_next_line_interleaves_witness:
  "\<exists>buf1 buf2. get_next_line (\<lambda>_. True) NUL True None [CHR ''a'', LF, CHR ''b'']
      = (1, Some (line_of [CHR ''a'', LF, CHR ''b'']), buf1, after_line [CHR ''a'', LF, CHR ''b''])
    \<and> read_lines (\<lambda>_. True) NUL True [] buf1 ''u:p'' = (lines_of ''u:p'', 0, buf2)
    \<and> read_lines (\<lambda>_. True) NUL True [] buf2 (after_line [CHR ''a'', LF, CHR ''b''])
      = (lines_of (after_line [CHR ''a'', LF, CHR ''b'']), 0, None)"
  by (rule get_next_line_interleaves) (simp_all add: idle_def)

end
