(* ===== verification/LocationContext.thy ===== *)
theory LocationContext
  imports ParseFunctions GetNextLine
begin

text \<open>
  \<^verbatim>\<open>webserver/server/location_context.hpp/.cpp\<close>: one \<^verbatim>\<open>location\<close> block of the
  configuration.  The class is a record, its array of member functions the case
  distinction \<open>configure_location\<close>, and the file system the configuration reads from is
  the parameter \<open>gnl_env\<close>: which paths open and what they hold, and the two accidents of
  memory that \<open>get_next_line\<close> sees.
\<close>

section \<open>State\<close>

datatype disk_file = Unreadable | Content string

record gnl_env =
  ge_files :: "string \<Rightarrow> disk_file option"
  ge_malloc :: "nat \<Rightarrow> bool"
  ge_past :: char

record location_context =
  loc_context :: string
  loc_root :: string
  loc_index :: string
  loc_allowed_method :: "string list"
  loc_max_file_size :: int
  loc_autoindex :: bool
  loc_alias :: bool
  loc_auth_basic :: string
  loc_auth_user_info :: "string list"
  loc_return :: "(int \<times> string) list"

definition location_context_init :: location_context where
  "location_context_init = \<lparr>loc_context = [], loc_root = [], loc_index = [],
     loc_allowed_method = [], loc_max_file_size = 0, loc_autoindex = False, loc_alias = False,
     loc_auth_basic = [], loc_auth_user_info = [], loc_return = []\<rparr>"

datatype location_value =
    L_root | L_method | L_autoindex | L_index | L_alias | L_max_file_size | L_auth_basic
  | L_auth_user_info | L_return | L_unknown

section \<open>Operations\<close>

text \<open>The \<^verbatim>\<open>_return\<close> map is the one member the reset leaves alone.\<close>

definition clean_location_instance :: "location_context \<Rightarrow> location_context" where
  "clean_location_instance l = l\<lparr>loc_context := [], loc_root := [], loc_index := [],
     loc_allowed_method := [], loc_max_file_size := 0, loc_autoindex := False,
     loc_alias := False, loc_auth_basic := [], loc_auth_user_info := []\<rparr>"

definition identify_location_value :: "string \<Rightarrow> location_value" where
  "identify_location_value str =
     (if contains str ''root'' then L_root
      else if contains str ''allowed_method'' then L_method
      else if contains str ''autoindex'' then L_autoindex
      else if contains str ''index'' then L_index
      else if contains str ''alias'' then L_alias
      else if contains str ''max_file_size'' then L_max_file_size
      else if contains str ''auth_basic '' then L_auth_basic
      else if contains str ''auth_user_file '' then L_auth_user_info
      else if contains str ''return '' then L_return
      else L_unknown)"

definition configure_location_context :: "string \<Rightarrow> location_context \<Rightarrow> location_context res" where
  "configure_location_context str l =
     (let start = find_first_of str SLASH (Some 0);
          stop = find_first_of str SP start
      in rbind (substr str start (pos_diff stop start)) (\<lambda>s. Ret (l\<lparr>loc_context := s\<rparr>)))"

definition configure_root :: "string \<Rightarrow> location_context \<Rightarrow> location_context res" where
  "configure_root str l = rbind (parse_string str) (\<lambda>s. Ret (l\<lparr>loc_root := s\<rparr>))"

definition configure_allowed_method :: "string \<Rightarrow> location_context \<Rightarrow> location_context res" where
  "configure_allowed_method str l =
     rbind (parse_vector str) (\<lambda>v. Ret (l\<lparr>loc_allowed_method := v\<rparr>))"

definition configure_index :: "string \<Rightarrow> location_context \<Rightarrow> location_context res" where
  "configure_index str l = rbind (parse_string str) (\<lambda>s. Ret (l\<lparr>loc_index := s\<rparr>))"

definition configure_max_file_size :: "string \<Rightarrow> location_context \<Rightarrow> location_context res" where
  "configure_max_file_size str l =
     rbind (parse_number str) (\<lambda>n. Ret (l\<lparr>loc_max_file_size := n\<rparr>))"

definition configure_auth_basic :: "string \<Rightarrow> location_context \<Rightarrow> location_context res" where
  "configure_auth_basic str l = rbind (parse_string str) (\<lambda>s. Ret (l\<lparr>loc_auth_basic := s\<rparr>))"

definition configure_autoindex :: "string \<Rightarrow> location_context \<Rightarrow> location_context res" where
  "configure_autoindex str l = rbind (parse_string str) (\<lambda>s.
     Ret (if s = ''on'' then l\<lparr>loc_autoindex := True\<rparr> else l))"

definition configure_alias :: "string \<Rightarrow> location_context \<Rightarrow> location_context res" where
  "configure_alias str l = rbind (parse_string str) (\<lambda>s.
     Ret (if s = ''on'' then l\<lparr>loc_alias := True\<rparr> else l))"

definition location_invalid_element :: "string \<Rightarrow> location_context \<Rightarrow> location_context res" where
  "location_invalid_element str l = rbind (parse_invalid str) (\<lambda>_. Ret l)"

definition configure_return :: "string \<Rightarrow> location_context \<Rightarrow> location_context res" where
  "configure_return str l = rbind (parse_number str) (\<lambda>redirect_code.
     if redirect_code < 300 \<or> redirect_code > 310
     then Throw (Runtime_Error ''Wrong redirection code'')
     else let status_code_start = find_first_of str CHR ''3'' (Some 0);
              pos = find_first_of str SP status_code_start
          in rbind (substr str (pos_add pos 1) None) (\<lambda>new_location.
             Ret (l\<lparr>loc_return := map_insert redirect_code new_location (loc_return l)\<rparr>)))"

text \<open>The file's lines go to the end of the list one by one; the static buffer is threaded.\<close>

text \<open>
  A last call of \<^verbatim>\<open>get_next_line\<close> that fails without storing a line leaves the pointer to the line before,
  if there was one; the reader has freed it, and frees it again.
\<close>

definition freed_line :: "int \<Rightarrow> string option \<Rightarrow> bool \<Rightarrow> bool" where
  "freed_line ret line read_before \<longleftrightarrow> ret = -1 \<and> line = None \<and> read_before"

definition configure_auth_user_info ::
  "gnl_env \<Rightarrow> gnl_buf \<Rightarrow> string \<Rightarrow> location_context \<Rightarrow> (location_context \<times> gnl_buf) res" where
  "configure_auth_user_info env buf str l = rbind (parse_string str) (\<lambda>auth_file_path.
     case ge_files env (c_str auth_file_path) of
       None \<Rightarrow> Throw (Invalid_Argument ''Error opening user authorization file'')
     | Some f \<Rightarrow>
         (case line_loop (ge_malloc env) (ge_past env) (f \<noteq> Unreadable) [] buf
             (case f of Unreadable \<Rightarrow> [] | Content s \<Rightarrow> s) of
            (lines, ret, line, buf') \<Rightarrow>
              if freed_line ret line (lines \<noteq> []) then Throw (Undef ''free'')
              else if ret = -1
              then Throw (Runtime_Error ''Error while reading user authorization file'')
              else Ret (l\<lparr>loc_auth_user_info := loc_auth_user_info l @ lines\<rparr>, buf')))"

definition configure_location ::
  "gnl_env \<Rightarrow> gnl_buf \<Rightarrow> string \<Rightarrow> location_context \<Rightarrow> (location_context \<times> gnl_buf) res" where
  "configure_location env buf str l =
     (let plain = (\<lambda>r. rbind r (\<lambda>l. Ret (l, buf)))
      in case identify_location_value str of
           L_root \<Rightarrow> plain (configure_root str l)
         | L_method \<Rightarrow> plain (configure_allowed_method str l)
         | L_autoindex \<Rightarrow> plain (configure_autoindex str l)
         | L_index \<Rightarrow> plain (configure_index str l)
         | L_alias \<Rightarrow> plain (configure_alias str l)
         | L_max_file_size \<Rightarrow> plain (configure_max_file_size str l)
         | L_auth_basic \<Rightarrow> plain (configure_auth_basic str l)
         | L_auth_user_info \<Rightarrow> configure_auth_user_info env buf str l
         | L_return \<Rightarrow> plain (configure_return str l)
         | L_unknown \<Rightarrow> plain (location_invalid_element str l))"

fun configure_location_lines ::
  "gnl_env \<Rightarrow> gnl_buf \<Rightarrow> string list \<Rightarrow> location_context \<Rightarrow> (location_context \<times> gnl_buf) res" where
  "configure_location_lines env buf [] l = Ret (l, buf)"
| "configure_location_lines env buf (str # rest) l =
     rbind (configure_location env buf str l) (\<lambda>(l, buf).
     configure_location_lines env buf rest l)"

text \<open>
  \<open>it\<close> is the block from its first line on, \<open>n\<close> the distance to its end.  The first line
  is read for the location's name even when the distance is 0, and goes through the loop
  as well.
\<close>

definition configure_location_block ::
  "gnl_env \<Rightarrow> gnl_buf \<Rightarrow> string list \<Rightarrow> nat \<Rightarrow> location_context \<Rightarrow>
     (location_context \<times> gnl_buf) res" where
  "configure_location_block env buf it n l =
     (case it of [] \<Rightarrow> Throw (Undef ''past the end'')
      | first # _ \<Rightarrow> rbind (configure_location_context first (clean_location_instance l)) (\<lambda>l.
          configure_location_lines env buf (take n it) l))"

section \<open>Directives\<close>

text \<open>A value is plain when no directive's name occurs in it.\<close>

definition location_keys :: "string list" where
  "location_keys = [''root'', ''allowed_method'', ''autoindex'', ''index'', ''alias'',
     ''max_file_size'', ''auth_basic'', ''auth_user_file'', ''return'']"

definition plain_value :: "string \<Rightarrow> bool" where
  "plain_value v \<longleftrightarrow> (\<forall>k\<in>set location_keys. \<not> contains v k)"

lemma contains_line:
  assumes "set bl \<subseteq> {SP}" "SP \<notin> set pat" "pat \<noteq> []" "\<not> contains v pat"
  shows "contains (bl @ key @ SP # v) pat \<longleftrightarrow> contains key pat"
  using assms by (simp add: contains_blanks contains_sep)

lemma contains_key_blank: "contains (bl @ key @ SP # v) (key @ '' '')"
  unfolding contains_sublist by (metis append_Cons append_assoc append_self_conv2 sublist_appendI)

fun location_key :: "location_value \<Rightarrow> string" where
  "location_key L_root = ''root''"
| "location_key L_method = ''allowed_method''"
| "location_key L_autoindex = ''autoindex''"
| "location_key L_index = ''index''"
| "location_key L_alias = ''alias''"
| "location_key L_max_file_size = ''max_file_size''"
| "location_key L_auth_basic = ''auth_basic''"
| "location_key L_auth_user_info = ''auth_user_file''"
| "location_key L_return = ''return''"
| "location_key L_unknown = ''#''"

lemma identify_location_line:
  assumes "set bl \<subseteq> {SP}" "plain_value v"
  shows "identify_location_value (bl @ location_key k @ SP # v) = k"
proof -
  have line: "contains (bl @ key @ SP # v) pat \<longleftrightarrow> contains key pat"
    if "pat \<in> set location_keys" "SP \<notin> set pat" "pat \<noteq> []" for pat key
    using that assms by (intro contains_line) (auto simp: plain_value_def)
  have blank: "\<not> contains (bl @ key @ SP # v) (pat @ '' '')"
    if "\<not> contains key pat" "pat \<in> set location_keys" "SP \<notin> set pat" "pat \<noteq> []" for pat key
    using line that contains_longer by blast
  have l: "\<And>key. contains (bl @ key @ SP # v) ''root'' \<longleftrightarrow> contains key ''root''"
    "\<And>key. contains (bl @ key @ SP # v) ''allowed_method'' \<longleftrightarrow> contains key ''allowed_method''"
    "\<And>key. contains (bl @ key @ SP # v) ''autoindex'' \<longleftrightarrow> contains key ''autoindex''"
    "\<And>key. contains (bl @ key @ SP # v) ''index'' \<longleftrightarrow> contains key ''index''"
    "\<And>key. contains (bl @ key @ SP # v) ''alias'' \<longleftrightarrow> contains key ''alias''"
    "\<And>key. contains (bl @ key @ SP # v) ''max_file_size'' \<longleftrightarrow> contains key ''max_file_size''"
    by (rule line; simp add: location_keys_def)+
  have n: "\<not> contains (bl @ ''auth_user_file'' @ SP # v) (''auth_basic'' @ '' '')"
    "\<not> contains (bl @ ''return'' @ SP # v) (''auth_basic'' @ '' '')"
    "\<not> contains (bl @ ''#'' @ SP # v) (''auth_basic'' @ '' '')"
    "\<not> contains (bl @ ''return'' @ SP # v) (''auth_user_file'' @ '' '')"
    "\<not> contains (bl @ ''#'' @ SP # v) (''auth_user_file'' @ '' '')"
    "\<not> contains (bl @ ''#'' @ SP # v) (''return'' @ '' '')"
    by (rule blank; simp add: contains_find location_keys_def)+
  have e: "''auth_basic '' = ''auth_basic'' @ '' ''"
    "''auth_user_file '' = ''auth_user_file'' @ '' ''" "''return '' = ''return'' @ '' ''"
    by simp_all
  show ?thesis
    by (cases k; simp only: identify_location_value_def location_key.simps e l n
        contains_key_blank;
        simp add: contains_find)
qed

section \<open>What a directive line does\<close>

lemma key_not_blank: "location_key k \<noteq> [] \<and> SP \<notin> set (location_key k)"
  by (cases k) auto

lemma value_of_location_line:
  "set bl \<subseteq> {SP} \<Longrightarrow> value_of (bl @ location_key k @ SP # v) = v"
  using key_not_blank [of k] by (intro value_of_line) auto

lemma configure_location_line:
  assumes "set bl \<subseteq> {SP}" "plain_value v"
  defines "line \<equiv> (\<lambda>k. bl @ location_key k @ SP # v)"
  shows "configure_location env buf (line L_root) l = Ret (l\<lparr>loc_root := v\<rparr>, buf)"
    and "ws \<noteq> [] \<Longrightarrow> \<forall>w\<in>set ws. SP \<notin> set w \<Longrightarrow> v = join [SP] ws \<Longrightarrow>
      configure_location env buf (line L_method) l = Ret (l\<lparr>loc_allowed_method := ws\<rparr>, buf)"
    and "configure_location env buf (line L_index) l = Ret (l\<lparr>loc_index := v\<rparr>, buf)"
    and "configure_location env buf (line L_max_file_size) l
      = Ret (l\<lparr>loc_max_file_size := ft_atoi (c_str v)\<rparr>, buf)"
    and "configure_location env buf (line L_auth_basic) l = Ret (l\<lparr>loc_auth_basic := v\<rparr>, buf)"
    and "configure_location env buf (line L_autoindex) l
      = Ret (if v = ''on'' then l\<lparr>loc_autoindex := True\<rparr> else l, buf)"
    and "configure_location env buf (line L_alias) l
      = Ret (if v = ''on'' then l\<lparr>loc_alias := True\<rparr> else l, buf)"
  using assms(1,2) split_spaces_join [of ws "[]"]
  by (simp_all add: line_def configure_location_def identify_location_line
      value_of_location_line parse_string_value parse_number_value configure_root_def
      configure_index_def configure_max_file_size_def configure_auth_basic_def
      configure_autoindex_def configure_alias_def configure_allowed_method_def
      parse_vector_value del: location_key.simps)

lemma drop_length_append: "drop (length xs) (xs @ ys) = ys"
  by simp

lemma configure_return_line:
  assumes bl: "set bl \<subseteq> {SP}" and v: "plain_value d" and c: "300 \<le> c" "c \<le> 310"
    and n: "NUL \<notin> set d"
  shows "configure_return (bl @ location_key L_return @ SP # decimal c @ SP # d) l
    = Ret (l\<lparr>loc_return := map_insert c d (loc_return l)\<rparr>)"
proof -
  let ?v = "decimal c @ SP # d" and ?pre = "bl @ location_key L_return @ [SP]"
  have dd: "decimal c = dec_digits (nat c)" using c by (simp add: decimal_def)
  have dv: "digits_value 0 (dec_digits (nat c)) = nat c" by (rule digits_value_dec)
  have "\<not> is_digit SP" by (simp add: is_digit_def schar_def)
  then have num: "ft_atoi ?v = c"
    using ft_atoi_digits [of "dec_digits (nat c)" "SP # d" "[]"] dec_digits_digits [of "nat c"]
      dv c by (simp add: dd wrap32_id int32_def)
  have "NUL \<notin> set ?v" using n decimal_no_NUL by auto
  then have num': "parse_number (bl @ location_key L_return @ SP # ?v) = Ret c"
    using num value_of_location_line [OF bl, of L_return ?v]
    by (simp add: parse_number_value c_str_id del: location_key.simps)
  obtain ds where ds: "decimal c = CHR ''3'' # ds" and sp: "SP \<notin> set ds"
  proof -
    have "nat c div 10 div 10 = 3" "\<not> nat c < 10" "\<not> nat c div 10 < 10" using c by linarith+
    then have "dec_digits (nat c) = CHR ''3'' # [digit_char (int (nat c div 10 mod 10)),
        digit_char (int (nat c mod 10))]"
      using c by (simp add: dec_digits.simps [of "nat c"] dec_digits.simps [of "nat c div 10"]
          dec_digits.simps [of 3] digit_char_lit)
    moreover have "SP \<notin> set (dec_digits (nat c))"
      using dec_digits_digits [of "nat c"] is_digit_not_blank is_blank_def by blast
    ultimately show thesis using that dd by simp
  qed
  have "CHR ''3'' \<notin> set ?pre" using bl by auto
  from find_sep [OF this, of "ds @ SP # d"]
  have f3: "find_first_of (bl @ location_key L_return @ SP # ?v) CHR ''3'' (Some 0)
      = Some (length ?pre)" using ds by simp
  have "find_idx (\<lambda>x. x = SP) (CHR ''3'' # ds @ SP # d) = Some (Suc (length ds))"
    using find_sep [of SP "CHR ''3'' # ds" d] sp by (simp add: find_first_of_0)
  then have fs: "find_first_of (bl @ location_key L_return @ SP # ?v) SP (Some (length ?pre))
      = Some (length ?pre + Suc (length ds))"
    using ds by (simp add: find_first_of_def find_pred_def)
  let ?line = "bl @ location_key L_return @ SP # ?v"
  let ?n = "length ?pre + Suc (length ds) + 1"
  have line: "?line = (?pre @ CHR ''3'' # ds @ [SP]) @ d" using ds by simp
  have n: "?n = length (?pre @ CHR ''3'' # ds @ [SP])" by simp
  have "drop ?n ?line = d" unfolding line n by (rule drop_length_append)
  moreover have "?n \<le> length ?line" unfolding line n length_append by simp
  ultimately have "substr ?line (pos_add (Some (length ?pre + Suc (length ds))) 1) None = Ret d"
    by (simp only: pos_add.simps substr_tail)
  then show ?thesis using num' f3 fs c unfolding configure_return_def Let_def
    by (simp del: location_key.simps substr.simps)
qed

section \<open>Printing a location and reading it back\<close>

definition indent :: string where
  "indent = replicate 8 SP"

definition on_off :: "bool \<Rightarrow> string" where
  "on_off b = (if b then ''on'' else ''off'')"

definition directive :: "location_value \<Rightarrow> string \<Rightarrow> string" where
  "directive k v = indent @ location_key k @ SP # v"

definition location_line :: "string \<Rightarrow> string" where
  "location_line c = indent @ ''location'' @ SP # c @ '' {''"

definition location_lines :: "location_context \<Rightarrow> string list" where
  "location_lines l =
     [location_line (loc_context l),
      directive L_root (loc_root l),
      directive L_method (join [SP] (loc_allowed_method l)),
      directive L_index (loc_index l),
      directive L_autoindex (on_off (loc_autoindex l)),
      directive L_alias (on_off (loc_alias l)),
      directive L_max_file_size (decimal (loc_max_file_size l)),
      directive L_auth_basic (loc_auth_basic l)]
     @ map (\<lambda>(c, d). directive L_return (decimal c @ SP # d)) (loc_return l)"

definition printable :: "location_context \<Rightarrow> bool" where
  "printable l \<longleftrightarrow>
     take 1 (loc_context l) = [SLASH] \<and> SP \<notin> set (loc_context l)
     \<and> plain_value (loc_context l @ '' {'') \<and> plain_value (loc_root l)
     \<and> plain_value (loc_index l) \<and> plain_value (loc_auth_basic l)
     \<and> loc_allowed_method l \<noteq> [] \<and> (\<forall>m\<in>set (loc_allowed_method l). SP \<notin> set m)
     \<and> plain_value (join [SP] (loc_allowed_method l)) \<and> int32 (loc_max_file_size l)
     \<and> loc_auth_user_info l = [] \<and> sorted_map (loc_return l)
     \<and> (\<forall>(c, d)\<in>set (loc_return l). 300 \<le> c \<and> c \<le> 310 \<and> NUL \<notin> set d \<and> plain_value (decimal c @ SP # d))"

lemma indent_blank: "set indent \<subseteq> {SP}"
  by (auto simp: indent_def)

lemma plain_on_off: "plain_value (on_off b)"
  by (cases b) (simp_all add: plain_value_def on_off_def location_keys_def contains_find)

lemma plain_decimal: "plain_value (decimal n)"
proof -
  note decimal_chars [of n]
  moreover have "\<exists>c\<in>set k. \<not> is_digit c \<and> c \<noteq> CHR ''-''" if "k \<in> set location_keys" for k
    using that by (auto simp: location_keys_def is_digit_def schar_def)
  ultimately show ?thesis
    unfolding plain_value_def contains_sublist by (blast dest: set_mono_sublist)
qed

lemma plain_suffix: "plain_value (xs @ ys) \<Longrightarrow> plain_value ys"
  unfolding plain_value_def contains_sublist
  by (meson sublist_append_leftI sublist_order.order_trans)

lemma configure_location_lines_append:
  "configure_location_lines env buf (xs @ ys) l =
     rbind (configure_location_lines env buf xs l) (\<lambda>(l, buf). configure_location_lines env buf ys l)"
  by (induction xs arbitrary: l buf) (simp_all add: rbind_assoc split_def)

lemma map_insert_last: "sorted_map (m @ [(k, v)]) \<Longrightarrow> map_insert k v m = m @ [(k, v)]"
proof (induction m)
  case (Cons x m)
  obtain a b where x: "x = (a, b)" by (cases x)
  with Cons show ?case by (auto simp: sorted_map_def)
qed simp

definition merge_returns :: "(int \<times> string) list \<Rightarrow> (int \<times> string) list \<Rightarrow> (int \<times> string) list" where
  "merge_returns m rs = foldl (\<lambda>m (c, d). map_insert c d m) m rs"

lemma merge_returns_Nil: "sorted_map rs \<Longrightarrow> merge_returns [] rs = rs"
proof (induction rs rule: rev_induct)
  case (snoc r rs)
  then have "sorted_map rs" by (simp add: sorted_map_def sorted_wrt_append)
  with snoc show ?case by (cases r) (simp add: merge_returns_def map_insert_last)
qed (simp add: merge_returns_def)

lemma configure_return_lines:
  assumes "\<forall>(c, d)\<in>set rs. 300 \<le> c \<and> c \<le> 310 \<and> NUL \<notin> set d \<and> plain_value (decimal c @ SP # d)"
  shows "configure_location_lines env buf (map (\<lambda>(c, d). directive L_return (decimal c @ SP # d)) rs) l
    = Ret (l\<lparr>loc_return := merge_returns (loc_return l) rs\<rparr>, buf)"
  using assms
proof (induction rs arbitrary: l)
  case (Cons r rs)
  obtain c d where r: "r = (c, d)" by (cases r)
  from Cons.prems r have p: "plain_value (decimal c @ SP # d)" "300 \<le> c" "c \<le> 310" "NUL \<notin> set d"
    by auto
  from plain_suffix [of "decimal c @ [SP]"] p(1) have "plain_value d" by simp
  then have "configure_return (directive L_return (decimal c @ SP # d)) l
      = Ret (l\<lparr>loc_return := map_insert c d (loc_return l)\<rparr>)"
    unfolding directive_def using p indent_blank by (intro configure_return_line) auto
  then have "configure_location env buf (directive L_return (decimal c @ SP # d)) l
      = Ret (l\<lparr>loc_return := map_insert c d (loc_return l)\<rparr>, buf)"
    using identify_location_line [OF indent_blank p(1), of L_return]
    by (simp add: configure_location_def directive_def del: location_key.simps)
  then show ?case using Cons r by (simp add: merge_returns_def)
qed (simp add: merge_returns_def)

lemma identify_plain: "plain_value s \<Longrightarrow> identify_location_value s = L_unknown"
  using contains_longer [of s "''auth_basic''" "'' ''"]
    contains_longer [of s "''auth_user_file''" "'' ''"] contains_longer [of s "''return''" "'' ''"]
  by (auto simp: plain_value_def location_keys_def identify_location_value_def)

lemma plain_location_line:
  assumes "plain_value v"
  shows "plain_value (indent @ ''location'' @ SP # v)"
  unfolding plain_value_def
proof
  fix k assume k: "k \<in> set location_keys"
  then have "SP \<notin> set k" "k \<noteq> []" "\<not> contains ''location'' k"
    by (auto simp: location_keys_def contains_find)
  with k assms show "\<not> contains (indent @ ''location'' @ SP # v) k"
    unfolding plain_value_def by (subst contains_line [OF indent_blank]) auto
qed

lemma configure_context_line:
  assumes "c = SLASH # c'" "SP \<notin> set c"
  shows "configure_location_context (location_line c) l
    = Ret (l\<lparr>loc_context := c\<rparr>)"
proof -
  let ?pre = "indent @ ''location '' :: string" and ?s = "indent @ ''location'' @ SP # c @ '' {''"
  have s: "?s = ?pre @ SLASH # c' @ SP # ''{''" using assms by simp
  have "SLASH \<notin> set ?pre" by (simp add: indent_def)
  from find_sep [OF this] have f: "find_first_of ?s SLASH (Some 0) = Some (length ?pre)"
    unfolding s by simp
  have "drop (length ?pre) ?s = c @ SP # ''{''" unfolding s using assms(1) by simp
  moreover from this have "find_first_of ?s SP (Some (length ?pre)) = Some (length ?pre + length c)"
    using find_sep [OF assms(2), of "''{''"] by (simp add: find_first_of_def find_pred_def)
  moreover have "length ?pre \<le> length ?s" by simp
  ultimately show ?thesis using f
    by (simp add: configure_location_context_def location_line_def del: length_append)
qed

lemma directive_lines:
  assumes "plain_value v"
  shows "configure_location env buf (directive L_root v) l = Ret (l\<lparr>loc_root := v\<rparr>, buf)"
    and "ws \<noteq> [] \<Longrightarrow> \<forall>w\<in>set ws. SP \<notin> set w \<Longrightarrow> v = join [SP] ws \<Longrightarrow>
      configure_location env buf (directive L_method v) l = Ret (l\<lparr>loc_allowed_method := ws\<rparr>, buf)"
    and "configure_location env buf (directive L_index v) l = Ret (l\<lparr>loc_index := v\<rparr>, buf)"
    and "configure_location env buf (directive L_auth_basic v) l
      = Ret (l\<lparr>loc_auth_basic := v\<rparr>, buf)"
  using configure_location_line [OF indent_blank assms] by (simp_all add: directive_def)

lemma directive_number:
  "int32 n \<Longrightarrow> configure_location env buf (directive L_max_file_size (decimal n)) l
    = Ret (l\<lparr>loc_max_file_size := n\<rparr>, buf)"
  using configure_location_line(4) [OF indent_blank plain_decimal] decimal_no_NUL
  by (simp add: directive_def c_str_id ft_atoi_decimal)

lemma directive_flags:
  "configure_location env buf (directive L_autoindex (on_off b)) l
    = Ret (if b then l\<lparr>loc_autoindex := True\<rparr> else l, buf)"
  "configure_location env buf (directive L_alias (on_off b)) l
    = Ret (if b then l\<lparr>loc_alias := True\<rparr> else l, buf)"
  using configure_location_line(6,7) [OF indent_blank plain_on_off]
  by (simp_all add: directive_def on_off_def)

lemma context_line_ignored:
  "plain_value (c @ '' {'') \<Longrightarrow> configure_location env buf (location_line c) l = Ret (l, buf)"
  by (simp only: location_line_def configure_location_def identify_plain [OF plain_location_line]
      location_value.case location_invalid_element_def parse_invalid_def Let_def rbind.simps if_cancel)

lemma configure_location_block_lines:
  assumes "printable l"
  shows "configure_location_block env buf (location_lines l @ rest) (length (location_lines l)) l0
    = Ret (l\<lparr>loc_return := merge_returns (loc_return l0) (loc_return l)\<rparr>, buf)"
proof -
  from assms obtain c' where c: "loc_context l = SLASH # c'"
    by (cases "loc_context l") (auto simp: printable_def)
  from assms have r: "\<forall>(c, d)\<in>set (loc_return l).
      300 \<le> c \<and> c \<le> 310 \<and> NUL \<notin> set d \<and> plain_value (decimal c @ SP # d)"
    and i: "loc_auth_user_info l = []" "SP \<notin> set (loc_context l)"
    and p: "plain_value (loc_context l @ '' {'')" "plain_value (loc_root l)"
      "plain_value (loc_index l)" "plain_value (loc_auth_basic l)"
      "plain_value (join [SP] (loc_allowed_method l))"
    and m: "loc_allowed_method l \<noteq> []" "\<forall>m\<in>set (loc_allowed_method l). SP \<notin> set m"
    and n: "int32 (loc_max_file_size l)"
    by (auto simp: printable_def)
  note steps = context_line_ignored [OF p(1)] directive_lines(1) [OF p(2)]
    directive_lines(2) [OF p(5) m refl] directive_lines(3) [OF p(3)] directive_lines(4) [OF p(4)]
    directive_flags directive_number [OF n] configure_return_lines [OF r]
  show ?thesis
    unfolding configure_location_block_def
    by (simp add: location_lines_def configure_context_line [OF c i(2)]
        configure_location_lines_append steps i(1) clean_location_instance_def del: indent_def)
qed

section \<open>The invariant of a configured location\<close>

definition location_ok :: "location_context \<Rightarrow> bool" where
  "location_ok l \<longleftrightarrow> int32 (loc_max_file_size l) \<and> sorted_map (loc_return l)
     \<and> (\<forall>c\<in>fst ` set (loc_return l). 300 \<le> c \<and> c \<le> 310)"

lemma int32_0 [simp]: "int32 0" by (simp add: int32_def)

lemma location_ok_init: "location_ok location_context_init"
  by (simp add: location_ok_def location_context_init_def)

lemma location_ok_clean: "location_ok l \<Longrightarrow> location_ok (clean_location_instance l)"
  by (simp add: location_ok_def clean_location_instance_def)

lemma location_ok_return:
  "location_ok l \<Longrightarrow> configure_return str l = Ret l' \<Longrightarrow> location_ok l'"
  by (fastforce simp: configure_return_def location_ok_def rbind_eq_Inr Let_def sorted_map_insert
      simp del: substr.simps split: if_splits dest!: subsetD [OF set_map_insert])

lemma configure_auth_user_info_other:
  assumes "configure_auth_user_info env buf str l = Ret (l', buf')"
  shows "\<exists>ls. l' = l\<lparr>loc_auth_user_info := ls\<rparr>"
  using assms
  by (auto simp: configure_auth_user_info_def rbind_eq_Inr case_prod_beta
      split: option.splits if_splits)

lemma configure_location_ok:
  assumes "location_ok l" "configure_location env buf str l = Ret (l', buf')"
  shows "location_ok l'"
proof (cases "identify_location_value str")
  case L_return
  with assms location_ok_return show ?thesis
    by (auto simp: configure_location_def rbind_eq_Inr)
next
  case L_auth_user_info
  with assms configure_auth_user_info_other [of env buf str l l' buf'] show ?thesis
    by (auto simp: configure_location_def location_ok_def)
next
  case L_max_file_size
  with assms show ?thesis
    by (auto simp: configure_location_def rbind_eq_Inr configure_max_file_size_def
        location_ok_def parse_number_def ft_atoi_int32)
qed (use assms in \<open>auto simp: configure_location_def rbind_eq_Inr location_ok_def
    configure_root_def configure_allowed_method_def configure_index_def configure_auth_basic_def
    configure_autoindex_def configure_alias_def location_invalid_element_def
    split: if_splits\<close>)

lemma configure_location_lines_ok:
  "location_ok l \<Longrightarrow> configure_location_lines env buf ls l = Ret (l', buf') \<Longrightarrow> location_ok l'"
  by (induction ls arbitrary: l buf)
    (auto simp: rbind_eq_Inr dest: configure_location_ok split: prod.splits)

lemma configure_location_block_ok:
  assumes "location_ok l" "configure_location_block env buf it n l = Ret (l', buf')"
  shows "location_ok l'"
proof -
  from assms(2) obtain s where "configure_location_lines env buf (take n it)
      ((clean_location_instance l)\<lparr>loc_context := s\<rparr>) = Ret (l', buf')"
    by (auto simp: configure_location_block_def configure_location_context_def rbind_eq_Inr
        Let_def simp del: substr.simps split: list.splits)
  moreover have "location_ok ((clean_location_instance l)\<lparr>loc_context := s\<rparr>)"
    using location_ok_clean [OF assms(1)] by (simp add: location_ok_def)
  ultimately show ?thesis by (rule configure_location_lines_ok [rotated])
qed

section \<open>Properties\<close>

text \<open>
  C33. A location block is a parser of its own printed form: for a location whose values
  name no directive, printing it in the syntax of the configuration file and configuring a
  fresh location from those lines gives the location back, whatever follows the block.
\<close>

theorem location_block_roundtrip:
  assumes "printable l" "loc_return l0 = []"
  shows "configure_location_block env buf (location_lines l @ rest) (length (location_lines l)) l0
    = Ret (l, buf)"
  using assms by (simp add: configure_location_block_lines merge_returns_Nil printable_def)

theorem location_block_roundtrip_witness:
  "configure_location_block \<lparr>ge_files = (\<lambda>_. None), ge_malloc = (\<lambda>_. True), ge_past = NUL\<rparr> None
     (location_lines \<lparr>loc_context = ''/old'', loc_root = ''/www'', loc_index = ''a.html'',
        loc_allowed_method = [''GET'', ''POST''], loc_max_file_size = 1000, loc_autoindex = True,
        loc_alias = False, loc_auth_basic = ''off'', loc_auth_user_info = [],
        loc_return = [(301, ''/new'')]\<rparr> @ [''}'']) 9 location_context_init
   = Ret (\<lparr>loc_context = ''/old'', loc_root = ''/www'', loc_index = ''a.html'',
        loc_allowed_method = [''GET'', ''POST''], loc_max_file_size = 1000, loc_autoindex = True,
        loc_alias = False, loc_auth_basic = ''off'', loc_auth_user_info = [],
        loc_return = [(301, ''/new'')]\<rparr>, None)"
proof -
  let ?l = "\<lparr>loc_context = ''/old'', loc_root = ''/www'', loc_index = ''a.html'',
    loc_allowed_method = [''GET'', ''POST''], loc_max_file_size = 1000, loc_autoindex = True,
    loc_alias = False, loc_auth_basic = ''off'', loc_auth_user_info = [],
    loc_return = [(301, ''/new'')]\<rparr>"
  have "decimal 301 = ''301''"
    by (simp add: decimal_def dec_digits.simps [of 301] dec_digits.simps [of 30]
        dec_digits.simps [of 3] digit_char_lit)
  then have "printable ?l"
    by (simp add: printable_def plain_value_def location_keys_def contains_find int32_def
        sorted_map_def)
  moreover have "length (location_lines ?l) = 9" by (simp add: location_lines_def)
  ultimately show ?thesis
    using location_block_roundtrip [of ?l location_context_init
        "\<lparr>ge_files = (\<lambda>_. None), ge_malloc = (\<lambda>_. True), ge_past = NUL\<rparr>" None "[''}'']"]
    by (simp add: location_context_init_def)
qed

text \<open>
  Redirections leak from one location block to the next: a block without a
  \<^verbatim>\<open>return\<close> directive, configured by the same object, ends up with every redirection of
  the blocks before it, since the reset does not clear the map.
\<close>

theorem location_return_leaks:
  assumes "printable l" "loc_return l = []"
  shows "configure_location_block env buf (location_lines l @ rest) (length (location_lines l)) l0
    = Ret (l\<lparr>loc_return := loc_return l0\<rparr>, buf)"
  using assms by (simp add: configure_location_block_lines merge_returns_def)

theorem location_return_leaks_witness:
  "\<exists>l. loc_return l = [] \<and>
     configure_location_block \<lparr>ge_files = (\<lambda>_. None), ge_malloc = (\<lambda>_. True), ge_past = NUL\<rparr> None
       (location_lines l) 8 (location_context_init\<lparr>loc_return := [(301, ''/new'')]\<rparr>)
     = Ret (l\<lparr>loc_return := [(301, ''/new'')]\<rparr>, None)"
proof -
  let ?l = "location_context_init\<lparr>loc_context := ''/put'', loc_allowed_method := [''PUT'']\<rparr>"
  have "printable ?l" by (simp add: printable_def plain_value_def location_keys_def contains_find
        int32_def location_context_init_def)
  moreover have "length (location_lines ?l) = 8"
    by (simp add: location_lines_def location_context_init_def)
  ultimately show ?thesis
    using location_return_leaks [of ?l "\<lparr>ge_files = (\<lambda>_. None), ge_malloc = (\<lambda>_. True),
        ge_past = NUL\<rparr>" None "[]" "location_context_init\<lparr>loc_return := [(301, ''/new'')]\<rparr>"]
    by (intro exI [of _ ?l]) (simp add: location_context_init_def)
qed

end
