(* ===== verification/FileLocation.thy ===== *)
theory FileLocation
  imports LocationContext
begin

text \<open>
  \<^verbatim>\<open>webserver/helper/verify_file_location_functions.cpp\<close>: cleaning a path, finding the
  file that answers for it, and cutting off its first directory.  \<^verbatim>\<open>stat\<close> is a parameter:
  the mode word of a path, or nothing when the call fails.
\<close>

type_synonym stat_fn = "string \<Rightarrow> 32 word option"

unbundle bit_operations_syntax

section \<open>Definitions\<close>

abbreviation "S_IFDIR \<equiv> 0x4000 :: 32 word"
abbreviation "S_IFREG \<equiv> 0x8000 :: 32 word"
abbreviation "S_IRUSR \<equiv> 0x100 :: 32 word"

definition mode_has :: "32 word \<Rightarrow> 32 word \<Rightarrow> bool" where
  "mode_has m b \<longleftrightarrow> m AND b \<noteq> 0"

text \<open>The inner loop of the code runs over the slashes \<open>dropWhile\<close> removes.\<close>

function remove_duplicate_forward_slashes :: "string \<Rightarrow> string" where
  "remove_duplicate_forward_slashes [] = []"
| "remove_duplicate_forward_slashes (c # cs) =
     c # remove_duplicate_forward_slashes (if c = SLASH then dropWhile (\<lambda>x. x = SLASH) cs else cs)"
  by pat_completeness auto
termination
  by (relation "measure length") (auto simp: less_Suc_eq_le length_dropWhile_le)

definition get_file :: "stat_fn \<Rightarrow> location_context \<Rightarrow> string \<Rightarrow> string" where
  "get_file stat location_block location =
     (let location = remove_duplicate_forward_slashes location in
      case stat (c_str location) of
        None \<Rightarrow> ''not found''
      | Some mode \<Rightarrow>
          if mode_has mode S_IFDIR
          then (if loc_index location_block = [] then ''not found''
                else case stat (c_str (location @ loc_index location_block)) of
                       None \<Rightarrow> if loc_autoindex location_block then location @ ''/index.php''
                               else ''not found''
                     | Some _ \<Rightarrow> location @ loc_index location_block)
          else location)"

definition skip_first_directory :: "string \<Rightarrow> string res" where
  "skip_first_directory uri_location =
     (let start = int_of_pos (find_first_of uri_location SLASH (Some 1))
      in if start = -1 then Ret [] else substr uri_location (pos_of_int start) None)"

definition get_first_directory :: "string \<Rightarrow> string res" where
  "get_first_directory uri_location =
     (let stop = int_of_pos (find_first_of uri_location SLASH (Some 1))
      in if stop = -1 then Ret uri_location
         else substr uri_location (Some 0) (pos_of_int stop))"

section \<open>Paths without doubled slashes\<close>

text \<open>The non-empty components of a path, in order: what the file system looks at.\<close>

fun path_components :: "string \<Rightarrow> string \<Rightarrow> string list" where
  "path_components w [] = (if w = [] then [] else [w])"
| "path_components w (c # cs) =
     (if c = SLASH then (if w = [] then [] else [w]) @ path_components [] cs
      else path_components (w @ [c]) cs)"

definition single_slashes :: "string \<Rightarrow> bool" where
  "single_slashes s \<longleftrightarrow> \<not> contains s [SLASH, SLASH]"

lemma single_slashes_Nil [simp]: "single_slashes []"
  by (simp add: single_slashes_def contains_find)

lemma single_slashes_Cons:
  "single_slashes (c # s) \<longleftrightarrow> \<not> (c = SLASH \<and> take 1 s = [SLASH]) \<and> single_slashes s"
  by (cases s) (auto simp: single_slashes_def contains_find)

lemma hd_remove_duplicate:
  "take (Suc 0) (remove_duplicate_forward_slashes s) = take (Suc 0) s"
  by (cases s) simp_all

lemma take_1_dropWhile: "take 1 (dropWhile (\<lambda>x. x = c) s) \<noteq> [c]"
  by (induction s) auto

lemma single_slashes_remove: "single_slashes (remove_duplicate_forward_slashes s)"
proof (induction s rule: remove_duplicate_forward_slashes.induct)
  case (2 c cs)
  then show ?case using take_1_dropWhile [of SLASH cs]
    by (auto simp: single_slashes_Cons hd_remove_duplicate)
qed simp

lemma remove_single_slashes: "single_slashes s \<Longrightarrow> remove_duplicate_forward_slashes s = s"
proof (induction s)
  case (Cons c s)
  moreover from Cons.prems have "dropWhile (\<lambda>x. x = SLASH) s = s" if "c = SLASH"
    using that by (cases s) (auto simp: single_slashes_Cons)
  ultimately show ?case by (auto simp: single_slashes_Cons)
qed simp

interpretation slashes: normaliser remove_duplicate_forward_slashes single_slashes
  by unfold_locales (simp_all add: single_slashes_remove remove_single_slashes)

lemma path_components_slashes:
  "path_components [] (dropWhile (\<lambda>x. x = SLASH) s) = path_components [] s"
  by (induction s) auto

lemma path_components_remove:
  "path_components w (remove_duplicate_forward_slashes s) = path_components w s"
proof (induction s arbitrary: w rule: remove_duplicate_forward_slashes.induct)
  case (2 c cs)
  then show ?case by (auto simp: path_components_slashes)
qed simp

lemma set_remove: "set (remove_duplicate_forward_slashes s) \<subseteq> set s"
proof (induction s rule: remove_duplicate_forward_slashes.induct)
  case (2 c cs)
  have "set (dropWhile (\<lambda>x. x = SLASH) cs) \<subseteq> set cs" by (auto dest: set_dropWhileD)
  with 2 show ?case by (auto split: if_splits)
qed simp

lemma NUL_remove: "NUL \<notin> set s \<Longrightarrow> NUL \<notin> set (remove_duplicate_forward_slashes s)"
  using set_remove by blast

section \<open>Properties\<close>

text \<open>
  Cleaning a path never leaves two slashes in a row, keeps its components and its
  first character, and is idempotent.
\<close>

theorem remove_duplicate_forward_slashes_clean:
  "\<not> contains (remove_duplicate_forward_slashes s) [SLASH, SLASH]
   \<and> path_components [] (remove_duplicate_forward_slashes s) = path_components [] s
   \<and> take 1 (remove_duplicate_forward_slashes s) = take 1 s
   \<and> remove_duplicate_forward_slashes (remove_duplicate_forward_slashes s)
      = remove_duplicate_forward_slashes s"
  using slashes.norm_idem [of s] slashes.norm_clean [of s]
  by (simp add: path_components_remove hd_remove_duplicate single_slashes_def)

text \<open>
  The first directory and the rest of a path are a partition of it, and the first
  directory has no slash after its first character.
\<close>

theorem first_directory_partition:
  "\<exists>d r. get_first_directory s = Ret d \<and> skip_first_directory s = Ret r \<and> s = d @ r
     \<and> SLASH \<notin> set (drop 1 d) \<and> (r = [] \<or> take 1 r = [SLASH])"
proof (cases "find_first_of s SLASH (Some 1)")
  case None
  then have "SLASH \<notin> set (drop 1 s)"
    by (auto simp: find_first_of_def find_pred_def find_idx_None_iff)
  with None show ?thesis by (simp add: get_first_directory_def skip_first_directory_def)
next
  case (Some p)
  then obtain k where k: "find_idx (\<lambda>x. x = SLASH) (drop 1 s) = Some k" and p: "p = k + 1"
    by (auto simp: find_first_of_def find_pred_def)
  from find_idx_decomp [OF k] obtain xs ys where
    d: "drop 1 s = xs @ SLASH # ys" "SLASH \<notin> set xs" "length xs = k" by metis
  then obtain a where s: "s = a # xs @ SLASH # ys" by (cases s) auto
  then have "SLASH \<notin> set (drop 1 (take p s))" "take 1 (drop p s) = [SLASH]" "p \<le> length s"
    using d(2,3) by (simp_all add: p)
  with Some show ?thesis
    by (simp add: get_first_directory_def skip_first_directory_def pos_of_int_def)
qed

text \<open>
  What \<open>get_file\<close> returns lies below the path it was asked for, and it exists on the
  file system unless the path is a directory with \<^verbatim>\<open>autoindex\<close>, where \<^verbatim>\<open>index.php\<close> is
  named without a look.
\<close>

theorem get_file_exists:
  assumes "get_file stat l loc = f" "f \<noteq> ''not found''"
    and "NUL \<notin> set loc" "NUL \<notin> set (loc_index l)"
  shows "prefix (remove_duplicate_forward_slashes loc) f
     \<and> stat (remove_duplicate_forward_slashes loc) \<noteq> None
     \<and> (stat f \<noteq> None \<or> loc_autoindex l \<and> f = remove_duplicate_forward_slashes loc @ ''/index.php'')"
proof -
  have "c_str (remove_duplicate_forward_slashes loc) = remove_duplicate_forward_slashes loc"
    "c_str (remove_duplicate_forward_slashes loc @ loc_index l)
      = remove_duplicate_forward_slashes loc @ loc_index l"
    using assms(3,4) NUL_remove by (simp_all add: c_str_id)
  with assms(1,2) show ?thesis
    by (auto simp: get_file_def Let_def split: option.splits if_splits)
qed

theorem get_file_exists_witness:
  "\<exists>stat l. get_file stat l ''/www//a'' = ''/www/a/index.php''
     \<and> prefix (remove_duplicate_forward_slashes ''/www//a'') ''/www/a/index.php''"
proof -
  let ?stat = "\<lambda>p. if p = ''/www/a'' then Some 0x41ed else None"
  let ?l = "location_context_init\<lparr>loc_index := ''x'', loc_autoindex := True\<rparr>"
  have f: "get_file ?stat ?l ''/www//a'' = ''/www/a/index.php''"
    by (simp add: get_file_def location_context_init_def mode_has_def c_str_def)
  have "NUL \<notin> set (loc_index ?l)" by simp
  with get_file_exists [OF f] f show ?thesis by auto
qed

end
