(* ===== verification/RequestBuf.thy ===== *)
theory RequestBuf
  imports LibFunctions
begin

text \<open>
  \<^verbatim>\<open>webserver/server/request_buf.cpp/.hpp\<close>: the buffer of one client's request, filled as
  the bytes arrive, and the test that says it is complete.  The body is the list of the
  fragments received after the headers.  \<open>receive\<close> is what
  \<^verbatim>\<open>server::update_request_buffer\<close> does to the buffer of one descriptor.
\<close>

section \<open>State and operations\<close>

record request_buf =
  rb_headers :: string
  rb_body :: "string list"
  rb_body_size :: nat

datatype helper_values = valid | invalid

definition request_buf_init :: request_buf where
  "request_buf_init = \<lparr>rb_headers = [], rb_body = [], rb_body_size = 0\<rparr>"

definition add_body_data :: "string \<Rightarrow> request_buf \<Rightarrow> request_buf" where
  "add_body_data request_data r = r\<lparr>rb_body := rb_body r @ [request_data],
     rb_body_size := rb_body_size r + length request_data\<rparr>"

definition add_header_data :: "string \<Rightarrow> request_buf \<Rightarrow> request_buf res" where
  "add_header_data request_data r =
     (let r = r\<lparr>rb_headers := rb_headers r @ request_data\<rparr> in
      case find_sub (rb_headers r) CRLF2 (Some 0) of
        None \<Rightarrow> Ret r
      | Some pos \<Rightarrow>
          if pos + 4 = length (rb_headers r) then Ret r
          else rbind (substr (rb_headers r) (Some (pos + 4)) None) (\<lambda>rest.
               let r = add_body_data rest r
               in rbind (substr (rb_headers r) (Some 0) (Some (pos + 4))) (\<lambda>h.
                  Ret (r\<lparr>rb_headers := h\<rparr>))))"

definition headers_received :: "request_buf \<Rightarrow> bool" where
  "headers_received r \<longleftrightarrow> contains (rb_headers r) CRLF2"

text \<open>
  The scan from the end of the body.  \<open>scan_string\<close> is the inner loop over one fragment,
  last character first; it gives a verdict or the two counters.
\<close>

fun scan_string :: "nat \<times> nat \<Rightarrow> string \<Rightarrow> helper_values + nat \<times> nat" where
  "scan_string (end_of_line, zero) [] = Inr (end_of_line, zero)"
| "scan_string (end_of_line, zero) (c # cs) =
     (if c = CR \<or> c = LF \<or> c = CHR ''0''
      then let end_of_line = (if c = CR \<or> c = LF then end_of_line + 1 else end_of_line);
               zero = (if c = CHR ''0'' then zero + 1 else zero)
           in if zero = 1 \<and> end_of_line = 4 then Inl valid
              else scan_string (end_of_line, zero) cs
      else Inl invalid)"

fun scan_body :: "nat \<times> nat \<Rightarrow> string list \<Rightarrow> helper_values" where
  "scan_body counts [] = invalid"
| "scan_body counts (str # rest) =
     (case scan_string counts (rev str) of
        Inl verdict \<Rightarrow> verdict | Inr counts \<Rightarrow> scan_body counts rest)"

text \<open>
  A negative length becomes a huge \<^verbatim>\<open>size_t\<close>.  Skipping 16 characters from
  \<^verbatim>\<open>Content-Length:\<close> may step over the terminator of the header string.
\<close>

definition validate_request :: "request_buf \<Rightarrow> helper_values res" where
  "validate_request r =
     (case find_sub (rb_headers r) ''Content-Length:'' (Some 0) of
        Some pos \<Rightarrow>
          if length (rb_headers r) < pos + 16 then Throw (Undef ''past the header string'')
          else let content_length =
                 nat (ft_atoi (c_str (drop (pos + 16) (rb_headers r))) mod 18446744073709551616)
               in Ret (if content_length = rb_body_size r then valid else invalid)
      | None \<Rightarrow>
          if contains (rb_headers r) ''chunked''
          then Ret (scan_body (0, 0) (rev (rb_body r)))
          else Ret valid)"

definition receive :: "string \<Rightarrow> request_buf \<Rightarrow> (helper_values \<times> request_buf) res" where
  "receive request_data r =
     rbind (if headers_received r then Ret (add_body_data request_data r)
            else add_header_data request_data r) (\<lambda>r.
     if headers_received r then rbind (validate_request r) (\<lambda>v. Ret (v, r))
     else Ret (invalid, r))"

section \<open>The state after any fragmentation\<close>

fun store :: "request_buf \<Rightarrow> string list \<Rightarrow> request_buf res" where
  "store r [] = Ret r"
| "store r (d # ds) = rbind (if headers_received r then Ret (add_body_data d r)
     else add_header_data d r) (\<lambda>r. store r ds)"

text \<open>What a buffer should hold for the bytes received so far.\<close>

definition header_end :: "string \<Rightarrow> nat" where
  "header_end s = (case find_sub_idx CRLF2 s of None \<Rightarrow> length s | Some p \<Rightarrow> p + 4)"

definition holds :: "string \<Rightarrow> request_buf \<Rightarrow> bool" where
  "holds s r \<longleftrightarrow> rb_headers r = take (header_end s) s
     \<and> concat (rb_body r) = drop (header_end s) s
     \<and> rb_body_size r = length (concat (rb_body r))"

lemma header_end_le: "header_end s \<le> length s"
proof (cases "find_sub_idx CRLF2 s")
  case (Some p)
  then have "prefix CRLF2 (drop p s)" "p \<le> length s" by (auto dest: find_sub_idx_SomeD)
  then have "4 \<le> length (drop p s)" by (auto dest: prefix_length_le)
  with Some show ?thesis by (simp add: header_end_def)
qed (simp add: header_end_def)

lemma find_in_header:
  assumes "find_sub_idx CRLF2 s = Some p"
  shows "find_sub_idx CRLF2 (take (p + 4) s) = Some p"
    and "find_sub_idx CRLF2 (take (p + 4) s @ t) = Some p"
proof -
  show "find_sub_idx CRLF2 (take (p + 4) s) = Some p"
    using find_sub_idx_take [OF assms] by (simp add: numeral_eq_Suc)
  then show "find_sub_idx CRLF2 (take (p + 4) s @ t) = Some p"
    by (rule find_sub_idx_append_left)
qed

lemma header_end_append:
  assumes "find_sub_idx CRLF2 s = Some p"
  shows "header_end (s @ t) = header_end s"
  using assms find_sub_idx_append_left [OF assms, of t] by (simp add: header_end_def)

lemma headers_received_holds:
  assumes "holds s r"
  shows "headers_received r \<longleftrightarrow> find_sub_idx CRLF2 s \<noteq> None"
proof (cases "find_sub_idx CRLF2 s")
  case None
  with assms show ?thesis by (simp add: holds_def headers_received_def contains_find header_end_def)
next
  case (Some p)
  with assms find_in_header(1) [OF Some] show ?thesis
    by (simp add: holds_def headers_received_def contains_find header_end_def)
qed

lemma holds_add_body:
  assumes "holds s r" "headers_received r"
  shows "holds (s @ d) (add_body_data d r)"
proof -
  from assms obtain p where p: "find_sub_idx CRLF2 s = Some p"
    using headers_received_holds by blast
  from assms(1) header_end_le [of s] header_end_append [OF p, of d] show ?thesis
    by (simp add: holds_def add_body_data_def)
qed

lemma holds_add_header:
  assumes "holds s r" "\<not> headers_received r"
  shows "\<exists>r'. add_header_data d r = Ret r' \<and> holds (s @ d) r'"
proof -
  from assms have n: "find_sub_idx CRLF2 s = None" using headers_received_holds by blast
  with assms have h: "rb_headers r = s" "concat (rb_body r) = []" "rb_body_size r = 0"
    by (simp_all add: holds_def header_end_def)
  show ?thesis
  proof (cases "find_sub_idx CRLF2 (s @ d)")
    case None
    with h show ?thesis
      by (simp add: add_header_data_def find_sub_0 holds_def header_end_def)
  next
    case (Some p)
    from header_end_le [of "s @ d"] Some have "p + 4 \<le> length (s @ d)" by (simp add: header_end_def)
    moreover define n where "n = length (concat (rb_body r))"
    moreover from h(2) have "n = 0" unfolding n_def by (simp only: list.size)
    ultimately show ?thesis using Some h n_def
      by (auto simp: add_header_data_def find_sub_0 holds_def header_end_def add_body_data_def
          Let_def simp del: concat_eq_Nil_conv)
  qed
qed

lemma store_holds:
  "holds s r \<Longrightarrow> \<exists>r'. store r ds = Ret r' \<and> holds (s @ concat ds) r'"
proof (induction ds arbitrary: s r)
  case (Cons d ds)
  show ?case
  proof (cases "headers_received r")
    case True
    with Cons.IH [OF holds_add_body [OF Cons.prems True, of d]] show ?thesis by simp
  next
    case False
    from holds_add_header [OF Cons.prems False, of d] obtain r'
      where "add_header_data d r = Ret r'" "holds (s @ d) r'" by blast
    with False Cons.IH [of "s @ d" r'] show ?thesis by simp
  qed
qed simp

lemma holds_init: "holds [] request_buf_init"
  by (simp add: holds_def request_buf_init_def)

section \<open>The verdict\<close>

lemma scan_string_Nil [simp]: "scan_string k [] = Inr k"
  by (cases k) simp

lemma scan_string_append:
  "scan_string k (xs @ ys) = (case scan_string k xs of Inl v \<Rightarrow> Inl v | Inr k' \<Rightarrow> scan_string k' ys)"
  by (induction k xs rule: scan_string.induct) (auto simp: Let_def)

lemma scan_body_concat:
  "scan_body k (rev bs) = (case scan_string k (rev (concat bs)) of Inl v \<Rightarrow> v | Inr _ \<Rightarrow> invalid)"
proof (induction bs arbitrary: k rule: rev_induct)
  case (snoc b bs)
  then show ?case by (simp add: scan_string_append split: sum.splits)
qed simp

text \<open>The verdict reads the body only through its bytes.\<close>

lemma validate_request_body:
  assumes "rb_headers r = rb_headers r'" "concat (rb_body r) = concat (rb_body r')"
    "rb_body_size r = rb_body_size r'"
  shows "validate_request r = validate_request r'"
  unfolding validate_request_def scan_body_concat assms ..

definition line_end :: "char \<Rightarrow> bool" where
  "line_end c \<longleftrightarrow> c = CR \<or> c = LF"

text \<open>Five characters, four of them line ends and one a zero.\<close>

definition last_chunk :: "string \<Rightarrow> bool" where
  "last_chunk s \<longleftrightarrow> length s = 5 \<and> length (filter line_end s) = 4
     \<and> length (filter (\<lambda>c. c = CHR ''0'') s) = 1"

definition eols :: "string \<Rightarrow> nat" where
  "eols s = length (filter line_end s)"

definition zeros :: "string \<Rightarrow> nat" where
  "zeros s = length (filter (\<lambda>c. c = CHR ''0'') s)"

lemma counts_simps [simp]:
  "eols [] = 0" "eols (c # s) = (if line_end c then Suc (eols s) else eols s)"
  "zeros [] = 0" "zeros (c # s) = (if c = CHR ''0'' then Suc (zeros s) else zeros s)"
  by (simp_all add: eols_def zeros_def)

lemma scan_string_Cons:
  "scan_string (e, z) (c # s) =
     (if line_end c then if z = 1 \<and> e + 1 = 4 then Inl valid else scan_string (e + 1, z) s
      else if c = CHR ''0'' then if z + 1 = 1 \<and> e = 4 then Inl valid else scan_string (e, z + 1) s
      else Inl invalid)"
  by (auto simp: line_end_def Let_def)

lemma scan_string_late: "5 \<le> e + z \<Longrightarrow> scan_string (e, z) s \<noteq> Inl valid"
proof (induction s arbitrary: e z)
  case (Cons c s)
  then show ?case by (auto simp: scan_string_Cons simp del: scan_string.simps(2))
qed simp

lemma counts_le: "eols s + zeros s \<le> length s"
  by (induction s) (auto simp: line_end_def)

lemma scan_string_valid:
  "e + z + k = 5 \<Longrightarrow> 0 < k \<Longrightarrow> scan_string (e, z) s = Inl valid
    \<longleftrightarrow> k \<le> length s \<and> e + eols (take k s) = 4 \<and> z + zeros (take k s) = 1"
proof (induction s arbitrary: e z k)
  case (Cons c s)
  then obtain j where k: "k = Suc j" by (cases k) auto
  have zero: "\<not> line_end CHR ''0''" by (simp add: line_end_def)
  show ?case
  proof (cases "j = 0")
    case True
    with Cons.prems k scan_string_late [of "e + 1" z s] scan_string_late [of e "z + 1" s] zero
    show ?thesis by (auto simp: scan_string_Cons simp del: scan_string.simps(2))
  next
    case False
    with Cons.IH [of "e + 1" z j] Cons.IH [of e "z + 1" j] Cons.prems k zero
      counts_le [of "take j s"]
    show ?thesis by (auto simp: scan_string_Cons simp del: scan_string.simps(2))
  qed
qed simp

lemma scan_body_valid:
  "scan_body (0, 0) (rev bs) = valid \<longleftrightarrow> last_chunk (drop (length (concat bs) - 5) (concat bs))"
proof -
  let ?s = "concat bs"
  have "scan_body (0, 0) (rev bs) = valid \<longleftrightarrow> scan_string (0, 0) (rev ?s) = Inl valid"
    by (auto simp: scan_body_concat split: sum.splits)
  also have "\<dots> \<longleftrightarrow> 5 \<le> length ?s \<and> eols (take 5 (rev ?s)) = 4 \<and> zeros (take 5 (rev ?s)) = 1"
    by (subst scan_string_valid [where k = 5]) simp_all
  also have "take 5 (rev ?s) = rev (drop (length ?s - 5) ?s)" by (simp add: take_rev)
  finally show ?thesis
    by (auto simp: last_chunk_def eols_def zeros_def rev_filter [symmetric])
qed

section \<open>Properties\<close>

text \<open>
  However the bytes of a request are cut into fragments, the buffer ends with the
  headers up to and including the first empty line, with the rest as its body, and with the
  length of that body as its size.
\<close>

theorem store_fragments:
  "\<exists>r. store request_buf_init ds = Ret r
     \<and> rb_headers r = take (header_end (concat ds)) (concat ds)
     \<and> concat (rb_body r) = drop (header_end (concat ds)) (concat ds)
     \<and> rb_body_size r = length (concat (rb_body r))"
  using store_holds [OF holds_init, of ds] by (auto simp: holds_def)

definition verdict :: "string list \<Rightarrow> string \<Rightarrow> helper_values res" where
  "verdict ds d = rbind (store request_buf_init ds) (\<lambda>r. rbind (receive d r) (\<lambda>(v, _). Ret v))"

lemma verdict_holds:
  "\<exists>r. holds (concat ds @ d) r \<and> verdict ds d
     = (if headers_received r then validate_request r else Ret invalid)"
proof -
  from store_holds [OF holds_init, of ds] obtain r
    where r: "store request_buf_init ds = Ret r" "holds (concat ds) r" by auto
  have "\<exists>r'. (if headers_received r then Ret (add_body_data d r) else add_header_data d r) = Ret r'
      \<and> holds (concat ds @ d) r'"
    using holds_add_body [OF r(2)] holds_add_header [OF r(2)] by auto
  then obtain r' where "(if headers_received r then Ret (add_body_data d r)
      else add_header_data d r) = Ret r'" "holds (concat ds @ d) r'" by blast
  then show ?thesis using r(1)
    by (intro exI [of _ r']) (simp add: verdict_def receive_def rbind_assoc)
qed

text \<open>
  C14. The verdict on a request depends only on the bytes received: two ways of cutting the
  same bytes into fragments are judged alike.
\<close>

theorem verdict_fragmentation:
  assumes "concat ds @ d = concat es @ e"
  shows "verdict ds d = verdict es e"
proof -
  obtain r where r: "holds (concat ds @ d) r"
    "verdict ds d = (if headers_received r then validate_request r else Ret invalid)"
    using verdict_holds by blast
  obtain r' where r': "holds (concat es @ e) r'"
    "verdict es e = (if headers_received r' then validate_request r' else Ret invalid)"
    using verdict_holds by blast
  have "headers_received r = headers_received r'" "validate_request r = validate_request r'"
    using r(1) r'(1) assms headers_received_holds [OF r(1)] headers_received_holds [OF r'(1)]
    by (auto simp: holds_def intro!: validate_request_body)
  with r(2) r'(2) show ?thesis by simp
qed

theorem verdict_fragmentation_witness:
  "verdict [''GET /'', '' HTTP/1.1'' @ CRLF] CRLF = verdict [] (''GET / HTTP/1.1'' @ CRLF2)"
  by (rule verdict_fragmentation) simp

text \<open>
  With a \<^verbatim>\<open>Content-Length\<close> header a request is complete exactly when the number of
  body bytes received is the announced one.
\<close>

theorem validate_content_length:
  assumes "rb_headers r = pre @ ''Content-Length: '' @ ds @ CR # rest"
    and "find_sub_idx ''Content-Length:'' (rb_headers r) = Some (length pre)"
    and "ds \<noteq> []" "\<forall>c\<in>set ds. is_digit c" "digits_value 0 ds < 2147483648" "NUL \<notin> set rest"
  shows "validate_request r
     = Ret (if rb_body_size r = digits_value 0 ds then valid else invalid)"
proof -
  have "NUL \<notin> set (ds @ CR # rest)" using assms(4,6) is_digit_not_NUL by auto
  moreover have "drop (length pre + 16) (rb_headers r) = ds @ CR # rest"
    "length pre + 16 \<le> length (rb_headers r)" by (simp_all add: assms(1))
  moreover have "\<not> is_digit CR" by (simp add: is_digit_def schar_def)
  ultimately show ?thesis
    using assms(2-5) ft_atoi_digits [of ds "CR # rest" "[]"]
    by (auto simp: validate_request_def find_sub_0 c_str_id wrap32_id int32_def)
qed

theorem validate_content_length_witness:
  "validate_request \<lparr>rb_headers = ''Content-Length: 12'' @ CRLF2, rb_body = [''hello '', ''world!''],
     rb_body_size = 12\<rparr> = Ret valid"
  using validate_content_length [of "\<lparr>rb_headers = ''Content-Length: 12'' @ CRLF2,
      rb_body = [''hello '', ''world!''], rb_body_size = 12\<rparr>" "[]" "''12''" "[LF, CR, LF]"]
  by (simp add: is_digit_def schar_def digits_value_def)

text \<open>
  A chunked request is taken as complete exactly when its last five bytes are four line
  ends and one zero, in any order: the empty line after the last chunk need not have
  arrived.
\<close>

theorem validate_chunked:
  assumes "\<not> contains (rb_headers r) ''Content-Length:''" "contains (rb_headers r) ''chunked''"
  shows "validate_request r = Ret (if last_chunk (drop (length (concat (rb_body r)) - 5)
       (concat (rb_body r))) then valid else invalid)"
  using assms scan_body_valid [of "rb_body r"] helper_values.exhaust
  by (cases "scan_body (0, 0) (rev (rb_body r))")
    (auto simp: validate_request_def contains_def find_sub_0 split: option.splits)

theorem validate_chunked_witness:
  "validate_request \<lparr>rb_headers = ''Transfer-Encoding: chunked'' @ CRLF2,
     rb_body = [''5'' @ CRLF @ ''hello'' @ CRLF @ ''0'' @ CRLF], rb_body_size = 13\<rparr> = Ret valid"
  using validate_chunked [of "\<lparr>rb_headers = ''Transfer-Encoding: chunked'' @ CRLF2,
     rb_body = [''5'' @ CRLF @ ''hello'' @ CRLF @ ''0'' @ CRLF], rb_body_size = 13\<rparr>"]
  by (simp add: contains_find last_chunk_def line_end_def)

end
