(* ===== verification/Base64.thy ===== *)
theory Base64
  imports StdString
begin

text \<open>
  \<^verbatim>\<open>webserver/server/Base64.cpp\<close>: the two conversions, with the \<^verbatim>\<open>unsigned char\<close>
  arithmetic of the code on 8-bit words.  The loops fill an array of three (or four)
  characters and convert it when it is full; what is left in it goes through the tail.
\<close>

unbundle bit_operations_syntax

section \<open>Definitions\<close>

type_synonym byte = "8 word"

definition byte_char :: "byte \<Rightarrow> char" where
  "byte_char x = char_of (unat x)"

definition char_byte :: "char \<Rightarrow> byte" where
  "char_byte c = of_nat (of_char c)"

definition base64_chars :: string where
  "base64_chars = ''ABCDEFGHIJKLMNOPQRSTUVWXYZabcdefghijklmnopqrstuvwxyz0123456789+/''"

definition isalnum :: "char \<Rightarrow> bool" where
  "isalnum c = (let n = of_char c :: nat in
     (48 \<le> n \<and> n \<le> 57) \<or> (65 \<le> n \<and> n \<le> 90) \<or> (97 \<le> n \<and> n \<le> 122))"

definition is_base64 :: "char \<Rightarrow> bool" where
  "is_base64 c \<longleftrightarrow> isalnum c \<or> c = CHR ''+'' \<or> c = CHR ''/''"

definition encode_quad :: "byte \<Rightarrow> byte \<Rightarrow> byte \<Rightarrow> byte list" where
  "encode_quad a b c =
     [drop_bit 2 (a AND 0xfc),
      push_bit 4 (a AND 0x03) + drop_bit 4 (b AND 0xf0),
      push_bit 2 (b AND 0x0f) + drop_bit 6 (c AND 0xc0),
      c AND 0x3f]"

definition base64_char :: "byte \<Rightarrow> char" where
  "base64_char x = base64_chars ! unat x"

fun encode_loop :: "string \<Rightarrow> byte list \<Rightarrow> byte list \<Rightarrow> string \<times> byte list" where
  "encode_loop ret arr [] = (ret, arr)"
| "encode_loop ret arr (x # xs) =
     (let arr = arr @ [x] in
      if length arr = 3
      then encode_loop (ret @ map base64_char (encode_quad (arr ! 0) (arr ! 1) (arr ! 2))) [] xs
      else encode_loop ret arr xs)"

definition base64_encode :: "byte list \<Rightarrow> string" where
  "base64_encode bytes =
     (case encode_loop [] [] bytes of (ret, arr) \<Rightarrow>
        let i = length arr in
        if i = 0 then ret
        else let full = arr @ replicate (3 - i) 0
             in ret @ take (i + 1) (map base64_char (encode_quad (full ! 0) (full ! 1) (full ! 2)))
                @ replicate (3 - i) CHR ''='')"

text \<open>A character that is not in the table gets the low byte of \<^verbatim>\<open>npos\<close>.\<close>

definition base64_index :: "char \<Rightarrow> byte" where
  "base64_index c = (case find_idx (\<lambda>x. x = c) base64_chars of None \<Rightarrow> 0xff | Some i \<Rightarrow> of_nat i)"

definition decode_triple :: "byte \<Rightarrow> byte \<Rightarrow> byte \<Rightarrow> byte \<Rightarrow> byte list" where
  "decode_triple a b c d =
     [push_bit 2 a + drop_bit 4 (b AND 0x30),
      push_bit 4 (b AND 0x0f) + drop_bit 2 (c AND 0x3c),
      push_bit 6 (c AND 0x03) + d]"

fun decode_loop :: "string \<Rightarrow> string \<Rightarrow> string \<Rightarrow> string \<times> string" where
  "decode_loop ret arr [] = (ret, arr)"
| "decode_loop ret arr (c # cs) =
     (if c = CHR ''='' \<or> \<not> is_base64 c then (ret, arr)
      else let arr = arr @ [c] in
           if length arr = 4
           then let v = map base64_index arr
                in decode_loop (ret @ map byte_char (decode_triple (v ! 0) (v ! 1) (v ! 2) (v ! 3))) [] cs
           else decode_loop ret arr cs)"

definition base64_decode :: "string \<Rightarrow> string" where
  "base64_decode encoded =
     (case decode_loop [] [] encoded of (ret, arr) \<Rightarrow>
        let i = length arr in
        if i = 0 then ret
        else let v = map base64_index (arr @ replicate (4 - i) NUL)
             in ret @ take (i - 1) (map byte_char (decode_triple (v ! 0) (v ! 1) (v ! 2) (v ! 3))))"

section \<open>Bits\<close>

lemma byte_eq_iff:
  "a = b \<longleftrightarrow> bit a 0 = bit b 0 \<and> bit a 1 = bit b 1 \<and> bit a 2 = bit b 2 \<and> bit a 3 = bit b 3
     \<and> bit a 4 = bit b 4 \<and> bit a 5 = bit b 5 \<and> bit a 6 = bit b 6 \<and> bit a 7 = bit b 7"
  for a b :: byte
proof
  assume r: "bit a 0 = bit b 0 \<and> bit a 1 = bit b 1 \<and> bit a 2 = bit b 2 \<and> bit a 3 = bit b 3
     \<and> bit a 4 = bit b 4 \<and> bit a 5 = bit b 5 \<and> bit a 6 = bit b 6 \<and> bit a 7 = bit b 7"
  show "a = b"
  proof (rule bit_word_eqI)
    fix n assume "n < LENGTH(8)"
    then have "n = 0 \<or> n = 1 \<or> n = 2 \<or> n = 3 \<or> n = 4 \<or> n = 5 \<or> n = 6 \<or> n = 7"
      by (simp, presburger)
    with r show "bit a n = bit b n" by metis
  qed
qed simp

lemmas byte_simps = byte_eq_iff bit_simps

lemma quad_or:
  "encode_quad a b c =
     [drop_bit 2 (a AND 0xfc), push_bit 4 (a AND 0x03) OR drop_bit 4 (b AND 0xf0),
      push_bit 2 (b AND 0x0f) OR drop_bit 6 (c AND 0xc0), c AND 0x3f]"
  unfolding encode_quad_def
  by (subst (1 2) disjunctive_add_eq_or) (simp_all add: byte_simps)

lemma triple_bits:
  "push_bit 2 (drop_bit 2 (a AND 0xfc))
     + drop_bit 4 ((push_bit 4 (a AND 0x03) OR drop_bit 4 (b AND 0xf0)) AND 0x30) = a"
  "push_bit 4 ((push_bit 4 (a AND 0x03) OR drop_bit 4 (b AND 0xf0)) AND 0x0f)
     + drop_bit 2 ((push_bit 2 (b AND 0x0f) OR drop_bit 6 (c AND 0xc0)) AND 0x3c) = b"
  "push_bit 6 ((push_bit 2 (b AND 0x0f) OR drop_bit 6 (c AND 0xc0)) AND 0x03) + (c AND 0x3f) = c"
  for a b c :: byte
  by (subst disjunctive_add_eq_or; simp add: byte_simps)+

lemma decode_quad:
  "encode_quad a b c = [w, x, y, z] \<Longrightarrow> decode_triple w x y z = [a, b, c]"
  unfolding quad_or decode_triple_def using triple_bits by auto

lemma decode_quad_cut:
  "encode_quad a b c = [w, x, y, z] \<Longrightarrow> take 2 (decode_triple w x y z') = [a, b]"
  "encode_quad a b c = [w, x, y, z] \<Longrightarrow> take 1 (decode_triple w x y' z') = [a]"
  unfolding quad_or decode_triple_def using triple_bits by auto

section \<open>The alphabet\<close>

lemma byte_char_byte [simp]: "byte_char (char_byte c) = c"
  by (simp add: byte_char_def char_byte_def unsigned_of_nat take_bit_nat_eq_self of_char_of)

lemma char_byte_char [simp]: "char_byte (byte_char x) = x"
proof -
  have "unat x < 2 ^ LENGTH(8)" by (rule unsigned_less)
  then show ?thesis by (simp add: byte_char_def char_byte_def)
qed

lemma base64_chars_ok:
  "list_all (\<lambda>i. find_idx (\<lambda>x. x = base64_chars ! i) base64_chars = Some i
     \<and> is_base64 (base64_chars ! i) \<and> base64_chars ! i \<noteq> CHR ''='') [0..<64]"
  by code_simp

lemma base64_index_char:
  assumes "unat x < 64"
  shows "base64_index (base64_char x) = x" "is_base64 (base64_char x)" "base64_char x \<noteq> CHR ''=''"
  using assms base64_chars_ok by (auto simp: list_all_iff base64_index_def base64_char_def)

lemma quad_small: "x \<in> set (encode_quad a b c) \<Longrightarrow> unat x < 64"
proof -
  have "x \<in> set (encode_quad a b c) \<Longrightarrow> x AND 0x3f = x"
    unfolding quad_or by (auto simp: byte_simps)
  moreover have "unat (x AND 0x3f) < 64"
    using take_bit_nat_less_exp [of 6 "unat x"] by (simp add: unsigned_and_eq take_bit_eq_mask mask_eq_exp_minus_1)
  ultimately show "x \<in> set (encode_quad a b c) \<Longrightarrow> unat x < 64" by simp
qed

section \<open>Group by group\<close>

lemma encode_loop_acc:
  "encode_loop (r @ ret) arr xs = (r @ fst (encode_loop ret arr xs), snd (encode_loop ret arr xs))"
  by (induction ret arr xs rule: encode_loop.induct) (auto simp: Let_def)

lemma decode_loop_acc:
  "decode_loop (r @ ret) arr cs = (r @ fst (decode_loop ret arr cs), snd (decode_loop ret arr cs))"
  by (induction ret arr cs rule: decode_loop.induct) (auto simp: Let_def)

lemma base64_encode_simps:
  "base64_encode [] = []"
  "base64_encode [a] = map base64_char (take 2 (encode_quad a 0 0)) @ ''==''"
  "base64_encode [a, b] = map base64_char (take 3 (encode_quad a b 0)) @ ''=''"
  "base64_encode (a # b # c # xs) = map base64_char (encode_quad a b c) @ base64_encode xs"
  using encode_loop_acc [of "map base64_char (encode_quad a b c)" "[]" "[]" xs]
  by (simp_all add: base64_encode_def take_map Let_def numeral_eq_Suc split: prod.splits)

lemma base64_decode_group:
  assumes "unat w < 64" "unat x < 64" "unat y < 64" "unat z < 64"
  shows "base64_decode (map base64_char [w, x, y, z] @ cs)
    = map byte_char (decode_triple w x y z) @ base64_decode cs"
  using base64_index_char [OF assms(1)] base64_index_char [OF assms(2)]
    base64_index_char [OF assms(3)] base64_index_char [OF assms(4)]
    decode_loop_acc [of "map byte_char (decode_triple w x y z)" "[]" "[]" cs]
  by (simp add: base64_decode_def Let_def numeral_eq_Suc split: prod.splits)

lemma base64_decode_tail:
  assumes "unat w < 64" "unat x < 64"
  shows "base64_decode (map base64_char [w, x] @ ''=='')
      = map byte_char (take 1 (decode_triple w x 0xff 0xff))"
    and "unat y < 64 \<Longrightarrow> base64_decode (map base64_char [w, x, y] @ ''='')
      = map byte_char (take 2 (decode_triple w x y 0xff))"
proof -
  have n: "base64_index NUL = 0xff" by code_simp
  from base64_index_char [OF assms(1)] base64_index_char [OF assms(2)] n
  show "base64_decode (map base64_char [w, x] @ ''=='')
      = map byte_char (take 1 (decode_triple w x 0xff 0xff))"
    by (simp add: base64_decode_def Let_def numeral_eq_Suc take_map)
  assume "unat y < 64"
  from base64_index_char [OF assms(1)] base64_index_char [OF assms(2)] base64_index_char [OF this] n
  show "base64_decode (map base64_char [w, x, y] @ ''='')
      = map byte_char (take 2 (decode_triple w x y 0xff))"
    by (simp add: base64_decode_def Let_def numeral_eq_Suc take_map)
qed

lemma quad_cases:
  obtains w x y z where "encode_quad a b c = [w, x, y, z]"
    "unat w < 64" "unat x < 64" "unat y < 64" "unat z < 64"
proof -
  obtain w x y z where q: "encode_quad a b c = [w, x, y, z]" by (simp add: encode_quad_def)
  with quad_small [of _ a b c] show thesis by (intro that [OF q]) auto
qed

lemma group_cases:
  obtains "bs = []" | a where "bs = [a]" | a b where "bs = [a, b]"
    | a b c xs where "bs = a # b # c # xs"
  by (cases bs rule: remdups_adj.cases) (auto, metis list.exhaust)

lemma base64_roundtrip: "base64_decode (base64_encode bs) = map byte_char bs"
proof (induction bs rule: length_induct)
  case (1 bs)
  show ?case
  proof (cases bs rule: group_cases)
    case 1
    then show ?thesis by (simp add: base64_encode_simps base64_decode_def)
  next
    case (2 a)
    obtain w x y z where q: "encode_quad a 0 0 = [w, x, y, z]" "unat w < 64" "unat x < 64"
      by (rule quad_cases)
    from 2 base64_decode_tail(1) [OF q(2,3)] decode_quad_cut(2) [OF q(1)] show ?thesis
      by (simp add: base64_encode_simps q(1) numeral_eq_Suc)
  next
    case (3 a b)
    obtain w x y z where q: "encode_quad a b 0 = [w, x, y, z]" "unat w < 64" "unat x < 64"
      "unat y < 64" by (rule quad_cases)
    from 3 base64_decode_tail(2) [OF q(2-4)] decode_quad_cut(1) [OF q(1)] show ?thesis
      by (simp add: base64_encode_simps q(1) numeral_eq_Suc)
  next
    case (4 a b c xs)
    obtain w x y z where q: "encode_quad a b c = [w, x, y, z]" "unat w < 64" "unat x < 64"
      "unat y < 64" "unat z < 64" by (rule quad_cases)
    have "base64_decode (base64_encode xs) = map byte_char xs" using 1 4 by simp
    then show ?thesis using base64_decode_group [OF q(2-5), of "base64_encode xs"] decode_quad [OF q(1)]
      by (simp only: 4 base64_encode_simps q(1)) simp
  qed
qed

interpretation base64: codec base64_encode "\<lambda>s. map char_byte (base64_decode s)" "\<lambda>_. True"
  by unfold_locales (simp add: base64_roundtrip o_def)

section \<open>Properties\<close>

text \<open>
  C35. Decoding undoes encoding for every string of bytes, so encoding loses nothing: two
  byte strings with the same encoding are equal.
\<close>

theorem base64_decode_encode:
  "base64_decode (base64_encode bs) = map byte_char bs
   \<and> (base64_encode bs = base64_encode bs') = (bs = bs')"
  using base64.enc_eq_iff [of bs bs'] base64_roundtrip by simp

lemma base64_chars_of_quad: "list_all is_base64 (map base64_char (encode_quad a b c))"
proof (cases a b c rule: quad_cases)
  case (1 w x y z)
  then show ?thesis by (simp add: base64_index_char)
qed

lemma base64_length: "length (base64_encode bs) = 4 * ((length bs + 2) div 3)"
proof (induction bs rule: length_induct)
  case (1 bs)
  then show ?case
    by (cases bs rule: group_cases)
      (simp_all add: base64_encode_simps encode_quad_def, presburger)
qed

lemma base64_alphabet: "list_all (\<lambda>c. is_base64 c \<or> c = CHR ''='') (base64_encode bs)"
proof (induction bs rule: length_induct)
  case (1 bs)
  show ?case
  proof (cases bs rule: group_cases)
    case (2 a)
    then show ?thesis using base64_chars_of_quad [of a 0 0]
      by (simp add: base64_encode_simps encode_quad_def numeral_eq_Suc)
  next
    case (3 a b)
    then show ?thesis using base64_chars_of_quad [of a b 0]
      by (simp add: base64_encode_simps encode_quad_def numeral_eq_Suc)
  next
    case (4 a b c xs)
    then show ?thesis using base64_chars_of_quad [of a b c] 1
      by (simp add: base64_encode_simps encode_quad_def)
  qed (simp add: base64_encode_simps)
qed

text \<open>
  An encoding has four characters for every started group of three bytes, and
  consists of characters of the alphabet and the padding.
\<close>

theorem base64_encode_shape:
  "length (base64_encode bs) = 4 * ((length bs + 2) div 3)
   \<and> list_all (\<lambda>c. is_base64 c \<or> c = CHR ''='') (base64_encode bs)"
  using base64_length base64_alphabet by blast

end
