(* ===== verification/Response.thy ===== *)
theory Response
  imports LibFunctions
begin

text \<open>
  \<^verbatim>\<open>webserver/server/response.cpp/.hpp\<close>: the head of a response.  The object's state is
  the text collected so far, and every \<^verbatim>\<open>generate\<close> function appends one header line.
  The two time stamps (\<^verbatim>\<open>strftime\<close> of the clock and of the file's \<^verbatim>\<open>fstat\<close>) are
  parameters; \<^verbatim>\<open>allocate_size\<close> only reserves memory.
\<close>

section \<open>Definitions\<close>

type_synonym response = string

definition status_line :: "string \<Rightarrow> int \<Rightarrow> (int \<times> string) list \<Rightarrow> string" where
  "status_line protocol status status_phrases =
     protocol @ '' '' @ itoa_str status @ '' ''
     @ (case map_of status_phrases status of None \<Rightarrow> [] | Some p \<Rightarrow> p) @ CRLF"

definition generate_status_line ::
  "string \<Rightarrow> int \<Rightarrow> (int \<times> string) list \<Rightarrow> response \<Rightarrow> response" where
  "generate_status_line protocol status status_phrases r =
     r @ status_line protocol status status_phrases"

definition generate_content_length :: "string \<Rightarrow> response \<Rightarrow> response" where
  "generate_content_length requested_file r =
     r @ ''Content-Length: '' @ itoa_str (wrap32 (int (length requested_file))) @ CRLF"

definition generate_content_type :: "string \<Rightarrow> response \<Rightarrow> response" where
  "generate_content_type ty r =
     (let content_type = (if ty = ''php'' \<or> ty = ''bla'' then ''html'' else ty)
      in r @ ''Content-Type: ''
           @ (if content_type = ''html'' \<or> content_type = ''css'' then ''text/''
              else if content_type = ''png'' then ''image/'' else [])
           @ content_type @ CRLF)"

definition generate_content_language :: "response \<Rightarrow> response" where
  "generate_content_language r = r @ ''Content-Language: en-US'' @ CRLF"

definition generate_last_modified :: "string \<Rightarrow> response \<Rightarrow> response" where
  "generate_last_modified timestamp r = r @ ''Last-Modified: '' @ timestamp @ CRLF"

definition generate_date :: "string \<Rightarrow> response \<Rightarrow> response" where
  "generate_date timestamp r = r @ ''Date: '' @ timestamp @ CRLF"

definition generate_server_name :: "string \<Rightarrow> response \<Rightarrow> response" where
  "generate_server_name server_name r = r @ ''Server: '' @ server_name @ CRLF"

fun allow_list :: "string list \<Rightarrow> string" where
  "allow_list [] = []"
| "allow_list [m] = m"
| "allow_list (m # n # ms) = m @ '', '' @ allow_list (n # ms)"

definition generate_allow :: "string list \<Rightarrow> response \<Rightarrow> response" where
  "generate_allow allowed_methods r = r @ ''Allow: '' @ allow_list allowed_methods @ CRLF"

text \<open>The part of a path behind its last slash; \<^verbatim>\<open>npos + 1\<close> is 0, so it never throws.\<close>

definition base_name :: "string \<Rightarrow> string res" where
  "base_name s = substr s (pos_add (find_last_of s SLASH) 1) None"

definition generate_location :: "int \<Rightarrow> string \<Rightarrow> response \<Rightarrow> response res" where
  "generate_location status file_location r =
     (if status = 201
      then rbind (base_name file_location) (\<lambda>f.
           Ret (r @ ''Location: '' @ ''server_files/www/downloads/'' @ f @ CRLF))
      else if status = 301 \<or> status = 307
      then Ret (r @ ''Location: '' @ file_location @ CRLF)
      else Ret (r @ ''Location: '' @ ''server_files/www/downloads/POST_file'' @ CRLF))"

definition generate_connection_close :: "response \<Rightarrow> response" where
  "generate_connection_close r = r @ ''Connection: close'' @ CRLF"

definition generate_www_authorization :: "string \<Rightarrow> response \<Rightarrow> response" where
  "generate_www_authorization auth_basic r =
     r @ ''WWW-Authenticate: Basic realm='' @ auth_basic @ CRLF"

definition append_cgi_headers :: "string \<Rightarrow> response \<Rightarrow> response" where
  "append_cgi_headers cgi_headers r = r @ cgi_headers @ CRLF"

definition close_header_section :: "response \<Rightarrow> response" where
  "close_header_section r = r @ CRLF"

lemmas generate_defs = generate_status_line_def generate_content_length_def
  generate_content_type_def generate_content_language_def generate_last_modified_def
  generate_date_def generate_server_name_def generate_allow_def generate_connection_close_def
  generate_www_authorization_def append_cgi_headers_def close_header_section_def

section \<open>Base names\<close>

lemma base_name_split: "\<exists>d f. base_name s = Ret f \<and> s = d @ f \<and> SLASH \<notin> set f
    \<and> (d = [] \<or> last d = SLASH)"
proof (cases "find_last_of s SLASH")
  case None
  then have "SLASH \<notin> set s" by (simp add: find_last_of_None)
  with None show ?thesis by (simp add: base_name_def)
next
  case (Some p)
  then have "SLASH \<in> set s" using find_last_of_None [of s SLASH] by auto
  then obtain d f where s: "s = d @ SLASH # f" and f: "SLASH \<notin> set f"
    by (meson split_list_last)
  from find_last_of_append [OF f, of d] have "find_last_of s SLASH = Some (length d)"
    by (simp add: s)
  then have "base_name s = Ret f" by (simp add: base_name_def s)
  with s f show ?thesis by (intro exI [of _ "d @ [SLASH]"] exI [of _ f]) simp
qed

lemma base_name_returns: "returns (base_name s)"
  using base_name_split [of s] by auto

lemma generate_location_returns: "returns (generate_location status l r)"
  using base_name_split [of l] by (auto simp: generate_location_def)

section \<open>Header lines\<close>

text \<open>A head under construction: complete, non-empty lines.\<close>

definition header_line :: "string \<Rightarrow> bool" where
  "header_line l \<longleftrightarrow> CR \<notin> set l \<and> LF \<notin> set l \<and> l \<noteq> []"

definition is_head :: "string \<Rightarrow> bool" where
  "is_head r \<longleftrightarrow> (\<exists>ls. ls \<noteq> [] \<and> (\<forall>l\<in>set ls. header_line l) \<and> r = concat (map (\<lambda>l. l @ CRLF) ls))"

lemma is_head_first: "header_line l \<Longrightarrow> is_head (l @ CRLF)"
  unfolding is_head_def by (intro exI [of _ "[l]"]) simp

lemma is_head_line: "is_head r \<Longrightarrow> header_line l \<Longrightarrow> is_head (r @ l @ CRLF)"
  unfolding is_head_def by (elim exE, rule_tac x = "ls @ [l]" in exI) auto

lemma find_line_end:
  assumes "CR \<notin> set l"
  shows "find_sub_idx CRLF2 (l @ CR # LF # t)
    = (if prefix CRLF t then Some (length l)
       else map_option (\<lambda>k. length l + 2 + k) (find_sub_idx CRLF2 t))"
  using assms
proof (induction l)
  case (Cons c l)
  then show ?case by (auto simp: option.map_comp o_def)
qed (cases "find_sub_idx CRLF2 t"; auto simp: option.map_comp o_def)

lemma head_end: "is_head r \<Longrightarrow> find_sub_idx CRLF2 (r @ CRLF @ b) = Some (length r - 2)"
proof -
  have "ls \<noteq> [] \<Longrightarrow> \<forall>l\<in>set ls. header_line l \<Longrightarrow>
      find_sub_idx CRLF2 (concat (map (\<lambda>l. l @ CRLF) ls) @ CRLF @ b)
        = Some (length (concat (map (\<lambda>l. l @ CRLF) ls)) - 2)" for ls
  proof (induction ls)
    case (Cons l ls)
    show ?case
    proof (cases ls)
      case Nil
      with Cons.prems find_line_end [of l "CRLF @ b"] show ?thesis by (simp add: header_line_def)
    next
      case (Cons m ms)
      with Cons.prems have m: "header_line m" "header_line l" by auto
      then obtain c m' where "m = c # m'" "c \<noteq> CR" by (cases m) (auto simp: header_line_def)
      with Cons have "\<not> prefix CRLF (concat (map (\<lambda>l. l @ CRLF) ls) @ CRLF @ b)" by simp
      moreover have "2 \<le> length (concat (map (\<lambda>l. l @ CRLF) ls))" using Cons by simp
      ultimately show ?thesis
        using find_line_end [of l "concat (map (\<lambda>l. l @ CRLF) ls) @ CRLF @ b"] m
          Cons.IH Cons.prems Cons by (simp add: header_line_def)
    qed
  qed simp
  then show "is_head r \<Longrightarrow> ?thesis" by (auto simp: is_head_def)
qed

definition plain_text :: "string \<Rightarrow> bool" where
  "plain_text s \<longleftrightarrow> CR \<notin> set s \<and> LF \<notin> set s"

lemma plain_text_simps [simp]:
  "plain_text []" "plain_text (c # s) \<longleftrightarrow> c \<noteq> CR \<and> c \<noteq> LF \<and> plain_text s"
  "plain_text (s @ t) \<longleftrightarrow> plain_text s \<and> plain_text t"
  by (auto simp: plain_text_def)

lemma header_line_plain: "header_line l \<longleftrightarrow> plain_text l \<and> l \<noteq> []"
  by (simp add: header_line_def plain_text_def)

lemma plain_decimal_text [simp]: "plain_text (decimal n)"
proof -
  have "\<not> is_digit CR" "\<not> is_digit LF" by (simp_all add: is_digit_def schar_def)
  then have "plain_text (dec_digits k)" for k
    using dec_digits_digits [of k] by (auto simp: plain_text_def)
  then show ?thesis by (simp add: decimal_def)
qed

end
