(* ===== verification/RequestParser.thy ===== *)
theory RequestParser
  imports ParseFunctions CheckFunctions RequestBuf
begin

text \<open>
  The state of \<^verbatim>\<open>header_handler\<close> (\<^verbatim>\<open>webserver/server/header_handler.hpp\<close>) and its
  parsing half: \<^verbatim>\<open>parse_request\<close> with the table of header parsers, the first line, and
  the body with its chunk loop.
\<close>

section \<open>State\<close>

record header_handler =
  hh_status :: int
  hh_status_phrases :: "(int \<times> string) list"
  hh_write_to_file :: bool
  hh_read_from_file :: bool
  hh_write_to_browser :: bool
  hh_bytes_written :: int
  hh_bytes_read :: int
  hh_max_file_size :: int
  hh_content_length :: int
  hh_content_type :: string
  hh_content_language :: string
  hh_content_location :: string
  hh_allow :: "string list"
  hh_method :: string
  hh_file_location :: string
  hh_uri_location :: string
  hh_location_block_root :: string
  hh_protocol :: string
  hh_requested_host :: string
  hh_user_agent :: string
  hh_accept_charset :: string
  hh_accept_language :: string
  hh_authorization :: string
  hh_referer :: string
  hh_body :: string
  hh_special_x_header :: "string list"
  hh_location_index :: int
  hh_auth_basic :: string
  hh_auth_type :: string
  hh_response :: string
  hh_response_size :: int
  hh_response_file :: string
  hh_additional_cgi_headers :: string

definition status_phrases :: "(int \<times> string) list" where
  "status_phrases = [(200, ''OK''), (201, ''Created''), (204, ''No Content''),
     (301, ''Moved Permanently''), (307, ''Temporary Redirect''), (400, ''Bad Request''),
     (401, ''Unauthorized''), (403, ''Forbidden''), (404, ''Not Found''),
     (405, ''Method Not Allowed''), (413, ''Request Entity Too Large'')]"

text \<open>The constructor.  It leaves \<^verbatim>\<open>_response_size\<close> unset; every use is behind a reset.\<close>

definition header_handler_init :: header_handler where
  "header_handler_init = \<lparr>
     hh_status = 200, hh_status_phrases = status_phrases, hh_write_to_file = False,
     hh_read_from_file = False, hh_write_to_browser = False, hh_bytes_written = 0,
     hh_bytes_read = 0, hh_max_file_size = 0, hh_content_length = 0,
     hh_content_type = ''Content-Type: text/'', hh_content_language = ''en'',
     hh_content_location = [], hh_allow = [], hh_method = [], hh_file_location = [],
     hh_uri_location = [], hh_location_block_root = [], hh_protocol = [],
     hh_requested_host = [], hh_user_agent = [], hh_accept_charset = [],
     hh_accept_language = [], hh_authorization = [], hh_referer = [], hh_body = [],
     hh_special_x_header = [], hh_location_index = -1, hh_auth_basic = ''off'',
     hh_auth_type = ''Basic'', hh_response = [], hh_response_size = 0, hh_response_file = [],
     hh_additional_cgi_headers = []\<rparr>"

definition reset_handler :: "header_handler \<Rightarrow> header_handler" where
  "reset_handler h = h\<lparr>
     hh_status := 200, hh_content_length := 0, hh_max_file_size := 0, hh_bytes_written := 0,
     hh_response_size := 0, hh_write_to_file := False, hh_read_from_file := False,
     hh_write_to_browser := False, hh_method := [], hh_file_location := [],
     hh_protocol := [], hh_response := [], hh_response_file := [], hh_requested_host := [],
     hh_user_agent := [], hh_accept_language := [], hh_authorization := [],
     hh_referer := [], hh_body := [], hh_content_type := [], hh_content_language := ''en'',
     hh_content_location := [], hh_additional_cgi_headers := [], hh_allow := [],
     hh_special_x_header := [], hh_uri_location := [], hh_location_block_root := [],
     hh_accept_charset := [], hh_location_index := -1, hh_auth_basic := []\<rparr>"

section \<open>Header lines\<close>

datatype request_value =
    R_requested_host | R_user_agent | R_accept_charset | R_accept_language | R_authorization
  | R_referer | R_content_length | R_content_type | R_content_language | R_content_location
  | R_special_x_header | R_unknown

definition identify_request_value :: "string \<Rightarrow> request_value" where
  "identify_request_value str =
     (if contains str ''Host'' then R_requested_host
      else if contains str ''User-Agent'' then R_user_agent
      else if contains str ''Accept-Charset'' then R_accept_charset
      else if contains str ''Accept-Language'' then R_accept_language
      else if contains str ''Authorization:'' then R_authorization
      else if contains str ''Referer:'' then R_referer
      else if contains str ''Content-Length:'' then R_content_length
      else if contains str ''Content-Type:'' then R_content_type
      else if contains str ''Content-Language:'' then R_content_language
      else if contains str ''Content-Location:'' then R_content_location
      else if contains str ''X-'' then R_special_x_header
      else R_unknown)"

definition parse_requested_host :: "string \<Rightarrow> header_handler \<Rightarrow> header_handler res" where
  "parse_requested_host str h = rbind (parse_string str) (\<lambda>s. Ret (h\<lparr>hh_requested_host := s\<rparr>))"

definition parse_user_agent :: "string \<Rightarrow> header_handler \<Rightarrow> header_handler res" where
  "parse_user_agent str h = rbind (parse_string str) (\<lambda>s. Ret (h\<lparr>hh_user_agent := s\<rparr>))"

definition parse_accept_charset :: "string \<Rightarrow> header_handler \<Rightarrow> header_handler res" where
  "parse_accept_charset str h = rbind (parse_string str) (\<lambda>s. Ret (h\<lparr>hh_accept_charset := s\<rparr>))"

definition parse_accept_language :: "string \<Rightarrow> header_handler \<Rightarrow> header_handler res" where
  "parse_accept_language str h = rbind (parse_string str) (\<lambda>s. Ret (h\<lparr>hh_accept_language := s\<rparr>))"

definition parse_authorization :: "string \<Rightarrow> header_handler \<Rightarrow> header_handler res" where
  "parse_authorization str h = rbind (parse_string str) (\<lambda>s. Ret (h\<lparr>hh_authorization := s\<rparr>))"

definition parse_referer :: "string \<Rightarrow> header_handler \<Rightarrow> header_handler res" where
  "parse_referer str h = rbind (parse_string str) (\<lambda>s. Ret (h\<lparr>hh_referer := s\<rparr>))"

definition parse_content_length :: "string \<Rightarrow> header_handler \<Rightarrow> header_handler res" where
  "parse_content_length str h = rbind (parse_number str) (\<lambda>n. Ret (h\<lparr>hh_content_length := n\<rparr>))"

definition parse_content_type :: "string \<Rightarrow> header_handler \<Rightarrow> header_handler res" where
  "parse_content_type str h = rbind (parse_string str) (\<lambda>s. Ret (h\<lparr>hh_content_type := s\<rparr>))"

definition parse_content_language :: "string \<Rightarrow> header_handler \<Rightarrow> header_handler res" where
  "parse_content_language str h = rbind (parse_string str) (\<lambda>s. Ret (h\<lparr>hh_content_language := s\<rparr>))"

definition parse_content_location :: "string \<Rightarrow> header_handler \<Rightarrow> header_handler res" where
  "parse_content_location str h = rbind (parse_string str) (\<lambda>s. Ret (h\<lparr>hh_content_location := s\<rparr>))"

definition parse_special_x_header :: "string \<Rightarrow> header_handler \<Rightarrow> header_handler res" where
  "parse_special_x_header str h = Ret (h\<lparr>hh_special_x_header := hh_special_x_header h @ [str]\<rparr>)"

definition invalid_argument :: "string \<Rightarrow> header_handler \<Rightarrow> header_handler res" where
  "invalid_argument str h = rbind (parse_invalid str) (\<lambda>_. Ret h)"

definition parse_header :: "string \<Rightarrow> header_handler \<Rightarrow> header_handler res" where
  "parse_header str = (case identify_request_value str of
       R_requested_host \<Rightarrow> parse_requested_host str
     | R_user_agent \<Rightarrow> parse_user_agent str
     | R_accept_charset \<Rightarrow> parse_accept_charset str
     | R_accept_language \<Rightarrow> parse_accept_language str
     | R_authorization \<Rightarrow> parse_authorization str
     | R_referer \<Rightarrow> parse_referer str
     | R_content_length \<Rightarrow> parse_content_length str
     | R_content_type \<Rightarrow> parse_content_type str
     | R_content_language \<Rightarrow> parse_content_language str
     | R_content_location \<Rightarrow> parse_content_location str
     | R_special_x_header \<Rightarrow> parse_special_x_header str
     | R_unknown \<Rightarrow> invalid_argument str)"

fun parse_headers :: "string list \<Rightarrow> header_handler \<Rightarrow> header_handler res" where
  "parse_headers [] h = Ret h"
| "parse_headers (str # rest) h = rbind (parse_header str h) (parse_headers rest)"

section \<open>The request line\<close>

definition parse_first_line :: "string \<Rightarrow> header_handler \<Rightarrow> header_handler res" where
  "parse_first_line str h =
     (let start = (if take 1 str = [LF] then 1 else 0);
          stop = find_first_of str SP (Some start)
      in rbind (substr str (Some start) (pos_diff stop (Some start))) (\<lambda>m.
      let start = pos_add stop 1;
          stop = find_first_of str SP start;
          index = int_of_pos (find_sub str ''?'' start)
      in rbind
           (if index \<noteq> -1
            then rbind (substr str start (pos_diff (pos_of_int index) start)) (\<lambda>u.
                 rbind (substr str (pos_of_int (index + 1)) (pos_diff stop (pos_of_int (index + 1)))) (\<lambda>b.
                 Ret (h\<lparr>hh_method := m, hh_uri_location := u, hh_body := b\<rparr>)))
            else rbind (substr str start (pos_diff stop start)) (\<lambda>u.
                 Ret (h\<lparr>hh_method := m, hh_uri_location := u\<rparr>))) (\<lambda>h.
         rbind (substr str (pos_add stop 1) None) (\<lambda>p. Ret (h\<lparr>hh_protocol := p\<rparr>)))))"

section \<open>The body\<close>

text \<open>
  One round of the chunk loop from position \<open>pos\<close>: the loop ends, or it goes on with what
  it appended and the next position.  Positions are \<^verbatim>\<open>int\<close>s of the code; a negative one
  becomes a huge \<^verbatim>\<open>size_t\<close>, which is \<open>pos_of_int\<close>.
\<close>

definition chunk_round :: "string \<Rightarrow> int \<Rightarrow> (string \<times> int) option res" where
  "chunk_round str pos =
     (let found = int_of_pos (find_sub str CRLF (pos_of_int pos));
          len_hex_nb = wrap32 (found - pos)
      in rbind (substr str (pos_of_int pos) (pos_of_int len_hex_nb)) (\<lambda>hex_nb.
         let chunk_size = hex_to_dec hex_nb 16
         in if chunk_size = 0 then Ret None
            else rbind (substr str (pos_of_int (wrap32 (len_hex_nb + 2))) (pos_of_int chunk_size)) (\<lambda>c.
                 Ret (Some (c, wrap32 (found + chunk_size + 4))))))"

fun chunk_loop :: "nat \<Rightarrow> string \<Rightarrow> int \<Rightarrow> string \<Rightarrow> string res option" where
  "chunk_loop 0 str pos acc = None"
| "chunk_loop (Suc n) str pos acc =
     (case chunk_round str pos of
        Inl e \<Rightarrow> Some (Throw e)
      | Inr None \<Rightarrow> Some (Ret acc)
      | Inr (Some (c, pos)) \<Rightarrow> chunk_loop n str pos (acc @ c))"

text \<open>
  \<open>length str + 2\<close> rounds decide the loop (\<open>chunk_loop_decided\<close>): when they are not enough,
  no number of rounds is, and the call never returns.
\<close>

definition parse_body :: "request_buf \<Rightarrow> header_handler \<Rightarrow> header_handler res" where
  "parse_body request h =
     (if hh_content_length h \<noteq> 0 then Ret (h\<lparr>hh_body := hh_body h @ concat (rb_body request)\<rparr>)
      else let str = concat (rb_body request) in
           case chunk_loop (length str + 2) str 0 (hh_body h) of
             None \<Rightarrow> Throw Never_Returns
           | Some r \<Rightarrow> rbind r (\<lambda>b. Ret (h\<lparr>hh_body := b\<rparr>)))"

text \<open>\<^verbatim>\<open>*first_line\<close> with a single empty element would read past the end of the vector.\<close>

definition parse_request :: "request_buf \<Rightarrow> header_handler \<Rightarrow> header_handler res" where
  "parse_request request_buffer h =
     rbind (str_to_vector (rb_headers request_buffer)) (\<lambda>request_elements.
     let h = reset_handler h in
     rbind (case request_elements of
              [] \<Rightarrow> Throw (Undef ''past the end'')
            | first # others \<Rightarrow>
                if first \<noteq> [] then Ret first
                else (case others of [] \<Rightarrow> Throw (Undef ''past the end'') | second # _ \<Rightarrow> Ret second))
       (\<lambda>first_line.
     rbind (parse_first_line first_line h) (\<lambda>h.
     rbind (parse_headers request_elements h) (\<lambda>h.
     parse_body request_buffer h))))"

section \<open>Enough rounds\<close>

definition next_pos :: "string \<Rightarrow> int \<Rightarrow> int option" where
  "next_pos str p = (case chunk_round str p of Inr (Some (c, q)) \<Rightarrow> Some q | _ \<Rightarrow> None)"

fun going :: "string \<Rightarrow> nat \<Rightarrow> int set" where
  "going str 0 = UNIV"
| "going str (Suc n) = {p. \<exists>q. next_pos str p = Some q \<and> q \<in> going str n}"

lemma chunk_loop_None: "chunk_loop n str pos acc = None \<longleftrightarrow> pos \<in> going str n"
proof (induction n arbitrary: pos acc)
  case (Suc n)
  then show ?case
    by (cases "chunk_round str pos") (auto simp: next_pos_def split: option.splits)
qed simp

lemma going_Suc_subset: "going str (Suc n) \<subseteq> going str n"
  by (induction n) auto

lemma substr_pos_of_int:
  "substr s (pos_of_int p) k = Ret t \<Longrightarrow> 0 \<le> p \<and> p \<le> int (length s)"
  by (auto simp: pos_of_int_def split: if_splits)

lemma going_bounds: "going str (Suc n) \<subseteq> {0..int (length str)}"
proof
  fix p assume "p \<in> going str (Suc n)"
  then obtain x where "chunk_round str p = Ret (Some x)"
    by (auto simp: next_pos_def split: sum.splits option.splits)
  then show "p \<in> {0..int (length str)}"
    by (auto simp: chunk_round_def Let_def rbind_eq_Inr simp del: substr.simps
        dest!: substr_pos_of_int split: if_splits)
qed

lemma going_stable: "going str (Suc k) = going str k \<Longrightarrow> going str (k + n) = going str k"
  by (induction n) simp_all

lemma going_card:
  "(\<exists>k \<le> n. going str (Suc k) = going str k) \<or> card (going str (Suc n)) + n \<le> length str + 1"
proof (induction n)
  case 0
  have "card (going str (Suc 0)) \<le> card {0..int (length str)}"
    by (rule card_mono [OF _ going_bounds]) simp
  then show ?case by (simp add: nat_add_distrib)
next
  case (Suc n)
  show ?case
  proof (cases "\<exists>k \<le> Suc n. going str (Suc k) = going str k")
    case False
    then have "going str (Suc (Suc n)) \<noteq> going str (Suc n)" by blast
    then have "going str (Suc (Suc n)) \<subset> going str (Suc n)" using going_Suc_subset by blast
    moreover have "finite (going str (Suc n))"
      using going_bounds finite_subset [of _ "{0..int (length str)}"] by blast
    ultimately have "card (going str (Suc (Suc n))) < card (going str (Suc n))"
      by (intro psubset_card_mono)
    with Suc False show ?thesis by (auto simp: le_Suc_eq)
  qed blast
qed

lemma going_decided: "p \<in> going str (length str + 2) \<Longrightarrow> p \<in> going str n"
proof -
  assume p: "p \<in> going str (length str + 2)"
  have "finite (going str (Suc (length str + 1)))"
    using going_bounds finite_subset [of _ "{0..int (length str)}"] by blast
  with p have "0 < card (going str (Suc (length str + 1)))" by (auto simp: card_gt_0_iff)
  with going_card [of "length str + 1" str] obtain k
    where k: "k \<le> length str + 1" "going str (Suc k) = going str k" by auto
  have "going str (k + m) = going str k" for m by (rule going_stable [OF k(2)])
  from this [of "length str + 2 - k"] k(1) p have pk: "p \<in> going str k" by simp
  show "p \<in> going str n"
  proof (cases "k \<le> n")
    case True
    with going_stable [OF k(2), of "n - k"] pk show ?thesis by simp
  next
    case False
    have "going str (n + m) \<subseteq> going str n" for m
      by (induction m) (use going_Suc_subset in \<open>auto simp del: going.simps\<close>)
    from this [of "k - n"] False pk show ?thesis by auto
  qed
qed

lemma chunk_loop_decided:
  "chunk_loop (length str + 2) str pos acc = None \<Longrightarrow> chunk_loop n str pos acc = None"
  unfolding chunk_loop_None by (rule going_decided)

lemma chunk_loop_enough:
  "chunk_loop n str pos acc = Some r \<Longrightarrow> chunk_loop (n + m) str pos acc = Some r"
proof (induction n str pos acc rule: chunk_loop.induct)
  case (2 n str pos acc)
  then show ?case by (auto split: sum.splits option.splits)
qed simp

text \<open>Any number of rounds that ends the loop gives the result of \<open>length str + 2\<close> rounds.\<close>

lemma chunk_loop_result:
  assumes "chunk_loop n str pos acc = Some r"
  shows "chunk_loop (length str + 2) str pos acc = Some r"
proof (cases "chunk_loop (length str + 2) str pos acc")
  case None
  from chunk_loop_decided [OF this, of n] assms show ?thesis by simp
next
  case (Some r')
  from chunk_loop_enough [OF Some, of n] chunk_loop_enough [OF assms, of "length str + 2"]
  show ?thesis using Some by (simp add: add.commute)
qed

section \<open>Header lines that say what they mean\<close>

definition request_keys :: "string list" where
  "request_keys = [''Host'', ''User-Agent'', ''Accept-Charset'', ''Accept-Language'',
     ''Authorization:'', ''Referer:'', ''Content-Length:'', ''Content-Type:'',
     ''Content-Language:'', ''Content-Location:'', ''X-'']"

definition plain_header :: "string \<Rightarrow> bool" where
  "plain_header v \<longleftrightarrow> (\<forall>k\<in>set request_keys. \<not> contains v k)"

fun header_name :: "request_value \<Rightarrow> string" where
  "header_name R_requested_host = ''Host:''"
| "header_name R_user_agent = ''User-Agent:''"
| "header_name R_accept_charset = ''Accept-Charset:''"
| "header_name R_accept_language = ''Accept-Language:''"
| "header_name R_authorization = ''Authorization:''"
| "header_name R_referer = ''Referer:''"
| "header_name R_content_length = ''Content-Length:''"
| "header_name R_content_type = ''Content-Type:''"
| "header_name R_content_language = ''Content-Language:''"
| "header_name R_content_location = ''Content-Location:''"
| "header_name R_special_x_header = ''X-Secret:''"
| "header_name R_unknown = ''Accept:''"

definition header_text :: "request_value \<times> string \<Rightarrow> string" where
  "header_text kv = header_name (fst kv) @ SP # snd kv"

text \<open>What a header line should do to the handler.\<close>

fun set_header :: "request_value \<Rightarrow> string \<Rightarrow> header_handler \<Rightarrow> header_handler" where
  "set_header R_requested_host v h = h\<lparr>hh_requested_host := v\<rparr>"
| "set_header R_user_agent v h = h\<lparr>hh_user_agent := v\<rparr>"
| "set_header R_accept_charset v h = h\<lparr>hh_accept_charset := v\<rparr>"
| "set_header R_accept_language v h = h\<lparr>hh_accept_language := v\<rparr>"
| "set_header R_authorization v h = h\<lparr>hh_authorization := v\<rparr>"
| "set_header R_referer v h = h\<lparr>hh_referer := v\<rparr>"
| "set_header R_content_length v h = h\<lparr>hh_content_length := ft_atoi (c_str v)\<rparr>"
| "set_header R_content_type v h = h\<lparr>hh_content_type := v\<rparr>"
| "set_header R_content_language v h = h\<lparr>hh_content_language := v\<rparr>"
| "set_header R_content_location v h = h\<lparr>hh_content_location := v\<rparr>"
| "set_header R_special_x_header v h =
     h\<lparr>hh_special_x_header := hh_special_x_header h @ [header_text (R_special_x_header, v)]\<rparr>"
| "set_header R_unknown v h = h"

lemma contains_header:
  assumes "plain_header v" "k \<in> set request_keys"
  shows "contains (name @ SP # v) k \<longleftrightarrow> contains name k"
proof -
  from assms have "SP \<notin> set k" "k \<noteq> []" "\<not> contains v k"
    by (auto simp: request_keys_def plain_header_def)
  then show ?thesis by (simp add: contains_sep)
qed

lemma identify_header:
  assumes "plain_header v"
  shows "identify_request_value (header_name k @ SP # v) = k"
proof -
  have c: "contains (header_name k @ SP # v) key \<longleftrightarrow> contains (header_name k) key"
    if "key \<in> set request_keys" for key
    using contains_header [OF assms that] .
  have "identify_request_value (header_name k @ SP # v) = identify_request_value (header_name k)"
    unfolding identify_request_value_def by (simp only: c request_keys_def list.set insert_iff simp_thms)
  also have "\<dots> = k" by (cases k) (simp_all add: identify_request_value_def contains_find)
  finally show ?thesis .
qed

lemma header_name_word: "header_name k \<noteq> [] \<and> SP \<notin> set (header_name k)"
  by (cases k) auto

lemma parse_header_text:
  assumes "plain_header v"
  shows "parse_header (header_text (k, v)) h = Ret (set_header k v h)"
proof -
  have v: "value_of (header_name k @ SP # v) = v"
    using value_of_line [of "[]" "header_name k" v] header_name_word [of k] by simp
  show ?thesis
    by (cases k) (use v in \<open>simp_all add: header_text_def parse_header_def identify_header [OF assms]
      parse_string_value parse_number_value parse_requested_host_def parse_user_agent_def
      parse_accept_charset_def parse_accept_language_def parse_authorization_def
      parse_referer_def parse_content_length_def parse_content_type_def
      parse_content_language_def parse_content_location_def parse_special_x_header_def
      invalid_argument_def parse_invalid_def del: header_name.simps\<close>)
qed

definition set_headers :: "(request_value \<times> string) list \<Rightarrow> header_handler \<Rightarrow> header_handler" where
  "set_headers hs h = foldl (\<lambda>h (k, v). set_header k v h) h hs"

lemma parse_headers_text:
  "\<forall>(k, v)\<in>set hs. plain_header v \<Longrightarrow> parse_headers (map header_text hs) h = Ret (set_headers hs h)"
  by (induction hs arbitrary: h)
    (auto simp: set_headers_def parse_header_text split: prod.splits)

lemma parse_headers_append:
  "parse_headers (xs @ ys) h = rbind (parse_headers xs h) (parse_headers ys)"
proof (induction xs arbitrary: h)
  case (Cons x xs)
  then show ?case by (cases "parse_header x h") simp_all
qed simp

lemma identify_plain_header: "plain_header s \<Longrightarrow> identify_request_value s = R_unknown"
  by (simp add: plain_header_def request_keys_def identify_request_value_def)

lemma parse_header_plain: "plain_header s \<Longrightarrow> parse_header s h = Ret h"
  by (simp add: parse_header_def identify_plain_header invalid_argument_def parse_invalid_def)

lemma plain_header_Nil: "plain_header []"
  by (simp add: plain_header_def request_keys_def contains_find)

lemma find_later:
  assumes "c \<notin> set b"
  shows "find_first_of (a @ b @ c # d) c (Some (length a)) = Some (length a + length b)"
proof -
  have "find_idx (\<lambda>x. x = c) (b @ c # d) = Some (length b)"
    using assms by (intro find_idx_first) auto
  then show ?thesis by (simp add: find_first_of_def find_pred_def)
qed

lemma parse_first_line_text:
  assumes m: "SP \<notin> set m" "take 1 m \<noteq> [LF]" and u: "SP \<notin> set u" and q: "CHR ''?'' \<notin> set (u @ p)"
  shows "parse_first_line (m @ SP # u @ SP # p) h
    = Ret (h\<lparr>hh_method := m, hh_uri_location := u, hh_protocol := p\<rparr>)"
proof -
  let ?s = "m @ SP # u @ SP # p"
  have st: "take 1 ?s \<noteq> [LF]" using m by (cases m) auto
  have f1: "find_first_of ?s SP (Some 0) = Some (length m)" by (rule find_sep [OF m(1)])
  have f2: "find_first_of ?s SP (Some (length m + 1)) = Some (length m + 1 + length u)"
    using find_later [of SP u "m @ [SP]" p] u by simp
  have "\<not> sublist ''?'' (u @ SP # p)" using q by (auto dest!: set_mono_sublist)
  then have "find_sub ?s ''?'' (Some (length m + 1)) = None"
    by (simp add: find_sub_def find_sub_idx_None_iff)
  with f1 f2 st show ?thesis unfolding parse_first_line_def Let_def
    by (simp add: pos_of_int_def)
qed

lemma parse_first_line_query:
  assumes m: "SP \<notin> set m" "take 1 m \<noteq> [LF]" and u: "SP \<notin> set u" "CHR ''?'' \<notin> set u"
    and b: "SP \<notin> set b"
  shows "parse_first_line (m @ SP # u @ CHR ''?'' # b @ SP # p) h
    = Ret (h\<lparr>hh_method := m, hh_uri_location := u, hh_body := b, hh_protocol := p\<rparr>)"
proof -
  let ?s = "m @ SP # u @ CHR ''?'' # b @ SP # p"
  have st: "take 1 ?s \<noteq> [LF]" using m by (cases m) auto
  have f1: "find_first_of ?s SP (Some 0) = Some (length m)" by (rule find_sep [OF m(1)])
  have f2: "find_first_of ?s SP (Some (length m + 1)) = Some (length m + 1 + length u + 1 + length b)"
    using find_later [of SP "u @ CHR ''?'' # b" "m @ [SP]" p] u b by simp
  have "find_sub_idx ''?'' (u @ CHR ''?'' # b @ SP # p) = Some (length u)"
  proof (rule find_sub_idx_eqI)
    fix j assume "j < length u"
    then have "(u @ CHR ''?'' # b @ SP # p) ! j \<noteq> CHR ''?''" "j < length (u @ CHR ''?'' # b @ SP # p)"
      using u(2) by (auto simp: nth_append in_set_conv_nth)
    then show "\<not> prefix ''?'' (drop j (u @ CHR ''?'' # b @ SP # p))"
      by (subst Cons_nth_drop_Suc [symmetric]) auto
  qed simp_all
  then have "find_sub ?s ''?'' (Some (length m + 1)) = Some (length m + 1 + length u)"
    by (simp add: find_sub_def)
  with f1 f2 st show ?thesis unfolding parse_first_line_def Let_def
    by (simp add: pos_of_int_def nat_add_distrib numeral_eq_Suc)
qed

section \<open>A request printed and read back\<close>

definition request_text :: "string \<Rightarrow> (request_value \<times> string) list \<Rightarrow> string" where
  "request_text line hs = join CRLF (line # map header_text hs @ [[], []])"

definition header_values_ok :: "(request_value \<times> string) list \<Rightarrow> bool" where
  "header_values_ok hs \<longleftrightarrow> (\<forall>(k, v)\<in>set hs. plain_header v \<and> CR \<notin> set v)"

lemma str_to_vector_request:
  assumes "CR \<notin> set line" "header_values_ok hs"
  shows "str_to_vector (request_text line hs) = Ret (line # map header_text hs @ [[], []])"
proof -
  have "CR \<notin> set (header_text kv)" if "kv \<in> set hs" for kv
  proof -
    have "CR \<notin> set (header_name (fst kv))" by (cases "fst kv") simp_all
    with that assms(2) show ?thesis by (auto simp: header_text_def header_values_ok_def)
  qed
  with assms(1) show ?thesis unfolding request_text_def str_to_vector_def
    by (subst str_to_vector_loop_join) auto
qed

lemma parse_request_text:
  assumes "rb_headers r = request_text line hs" "line \<noteq> []" "CR \<notin> set line" "plain_header line"
    and "header_values_ok hs" and "parse_first_line line (reset_handler h) = Ret h'"
  shows "parse_request r h = parse_body r (set_headers hs h')"
proof -
  have "parse_headers (line # map header_text hs @ [[], []]) h' = Ret (set_headers hs h')"
  proof -
    have "\<forall>(k, v)\<in>set hs. plain_header v" using assms(5) by (auto simp: header_values_ok_def)
    from parse_headers_text [OF this, of h'] assms(4) plain_header_Nil show ?thesis
      by (simp add: parse_header_plain parse_headers_append)
  qed
  with assms str_to_vector_request [OF assms(3,5)] show ?thesis
    by (simp add: parse_request_def del: parse_headers.simps)
qed

lemma set_header_body [simp]: "hh_body (set_header k v h) = hh_body h"
  by (cases k) simp_all

lemma set_headers_body [simp]: "hh_body (set_headers hs h) = hh_body h"
proof (induction hs arbitrary: h)
  case (Cons kv hs)
  then show ?case by (cases kv) (simp add: set_headers_def)
qed (simp add: set_headers_def)

section \<open>One chunk\<close>

lemma find_CRLF_after:
  assumes "CR \<notin> set l"
  shows "find_sub (a @ l @ CRLF @ t) CRLF (Some (length a)) = Some (length a + length l)"
proof -
  have "find_sub_idx CRLF (l @ CRLF @ t) = Some (length l)"
    using assms by (induction l) auto
  then show ?thesis by (simp add: find_sub_def)
qed

lemma chunk_round_at:
  assumes "CR \<notin> set l" and small: "length (a @ l @ CRLF @ t) < 1000000000"
  shows "chunk_round (a @ l @ CRLF @ t) (int (length a))
    = (if hex_to_dec l 16 = 0 then Ret None
       else rbind (substr (a @ l @ CRLF @ t) (Some (length l + 2)) (pos_of_int (hex_to_dec l 16))) (\<lambda>c.
            Ret (Some (c, wrap32 (int (length a + length l) + hex_to_dec l 16 + 4)))))"
proof -
  have w: "wrap32 (int (length l)) = int (length l)"
    "wrap32 (int (length l) + 2) = int (length l) + 2"
    using small by (auto intro!: wrap32_id simp: int32_def)
  from find_CRLF_after [OF assms(1), of a t] show ?thesis
    unfolding chunk_round_def Let_def
    by (simp add: pos_of_int_def w nat_add_distrib)
qed

lemma hex_zero: "hex_to_dec ''0'' 16 = 0"
  by (simp add: hex_to_dec_def)

lemma chunk_loop_single:
  assumes hs: "CR \<notin> set hs" "hex_to_dec hs 16 = int (length data)" "data \<noteq> []"
    and small: "length (hs @ CRLF @ data @ CRLF @ ''0'' @ CRLF2) < 1000000000"
  shows "chunk_loop (length (hs @ CRLF @ data @ CRLF @ ''0'' @ CRLF2) + 2)
    (hs @ CRLF @ data @ CRLF @ ''0'' @ CRLF2) 0 acc = Some (Ret (acc @ data))"
proof (rule chunk_loop_result [where n = 2])
  let ?s = "hs @ CRLF @ data @ CRLF @ ''0'' @ CRLF2" and ?a = "hs @ CRLF @ data @ CRLF"
  have w: "wrap32 (int (length hs) + int (length data) + 4) = int (length ?a)"
    using small by (subst wrap32_id) (auto simp: int32_def)
  have "chunk_round ?s 0 = Ret (Some (data, int (length ?a)))"
    using chunk_round_at [OF hs(1), of "[]" "data @ CRLF @ ''0'' @ CRLF2"] small hs(2,3) w
    by (simp add: pos_of_int_def)
  moreover have "chunk_round ?s (int (length ?a)) = Ret None"
    using chunk_round_at [of "''0''" ?a CRLF] small hex_zero by simp
  ultimately show "chunk_loop 2 ?s 0 acc = Some (Ret (acc @ data))"
    by (simp add: numeral_2_eq_2)
qed

lemma chunk_loop_two:
  assumes l1: "CR \<notin> set l1" "hex_to_dec l1 16 = int (length d1)" "d1 \<noteq> []"
    and l2: "CR \<notin> set l2" "hex_to_dec l2 16 = int (length d2)" "d2 \<noteq> []"
    and s: "s = l1 @ CRLF @ d1 @ CRLF @ l2 @ CRLF @ d2 @ CRLF @ ''0'' @ CRLF2"
    and small: "length s < 1000000000"
  shows "chunk_loop (length s + 2) s 0 acc
    = Some (Ret (acc @ d1 @ take (length d2) (drop (length l2 + 2) s)))"
proof (rule chunk_loop_result [where n = 3])
  let ?a = "l1 @ CRLF @ d1 @ CRLF" and ?t = "d2 @ CRLF @ ''0'' @ CRLF2"
  let ?b = "?a @ l2 @ CRLF @ d2 @ CRLF"
  have w: "wrap32 (int (length l1) + int (length d1) + 4) = int (length ?a)"
    "wrap32 (int (length ?a) + int (length l2) + int (length d2) + 4) = int (length ?b)"
    using small s by (auto intro!: wrap32_id [THEN trans] simp: int32_def)
  have "chunk_round s 0 = Ret (Some (d1, int (length ?a)))"
    using chunk_round_at [OF l1(1), of "[]" "d1 @ CRLF @ l2 @ CRLF @ ?t"] small l1(2,3) w(1) s
    by (simp add: pos_of_int_def)
  moreover have "chunk_round s (int (length ?a))
      = Ret (Some (take (length d2) (drop (length l2 + 2) s), int (length ?b)))"
  proof -
    have se: "s = ?a @ l2 @ CRLF @ ?t" using s by simp
    have "length l2 + 2 \<le> length s" using s by simp
    moreover have "wrap32 (int (length ?a + length l2) + int (length d2) + 4) = int (length ?b)"
      using w(2) by (simp add: add.assoc)
    ultimately show ?thesis
      using chunk_round_at [OF l2(1), of ?a ?t] small l2(2,3) unfolding se [symmetric]
      by (simp add: pos_of_int_def)
  qed
  moreover have "chunk_round s (int (length ?b)) = Ret None"
  proof -
    have se: "s = ?b @ ''0'' @ CRLF @ CRLF" using s by simp
    show ?thesis using chunk_round_at [of "''0''" ?b CRLF] small hex_zero
      unfolding se [symmetric] by simp
  qed
  ultimately show "chunk_loop 3 s 0 acc
      = Some (Ret (acc @ d1 @ take (length d2) (drop (length l2 + 2) s)))"
    by (simp add: numeral_3_eq_3)
qed

section \<open>Properties\<close>

text \<open>
  C9. Parsing undoes printing for a request with a \<^verbatim>\<open>Content-Length\<close>: method, target,
  protocol and every header get the values printed, whatever the handler held before, and
  the body is what the buffer holds.
\<close>

theorem parse_request_roundtrip:
  assumes "rb_headers r = request_text (m @ SP # u @ SP # p) hs" "header_values_ok hs"
    and "SP \<notin> set m" "take 1 m \<noteq> [LF]" "SP \<notin> set u" "CHR ''?'' \<notin> set (u @ p)"
    and "CR \<notin> set (m @ u @ p)" "plain_header (m @ SP # u @ SP # p)"
    and h': "h' = set_headers hs ((reset_handler h)\<lparr>hh_method := m, hh_uri_location := u, hh_protocol := p\<rparr>)"
    and "hh_content_length h' \<noteq> 0"
  shows "parse_request r h = Ret (h'\<lparr>hh_body := concat (rb_body r)\<rparr>)"
proof -
  have "parse_request r h = parse_body r h'"
    unfolding h' using assms(1,2,7,8) parse_first_line_text [OF assms(3-6), of "reset_handler h"]
    by (intro parse_request_text) auto
  moreover have "hh_body h' = []" unfolding h' by (simp add: reset_handler_def)
  ultimately show ?thesis using assms(10) by (simp add: parse_body_def)
qed

theorem parse_request_roundtrip_witness:
  "\<exists>h. parse_request \<lparr>rb_headers = ''POST /a HTTP/1.1'' @ CRLF @ ''Host: b'' @ CRLF
       @ ''Content-Length: 2'' @ CRLF2, rb_body = [''x'', ''y''], rb_body_size = 2\<rparr> header_handler_init = Ret h
     \<and> hh_method h = ''POST'' \<and> hh_uri_location h = ''/a'' \<and> hh_requested_host h = ''b''
     \<and> hh_content_length h = 2 \<and> hh_body h = ''xy''"
proof -
  let ?hs = "[(R_requested_host, ''b''), (R_content_length, ''2'')]"
  let ?h = "set_headers ?hs ((reset_handler header_handler_init)\<lparr>hh_method := ''POST'',
    hh_uri_location := ''/a'', hh_protocol := ''HTTP/1.1''\<rparr>)"
  have "ft_atoi (c_str ''2'') = 2"
    by (simp add: c_str_def ft_atoi_def is_blank_def is_digit_def schar_def wrap32_def)
  then have cl: "hh_content_length ?h = 2" by (simp add: set_headers_def)
  have p: "plain_header ''POST /a HTTP/1.1'' \<and> header_values_ok ?hs"
    by (simp add: plain_header_def header_values_ok_def request_keys_def contains_find)
  have t: "''POST /a HTTP/1.1'' @ CRLF @ ''Host: b'' @ CRLF @ ''Content-Length: 2'' @ CRLF2
      = request_text ''POST /a HTTP/1.1'' ?hs" by (simp add: request_text_def header_text_def)
  show ?thesis
    using parse_request_roundtrip [of "\<lparr>rb_headers = request_text ''POST /a HTTP/1.1'' ?hs,
        rb_body = [''x'', ''y''], rb_body_size = 2\<rparr>" "''POST''" "''/a''" "''HTTP/1.1''" ?hs ?h
        header_handler_init] cl p
    unfolding t by (simp add: set_headers_def)
qed

text \<open>
  A chunked body of one chunk is decoded: the loop takes exactly the data between the
  size line and the last chunk.
\<close>

theorem parse_body_single_chunk:
  assumes "hh_content_length h = 0"
    and "concat (rb_body r) = size_line @ CRLF @ data @ CRLF @ ''0'' @ CRLF2"
    and "\<forall>c\<in>set size_line. hex_digit c" "length size_line \<le> 7"
    and "hex_value size_line = int (length data)" "data \<noteq> []"
  shows "parse_body r h = Ret (h\<lparr>hh_body := hh_body h @ data\<rparr>)"
proof -
  have "CR \<notin> set size_line" using assms(3) by (auto simp: hex_digit_def schar_def)
  moreover have v: "hex_to_dec size_line 16 = int (length data)"
    using hex_to_dec_value [OF assms(3,4)] assms(5) by simp
  moreover have "length data < 268435456"
  proof -
    have "(16::int) ^ length size_line \<le> 16 ^ 7" using assms(4) by (intro power_increasing) auto
    moreover have "int (length data) < 16 ^ length size_line"
      using hex_value_bounds [OF assms(3)] assms(5) by linarith
    ultimately have "int (length data) < 16 ^ 7" by linarith
    then show ?thesis by simp
  qed
  ultimately show ?thesis
    using chunk_loop_single [of size_line data "hh_body h"] assms(1,2,4,6)
    by (simp add: parse_body_def Let_def del: chunk_loop.simps)
qed

theorem parse_body_single_chunk_witness:
  "parse_body \<lparr>rb_headers = [], rb_body = [''3'' @ CRLF @ ''abc'', CRLF @ ''0'' @ CRLF2],
      rb_body_size = 13\<rparr> header_handler_init
   = Ret (header_handler_init\<lparr>hh_body := ''abc''\<rparr>)"
  using parse_body_single_chunk [of header_handler_init "\<lparr>rb_headers = [],
      rb_body = [''3'' @ CRLF @ ''abc'', CRLF @ ''0'' @ CRLF2], rb_body_size = 13\<rparr>" "''3''" "''abc''"]
  by (simp add: header_handler_init_def hex_digit_def schar_def hex_value_def hex_val_def)

text \<open>
  The second chunk is read from the wrong place: its bytes are taken from the start of
  the body, behind as many characters as its own size line has, so with two size lines of
  one length the first chunk's data is repeated.
\<close>

theorem parse_body_second_chunk:
  assumes "hh_content_length h = 0"
    and "concat (rb_body r) = l1 @ CRLF @ d1 @ CRLF @ l2 @ CRLF @ d2 @ CRLF @ ''0'' @ CRLF2"
    and "CR \<notin> set l1" "hex_to_dec l1 16 = int (length d1)" "d1 \<noteq> []"
    and "CR \<notin> set l2" "hex_to_dec l2 16 = int (length d2)" "d2 \<noteq> []"
    and "length l1 = length l2" "length d2 \<le> length d1" "length (concat (rb_body r)) < 1000000000"
  shows "parse_body r h = Ret (h\<lparr>hh_body := hh_body h @ d1 @ take (length d2) d1\<rparr>)"
proof -
  have "take (length d2) (drop (length l2 + 2) (concat (rb_body r))) = take (length d2) d1"
    using assms(2,9,10) by simp
  then show ?thesis
    using chunk_loop_two [OF assms(3-8,2,11), of "hh_body h"] assms(1)
    by (simp add: parse_body_def Let_def del: chunk_loop.simps)
qed

theorem parse_body_second_chunk_witness:
  "parse_body \<lparr>rb_headers = [], rb_body = [''3'' @ CRLF @ ''abc'' @ CRLF @ ''3'' @ CRLF @ ''def'' @ CRLF
      @ ''0'' @ CRLF2], rb_body_size = 21\<rparr> header_handler_init
   = Ret (header_handler_init\<lparr>hh_body := ''abcabc''\<rparr>)"
proof -
  have "hex_to_dec ''3'' 16 = 3" by code_simp
  then show ?thesis
    using parse_body_second_chunk [of header_handler_init "\<lparr>rb_headers = [], rb_body = [''3'' @ CRLF
      @ ''abc'' @ CRLF @ ''3'' @ CRLF @ ''def'' @ CRLF @ ''0'' @ CRLF2], rb_body_size = 21\<rparr>"
      "''3''" "''abc''" "''3''" "''def''"]
    by (simp add: header_handler_init_def)
qed

text \<open>
  C37. A size line \<^verbatim>\<open>R\<close> (its digit value is negative and leads the loop back to where it
  was) makes parsing never return, whatever follows.
\<close>

theorem negative_chunk_never_returns:
  assumes "hh_content_length h = 0" "concat (rb_body r) = ''R'' @ CRLF @ rest"
    and "length rest < 100000000"
  shows "parse_body r h = Throw Never_Returns"
proof -
  let ?s = "''R'' @ CRLF @ rest"
  have hex: "hex_to_dec ''R'' 16 = -5" by code_simp
  have "chunk_round ?s 0 = Ret (Some (rest, 0))"
    using chunk_round_at [of "''R''" "[]" rest] assms(3) hex
    by (simp add: pos_of_int_def wrap32_def)
  then have "chunk_loop n ?s 0 acc = None" for n acc
    by (induction n arbitrary: acc) simp_all
  then show ?thesis using assms(1,2) by (simp add: parse_body_def Let_def del: chunk_loop.simps)
qed

theorem negative_chunk_never_returns_witness:
  "parse_body \<lparr>rb_headers = [], rb_body = [''R'' @ CRLF @ ''0'' @ CRLF2], rb_body_size = 8\<rparr>
     header_handler_init = Throw Never_Returns"
  by (rule negative_chunk_never_returns [where rest = "''0'' @ CRLF2"])
    (simp_all add: header_handler_init_def)

text \<open>
  One stray byte behind the headers of a request without a body, when it is no
  hexadecimal digit of the code, makes \<^verbatim>\<open>substr\<close> throw \<^verbatim>\<open>std::out_of_range\<close>, which the
  main loop does not catch.
\<close>

theorem stray_byte_throws:
  assumes "hh_content_length h = 0" "concat (rb_body r) = [x]" "16 \<le> hex_val x"
  shows "parse_body r h = Throw Out_Of_Range"
proof -
  have "x \<noteq> CHR ''0''" using assms(3) by (auto simp: hex_val_def schar_def)
  with assms(3) have hex: "hex_to_dec [x] 16 = -1"
    by (simp add: hex_to_dec_def)
  have "find_sub [x] CRLF p = None" for p
    by (auto simp: find_sub_def find_sub_idx_None_iff drop_Cons' split: option.splits
        dest: sublist_length_le)
  with hex have "chunk_round [x] 0 = Ret (Some ([], 2))" "chunk_round [x] 2 = Throw Out_Of_Range"
    by (simp_all add: chunk_round_def pos_of_int_def wrap32_def)
  then show ?thesis using assms(1,2) by (simp add: parse_body_def numeral_3_eq_3)
qed

theorem stray_byte_throws_witness:
  "parse_body \<lparr>rb_headers = [], rb_body = [''x''], rb_body_size = 1\<rparr> header_handler_init
   = Throw Out_Of_Range"
  by (rule stray_byte_throws [where x = "CHR ''x''"]) (simp add: header_handler_init_def, simp, code_simp)

end
