(* ===== verification/System.thy ===== *)
theory System
  imports FileLocation
begin

text \<open>
  The operating system, as the code sees it.  A system call appends itself to the history
  of calls, and its result is what the parameter \<open>os\<close> answers for that history, so every
  behaviour of the system is a value of the parameter.  \<open>io\<close> is the type of the operations
  that make calls: they get the system and the history, and give a result or an exception
  together with the new history.
\<close>

datatype open_flags =
  O_RDONLY | O_RDWR_TRUNC | O_RDWR_CREAT | O_RDWR_CREAT_TRUNC

datatype epoll_op = EPOLL_CTL_ADD | EPOLL_CTL_MOD | EPOLL_CTL_DEL

datatype syscall =
    Sys_Open string open_flags
  | Sys_Fcntl int
  | Sys_Remove string
  | Sys_Read int
  | Sys_Pread int int
  | Sys_Write int string
  | Sys_Close int
  | Sys_Accept int
  | Sys_Time
  | Sys_Date
  | Sys_Fstat int
  | Sys_Getcwd
  | Sys_Fork
  | Sys_Wait "exn + string list \<times> string list"
  | Sys_Socket
  | Sys_Bind int "16 word"
  | Sys_Listen int int
  | Sys_Select int "int set" "int set"
  | Sys_Epoll_Create
  | Sys_Epoll_Ctl epoll_op int int
  | Sys_Epoll_Wait
  | Sys_Setsockopt int
  | Sys_Accept4 int
  | Sys_Recv int
  | Sys_Send int string
  | Sys_Read_File string
  | Sys_File_Size string
  | Sys_Write_File string string
  | Sys_Patch_File string nat string
  | Sys_Run_Lister string
  | Sys_Pipe
  | Sys_Run_Cgi "string list" string
  | Sys_Calloc
  | Sys_Realpath string
  | Sys_Inet_Pton string
  | Sys_Connect int

type_synonym history = "syscall list"

record fs =
  fs_stat :: stat_fn
  fs_uninit :: "32 word"

record os =
  os_fs :: "history \<Rightarrow> fs"
  os_ok :: "history \<Rightarrow> bool"
  os_fd :: "history \<Rightarrow> int"
  os_data :: "history \<Rightarrow> string option"
  os_count :: "history \<Rightarrow> int"
  os_time :: "history \<Rightarrow> int"
  os_text :: "history \<Rightarrow> string"
  os_exit :: "history \<Rightarrow> int option"
  os_ready :: "history \<Rightarrow> (int set \<times> int set) option"
  os_events :: "history \<Rightarrow> int list"

type_synonym 'a io = "os \<Rightarrow> history \<Rightarrow> 'a res \<times> history"

definition io_of :: "'a res \<Rightarrow> 'a io" where
  "io_of r = (\<lambda>os t. (r, t))"

abbreviation io_return :: "'a \<Rightarrow> 'a io" where
  "io_return x \<equiv> io_of (Ret x)"

abbreviation io_throw :: "exn \<Rightarrow> 'a io" where
  "io_throw e \<equiv> io_of (Throw e)"

definition io_bind :: "'a io \<Rightarrow> ('a \<Rightarrow> 'b io) \<Rightarrow> 'b io" where
  "io_bind m f = (\<lambda>os t. case m os t of
     (Inl e, t') \<Rightarrow> (Inl e, t')
   | (Inr x, t') \<Rightarrow> f x os t')"

text \<open>A call and the answer to it.\<close>

definition call :: "(os \<Rightarrow> history \<Rightarrow> 'a) \<Rightarrow> syscall \<Rightarrow> 'a io" where
  "call answer c = (\<lambda>os t. (Ret (answer os (t @ [c])), t @ [c]))"

definition current_fs :: "fs io" where
  "current_fs = (\<lambda>os t. (Ret (os_fs os t), t))"

named_theorems io_simps

lemma io_bind_apply [io_simps]:
  "io_bind m f os t = (case m os t of (Inl e, t') \<Rightarrow> (Inl e, t') | (Inr x, t') \<Rightarrow> f x os t')"
  by (simp add: io_bind_def)

lemma io_of_apply [io_simps]: "io_of r os t = (r, t)"
  by (simp add: io_of_def)

lemma call_apply [io_simps]: "call answer c os t = (Ret (answer os (t @ [c])), t @ [c])"
  by (simp add: call_def)

lemma current_fs_apply [io_simps]: "current_fs os t = (Ret (os_fs os t), t)"
  by (simp add: current_fs_def)

lemmas io_base = io_of_apply call_apply current_fs_apply

lemma io_bind_of_Inr [simp]: "io_bind (io_of (Inr x)) f = f x"
  by (simp add: fun_eq_iff io_simps)

lemma io_bind_of_Inl [simp]: "io_bind (io_of (Inl e)) f = io_of (Inl e)"
  by (simp add: fun_eq_iff io_simps)

lemma io_bind_assoc: "io_bind (io_bind m f) g = io_bind m (\<lambda>x. io_bind (f x) g)"
  by (simp add: fun_eq_iff io_simps split: prod.splits sum.splits)

lemma io_bind_Ret:
  "io_bind m f os t = (Ret y, t') \<longleftrightarrow> (\<exists>x t1. m os t = (Ret x, t1) \<and> f x os t1 = (Ret y, t'))"
  by (auto simp: io_simps split: prod.splits sum.splits)

lemma io_bind_Inl:
  "io_bind m f os t = (Inl e, t') \<longleftrightarrow>
     m os t = (Inl e, t') \<or> (\<exists>x t1. m os t = (Ret x, t1) \<and> f x os t1 = (Inl e, t'))"
  by (auto simp: io_simps split: prod.splits sum.splits)

lemma io_bind_cases:
  assumes "io_bind m f os t = (r, t')"
  obtains (throws) e where "m os t = (Inl e, t')" "r = Inl e"
    | (runs) x t1 where "m os t = (Ret x, t1)" "f x os t1 = (r, t')"
  using assms by (auto simp: io_simps split: prod.splits sum.splits)

text \<open>Operations only add to the history, and a property of the calls they make is compositional.\<close>

definition makes :: "(syscall \<Rightarrow> bool) \<Rightarrow> 'a io \<Rightarrow> bool" where
  "makes P m \<longleftrightarrow> (\<forall>os t. \<exists>u. snd (m os t) = t @ u \<and> (\<forall>c\<in>set u. P c))"

named_theorems makes_intros

lemma makes_of [makes_intros]: "makes P (io_of r)"
  by (simp add: makes_def io_simps)

lemma makes_current_fs [makes_intros]: "makes P current_fs"
  by (simp add: makes_def io_simps)

lemma makes_call [makes_intros]: "P c \<Longrightarrow> makes P (call answer c)"
  by (simp add: makes_def io_simps)

lemma makes_bind [makes_intros]:
  assumes "makes P m" "\<And>x. makes P (f x)"
  shows "makes P (io_bind m f)"
  unfolding makes_def
proof (intro allI)
  fix os t
  obtain r t1 where m: "m os t = (r, t1)" by (cases "m os t")
  with assms(1) obtain u where u: "t1 = t @ u" "\<forall>c\<in>set u. P c"
    unfolding makes_def by (metis snd_conv)
  show "\<exists>u. snd (io_bind m f os t) = t @ u \<and> (\<forall>c\<in>set u. P c)"
  proof (cases r)
    case (Inl e)
    with m u show ?thesis by (auto simp: io_simps)
  next
    case (Inr x)
    with m assms(2) [of x] u obtain v where "snd (f x os t1) = t1 @ v" "\<forall>c\<in>set v. P c"
      unfolding makes_def by blast
    with m u Inr show ?thesis by (intro exI [of _ "u @ v"]) (auto simp: io_simps)
  qed
qed

lemma makes_if [makes_intros]: "makes P m \<Longrightarrow> makes P n \<Longrightarrow> makes P (if b then m else n)"
  by simp

lemma makes_if_cond:
  "(b \<Longrightarrow> makes P m) \<Longrightarrow> (\<not> b \<Longrightarrow> makes P n) \<Longrightarrow> makes P (if b then m else n)"
  by simp

lemma makes_value: "(\<And>x. r = Ret x \<Longrightarrow> makes P (f x)) \<Longrightarrow> makes P (io_bind (io_of r) f)"
  by (cases r) (simp_all add: makes_of)

lemma makesD: "makes P m \<Longrightarrow> m os t = (r, t') \<Longrightarrow> \<exists>u. t' = t @ u \<and> (\<forall>c\<in>set u. P c)"
  unfolding makes_def by (metis snd_conv)

lemma makes_mono: "makes P m \<Longrightarrow> (\<And>c. P c \<Longrightarrow> Q c) \<Longrightarrow> makes Q m"
  unfolding makes_def by meson

text \<open>What holds of every result an operation returns is compositional too.\<close>

definition results :: "('a \<Rightarrow> bool) \<Rightarrow> 'a io \<Rightarrow> bool" where
  "results P m \<longleftrightarrow> (\<forall>os t x t'. m os t = (Ret x, t') \<longrightarrow> P x)"

named_theorems results_intros

lemma resultsD: "results P m \<Longrightarrow> m os t = (Ret x, t') \<Longrightarrow> P x"
  unfolding results_def by blast

lemma results_of: "(\<And>x. r = Ret x \<Longrightarrow> P x) \<Longrightarrow> results P (io_of r)"
  by (simp add: results_def io_simps)

lemma results_return [results_intros]: "P x \<Longrightarrow> results P (io_return x)"
  by (rule results_of) simp

lemma results_throw [results_intros]: "results P (io_throw e)"
  by (rule results_of) simp

lemma results_bind:
  "results Q m \<Longrightarrow> (\<And>x. Q x \<Longrightarrow> results P (f x)) \<Longrightarrow> results P (io_bind m f)"
  unfolding results_def io_bind_Ret by blast

lemma results_any: "(\<And>x. results P (f x)) \<Longrightarrow> results P (io_bind m f)"
  unfolding results_def io_bind_Ret by blast

lemma results_value: "(\<And>x. r = Ret x \<Longrightarrow> results P (f x)) \<Longrightarrow> results P (io_bind (io_of r) f)"
  unfolding results_def io_bind_Ret io_of_apply by blast

lemma results_if [results_intros]:
  "(b \<Longrightarrow> results P m) \<Longrightarrow> (\<not> b \<Longrightarrow> results P n) \<Longrightarrow> results P (if b then m else n)"
  by simp

section \<open>Servers that loop\<close>

text \<open>The states and histories a program reaches that starts once and then repeats its round.\<close>

inductive loop_reaches :: "'s io \<Rightarrow> ('s \<Rightarrow> 's io) \<Rightarrow> os \<Rightarrow> 's \<Rightarrow> history \<Rightarrow> bool"
  for start :: "'s io" and turn :: "'s \<Rightarrow> 's io" and os :: os
where
  reaches_start: "start os [] = (Ret st, t) \<Longrightarrow> loop_reaches start turn os st t"
| reaches_turn: "loop_reaches start turn os st t \<Longrightarrow> turn st os t = (Ret st', t') \<Longrightarrow> loop_reaches start turn os st' t'"

text \<open>An invariant of such a program: the start establishes it, every round keeps it.\<close>

locale server_loop =
  fixes start :: "'s io" and turn :: "'s \<Rightarrow> 's io" and os :: os and I :: "'s \<Rightarrow> history \<Rightarrow> bool"
  assumes start_holds: "start os [] = (Ret st, t) \<Longrightarrow> I st t"
    and turn_keeps: "I st t \<Longrightarrow> turn st os t = (Ret st', t') \<Longrightarrow> I st' t'"
begin

lemma reached: "loop_reaches start turn os st t \<Longrightarrow> I st t"
  by (induction rule: loop_reaches.induct) (auto intro: start_holds turn_keeps)

end

end
