(* ===== verification/RequestResolver.thy ===== *)
theory RequestResolver
  imports RequestParser System Base64 Response
begin

text \<open>
  The deciding half of \<^verbatim>\<open>header_handler\<close>: which file answers a request
  (\<^verbatim>\<open>match_location_block\<close> and what it calls), whether the method is allowed, and whether
  the client is authorised.  The file system is the record \<open>fs\<close> of theory \<open>System\<close>; it does not change
  while one request is resolved.  \<open>fs_uninit\<close> is what an unset \<^verbatim>\<open>struct stat\<close> on the stack
  holds as its mode.
\<close>

section \<open>Paths\<close>

text \<open>A host that does not occur gives \<^verbatim>\<open>-1 + length\<close> as the start.\<close>

definition get_referer_part :: "header_handler \<Rightarrow> string res" where
  "get_referer_part h =
     (if hh_referer h = [] then Ret []
      else let start = int_of_pos (find_sub (hh_referer h) (hh_requested_host h) (Some 0))
                       + int (length (hh_requested_host h))
           in substr (hh_referer h) (pos_of_int start) None)"

definition get_extension :: "string \<Rightarrow> string res" where
  "get_extension uri_location =
     (let start = int_of_pos (find_last_of uri_location CHR ''.'')
      in if start = -1 then Ret uri_location else substr uri_location (pos_of_int start) None)"

definition location_of_uploaded_file ::
  "fs \<Rightarrow> header_handler \<Rightarrow> location_context \<Rightarrow> string \<Rightarrow> string \<Rightarrow> string \<Rightarrow> string res" where
  "location_of_uploaded_file fs h location_block root uri_location extension =
     rbind (get_first_directory uri_location) (\<lambda>location_from_uri.
     let directory = (if contains uri_location ''directory'' then root else root @ location_from_uri);
         s = fs_stat fs (c_str directory);
         here = (location_from_uri = loc_context location_block);
         result = (case s of
             Some mode \<Rightarrow> if mode_has mode S_IFDIR \<and> here then root @ uri_location else ''not found''
           | None \<Rightarrow> ''not found'');
         mode = (case s of Some m \<Rightarrow> m | None \<Rightarrow> fs_uninit fs)
     in Ret (if mode_has mode S_IFREG \<and> here \<and> hh_method h = ''POST'' \<and> extension = ''.bla''
             then root else result))"

definition is_upload :: "header_handler \<Rightarrow> string \<Rightarrow> bool" where
  "is_upload h extension \<longleftrightarrow> hh_method h = ''PUT''
     \<or> hh_method h = ''POST'' \<and> (extension \<noteq> ''.php'' \<or> extension = ''.bla'')"

text \<open>A referer that names a file stands for its directory.\<close>

definition referer_directory :: "fs \<Rightarrow> string \<Rightarrow> string res" where
  "referer_directory fs result =
     (case fs_stat fs (c_str result) of
        Some mode \<Rightarrow> if mode_has mode S_IFREG
                     then substr result (Some 0) (pos_of_int (int_of_pos (find_last_of result SLASH)))
                     else Ret result
      | None \<Rightarrow> Ret result)"

text \<open>What one location block makes of the request, after its settings were taken over.\<close>

definition try_location ::
  "fs \<Rightarrow> header_handler \<Rightarrow> location_context \<Rightarrow> string \<Rightarrow> string \<Rightarrow> string \<Rightarrow> string res" where
  "try_location fs h block extension referer_location uri_location =
     rbind (if hh_referer h \<noteq> []
            then referer_directory fs (loc_root block @ referer_location)
            else Ret (loc_root block)) (\<lambda>result.
     rbind (get_first_directory uri_location) (\<lambda>first.
     rbind (if loc_alias block \<and> loc_context block = first
            then rbind (skip_first_directory uri_location) (\<lambda>rest. Ret (result @ rest))
            else if is_upload h extension then Ret result
            else Ret (result @ uri_location)) (\<lambda>result.
     if is_upload h extension
     then location_of_uploaded_file fs h block result uri_location extension
     else Ret (get_file (fs_stat fs) block result))))"

definition take_settings :: "int \<Rightarrow> location_context \<Rightarrow> header_handler \<Rightarrow> header_handler" where
  "take_settings index block h = h\<lparr>hh_max_file_size := loc_max_file_size block,
     hh_allow := loc_allowed_method block, hh_location_block_root := loc_root block,
     hh_location_index := index\<rparr>"

fun match_blocks ::
  "fs \<Rightarrow> string \<Rightarrow> string \<Rightarrow> string \<Rightarrow> int \<Rightarrow> location_context list \<Rightarrow> header_handler \<Rightarrow>
     (string \<times> header_handler) res" where
  "match_blocks fs extension referer_location uri_location index [] h =
     Ret (''not found'', h\<lparr>hh_allow := ''GET'' # (if hh_method h = ''DELETE'' then [''DELETE''] else [])\<rparr>)"
| "match_blocks fs extension referer_location uri_location index (block # blocks) h =
     (if hh_uri_location h = loc_context block \<and> loc_return block \<noteq> []
      then Ret (''http redirect'', h\<lparr>hh_status := fst (hd (loc_return block)),
                  hh_file_location := snd (hd (loc_return block))\<rparr>)
      else let h = take_settings index block h in
           rbind (try_location fs h block extension referer_location uri_location) (\<lambda>result.
           if result \<noteq> ''not found'' then Ret (result, h)
           else match_blocks fs extension referer_location uri_location (index + 1) blocks h))"

definition match_location_block ::
  "fs \<Rightarrow> location_context list \<Rightarrow> string \<Rightarrow> header_handler \<Rightarrow> (string \<times> header_handler) res" where
  "match_location_block fs location_blocks uri_location h =
     rbind (get_extension uri_location) (\<lambda>extension.
     rbind (get_referer_part h) (\<lambda>referer_location.
     match_blocks fs extension (remove_duplicate_forward_slashes referer_location)
       (remove_duplicate_forward_slashes uri_location) 0 location_blocks h))"

definition generate_error_page_location :: "header_handler \<Rightarrow> string \<Rightarrow> string res" where
  "generate_error_page_location h error_page =
     rbind (base_name (hh_uri_location h)) (\<lambda>temp. Ret (error_page @ temp))"

definition verify_file_location ::
  "fs \<Rightarrow> location_context list \<Rightarrow> string \<Rightarrow> header_handler \<Rightarrow> header_handler res" where
  "verify_file_location fs location_blocks error_page h =
     rbind (match_location_block fs location_blocks (hh_uri_location h) h) (\<lambda>(result, h).
     if result = ''not found''
     then rbind (generate_error_page_location h error_page) (\<lambda>l.
          Ret (h\<lparr>hh_file_location := remove_duplicate_forward_slashes l, hh_location_index := -1\<rparr>))
     else if result = ''http redirect'' then Ret h
     else Ret (h\<lparr>hh_file_location := remove_duplicate_forward_slashes result\<rparr>))"

section \<open>Methods and content types\<close>

definition content_extensions :: "string list" where
  "content_extensions = [''html'', ''php'', ''css'', ''ico'', ''png'', ''bla'']"

fun first_extension :: "string \<Rightarrow> string list \<Rightarrow> string" where
  "first_extension location [] = ''folder''"
| "first_extension location (e # es) =
     (if contains location e then e else first_extension location es)"

definition verify_content_type :: "header_handler \<Rightarrow> string" where
  "verify_content_type h = first_extension (hh_file_location h) content_extensions"

definition verify_method :: "header_handler \<Rightarrow> header_handler" where
  "verify_method h =
     (if hh_status h = 301 \<or> hh_status h = 307 then h
      else if hh_method h = ''POST'' \<and> verify_content_type h = ''bla'' then h
      else if hh_method h \<in> set (hh_allow h) then h
      else h\<lparr>hh_status := 405\<rparr>)"

section \<open>Authorisation\<close>

fun check_users :: "string \<Rightarrow> string \<Rightarrow> string list \<Rightarrow> bool res" where
  "check_users auth_username auth_password [] = Ret False"
| "check_users auth_username auth_password (entry # entries) =
     (case find_sub entry '':'' (Some 0) of
        None \<Rightarrow> Ret False
      | Some d \<Rightarrow>
          rbind (substr entry (Some 0) (Some d)) (\<lambda>username.
          rbind (substr entry (Some (d + 1)) None) (\<lambda>password.
          if username = auth_username \<and> base64_decode password = auth_password then Ret True
          else check_users auth_username auth_password entries)))"

definition validate_user_password :: "string list \<Rightarrow> string \<Rightarrow> bool res" where
  "validate_user_password correct_passwd authorization =
     (case find_sub authorization ''Basic'' (Some 0) of
        None \<Rightarrow> Ret False
      | Some start \<Rightarrow>
          rbind (substr authorization (Some (start + 6)) None) (\<lambda>auth_passwd.
          let decoded = base64_decode (c_str auth_passwd) in
          case find_sub decoded '':'' (Some 0) of
            None \<Rightarrow> Ret False
          | Some division \<Rightarrow>
              rbind (substr decoded (Some 0) (Some division)) (\<lambda>auth_username.
              rbind (substr decoded (Some (division + 1)) None) (\<lambda>auth_password.
              check_users auth_username auth_password correct_passwd))))"

definition verify_authorization ::
  "location_context \<Rightarrow> header_handler \<Rightarrow> bool \<Rightarrow> (header_handler \<times> bool) res" where
  "verify_authorization location_block h authorization_status =
     (if 300 \<le> hh_status h \<and> hh_status h \<le> 310 then Ret (h, authorization_status)
      else if loc_auth_basic location_block \<noteq> ''off'' \<and> \<not> authorization_status
      then if hh_authorization h = []
           then Ret (h\<lparr>hh_status := 401, hh_auth_basic := loc_auth_basic location_block\<rparr>,
                     authorization_status)
           else rbind (validate_user_password (loc_auth_user_info location_block) (hh_authorization h))
                  (\<lambda>ok. Ret (if ok then (h\<lparr>hh_status := 200\<rparr>, True) else (h\<lparr>hh_status := 403\<rparr>, False)))
      else Ret (h, authorization_status))"

section \<open>Credentials\<close>

abbreviation text_bytes :: "string \<Rightarrow> byte list" where
  "text_bytes \<equiv> map char_byte"

lemma decode_text [simp]: "base64_decode (base64_encode (text_bytes s)) = s"
  by (simp add: base64_roundtrip o_def)

lemma base64_no_NUL: "NUL \<notin> set (base64_encode bs)"
proof -
  have "\<not> (is_base64 NUL \<or> NUL = CHR ''='')" by code_simp
  then show ?thesis using base64_alphabet [of bs] by (auto simp: list_all_iff)
qed

text \<open>A line of the user file and a header, as the server expects them.\<close>

definition user_entry :: "string \<times> string \<Rightarrow> string" where
  "user_entry up = fst up @ CHR '':'' # base64_encode (text_bytes (snd up))"

definition basic_credentials :: "string \<Rightarrow> string \<Rightarrow> string" where
  "basic_credentials u p = ''Basic '' @ base64_encode (text_bytes (u @ CHR '':'' # p))"

lemma find_colon: "CHR '':'' \<notin> set u \<Longrightarrow> find_sub (u @ CHR '':'' # p) '':'' (Some 0) = Some (length u)"
  unfolding find_sub_0 find_sub_idx_char by (intro find_idx_first) auto

lemma check_users_entries:
  assumes "\<forall>up\<in>set creds. CHR '':'' \<notin> set (fst up)"
  shows "check_users u p (map user_entry creds) = Ret ((u, p) \<in> set creds)"
  using assms
proof (induction creds)
  case (Cons c creds)
  obtain a b where c: "c = (a, b)" by (cases c)
  with Cons.prems have "find_sub (user_entry c) '':'' (Some 0) = Some (length a)"
    by (simp add: user_entry_def find_colon)
  with Cons c show ?case by (auto simp: user_entry_def)
qed simp

lemma validate_credentials:
  assumes "\<forall>up\<in>set creds. CHR '':'' \<notin> set (fst up)" "CHR '':'' \<notin> set u"
  shows "validate_user_password (map user_entry creds) (basic_credentials u p) = Ret ((u, p) \<in> set creds)"
proof -
  have b: "find_sub (basic_credentials u p) ''Basic'' (Some 0) = Some 0"
    by (simp add: find_sub_0 basic_credentials_def)
  have d: "drop 6 (basic_credentials u p) = base64_encode (text_bytes (u @ CHR '':'' # p))"
    "6 \<le> length (basic_credentials u p)" by (simp_all add: basic_credentials_def)
  show ?thesis
    unfolding validate_user_password_def b
    using d base64_no_NUL find_colon [OF assms(2), of p] check_users_entries [OF assms(1)]
    by (simp add: c_str_id del: list.map map_append)
qed

section \<open>The matching block\<close>

definition settings_of :: "location_context \<Rightarrow> int \<Rightarrow> header_handler \<Rightarrow> bool" where
  "settings_of block i h \<longleftrightarrow> hh_location_index h = i \<and> hh_allow h = loc_allowed_method block
     \<and> hh_max_file_size h = loc_max_file_size block \<and> hh_location_block_root h = loc_root block"

lemma take_settings_of [simp]: "settings_of block i (take_settings i block h)"
  by (simp add: settings_of_def take_settings_def)

lemma match_blocks_settings:
  assumes "match_blocks fs ext ref uri i blocks h = Ret (result, h')"
    and "result \<noteq> ''not found''" "result \<noteq> ''http redirect''"
  shows "\<exists>j < length blocks. settings_of (blocks ! j) (i + int j) h' \<and> hh_status h' = hh_status h
    \<and> try_location fs h' (blocks ! j) ext ref uri = Ret result"
  using assms
proof (induction fs ext ref uri i blocks h rule: match_blocks.induct)
  case (2 fs ext ref uri i block blocks h)
  let ?h = "take_settings i block h"
  from 2(2-) obtain r where r: "try_location fs ?h block ext ref uri = Ret r"
    by (auto simp: rbind_eq_Inr Let_def split: if_splits)
  show ?case
  proof (cases "r = ''not found''")
    case True
    with 2(2-) r have "match_blocks fs ext ref uri (i + 1) blocks ?h = Ret (result, h')"
      "\<not> (hh_uri_location h = loc_context block \<and> loc_return block \<noteq> [])"
      by (auto simp: Let_def split: if_splits)
    with 2(1) [OF this(2) refl r] 2(3,4) True obtain j where "j < length blocks"
      "settings_of (blocks ! j) (i + 1 + int j) h'" "hh_status h' = hh_status ?h"
      "try_location fs h' (blocks ! j) ext ref uri = Ret result" by auto
    then show ?thesis by (intro exI [of _ "Suc j"]) (simp add: take_settings_def add.assoc)
  next
    case False
    with 2(2-) r have "h' = ?h" "result = r" by (auto simp: Let_def split: if_splits)
    with r show ?thesis by (intro exI [of _ 0]) (simp add: take_settings_def settings_of_def)
  qed
qed simp

section \<open>Properties\<close>

text \<open>
  C15. Basic authorisation accepts exactly the pairs of the user file: for a file of
  entries \<open>user:base64 (password)\<close> and a request with the credentials of \<open>(u, p)\<close>, the check
  returns whether \<open>(u, p)\<close> is in the file.
\<close>

theorem validate_user_password_correct:
  assumes "\<forall>up\<in>set creds. CHR '':'' \<notin> set (fst up)" "CHR '':'' \<notin> set u"
  shows "validate_user_password (map user_entry creds) (basic_credentials u p)
     = Ret ((u, p) \<in> set creds)"
  using assms by (rule validate_credentials)

theorem validate_user_password_correct_witness:
  "validate_user_password (map user_entry [(''roy'', ''pw''), (''gb'', ''s:x'')]) (basic_credentials ''gb'' ''s:x'')
     = Ret True"
  using validate_user_password_correct [of "[(''roy'', ''pw''), (''gb'', ''s:x'')]" "''gb''" "''s:x''"]
  by simp

text \<open>
  An \<^verbatim>\<open>Authorization\<close> header that ends with the word \<^verbatim>\<open>Basic\<close> throws
  \<^verbatim>\<open>std::out_of_range\<close> out of the check, whatever the user file holds.
\<close>

theorem bare_basic_throws:
  assumes "loc_auth_basic block \<noteq> ''off''" "hh_status h < 300"
    and "hh_authorization h = pre @ ''Basic''" "find_sub_idx ''Basic'' (hh_authorization h) = Some (length pre)"
  shows "verify_authorization block h False = Throw Out_Of_Range"
  using assms by (auto simp: verify_authorization_def validate_user_password_def find_sub_0)

theorem bare_basic_throws_witness:
  "verify_authorization (location_context_init\<lparr>loc_auth_basic := ''members''\<rparr>)
     (header_handler_init\<lparr>hh_authorization := ''Basic''\<rparr>) False = Throw Out_Of_Range"
  by (rule bare_basic_throws [where pre = "[]"])
    (simp_all add: location_context_init_def header_handler_init_def)

text \<open>
  Valid credentials override the method check: a request whose method the location
  does not allow leaves \<^verbatim>\<open>verify_method\<close> with status 405 and \<^verbatim>\<open>verify_authorization\<close> with 200.
\<close>

theorem credentials_override_method:
  assumes "hh_method h \<notin> set (hh_allow h)" "\<not> (hh_method h = ''POST'' \<and> verify_content_type h = ''bla'')"
    and "hh_status h \<noteq> 301" "hh_status h \<noteq> 307" "loc_auth_basic block \<noteq> ''off''"
    and "loc_auth_user_info block = map user_entry creds" "(u, p) \<in> set creds"
    and "\<forall>up\<in>set creds. CHR '':'' \<notin> set (fst up)"
    and "hh_authorization h = basic_credentials u p"
  shows "hh_status (verify_method h) = 405
     \<and> verify_authorization block (verify_method h) False = Ret (h\<lparr>hh_status := 200\<rparr>, True)"
proof -
  have "CHR '':'' \<notin> set u" using assms(7,8) by fastforce
  from validate_credentials [OF assms(8) this, of p] assms show ?thesis
    by (auto simp: verify_method_def verify_authorization_def basic_credentials_def)
qed

theorem credentials_override_method_witness:
  "\<exists>h. hh_method h = ''DELETE'' \<and> hh_allow h = [''GET''] \<and> hh_status (verify_method h) = 405
     \<and> verify_authorization (location_context_init\<lparr>loc_auth_basic := ''members'',
          loc_auth_user_info := map user_entry [(''roy'', ''pw'')]\<rparr>) (verify_method h) False
       = Ret (h\<lparr>hh_status := 200\<rparr>, True)"
proof -
  let ?h = "header_handler_init\<lparr>hh_method := ''DELETE'', hh_allow := [''GET''],
    hh_authorization := basic_credentials ''roy'' ''pw''\<rparr>"
  let ?b = "location_context_init\<lparr>loc_auth_basic := ''members'',
    loc_auth_user_info := map user_entry [(''roy'', ''pw'')]\<rparr>"
  have "hh_status ?h = 200" "hh_method ?h = ''DELETE''" "hh_allow ?h = [''GET'']"
    "hh_authorization ?h = basic_credentials ''roy'' ''pw''"
    by (simp_all add: header_handler_init_def)
  then show ?thesis
    using credentials_override_method [of ?h ?b "[(''roy'', ''pw'')]" "''roy''" "''pw''"]
    by (intro exI [of _ ?h]) simp
qed

text \<open>
  A \<^verbatim>\<open>Referer\<close> that does not name the host and is shorter than it by two makes the
  matching of the location blocks throw \<^verbatim>\<open>std::out_of_range\<close>.
\<close>

theorem short_referer_throws:
  assumes "hh_referer h \<noteq> []" "\<not> contains (hh_referer h) (hh_requested_host h)"
    and "length (hh_referer h) + 2 \<le> length (hh_requested_host h)"
  shows "get_referer_part h = Throw Out_Of_Range"
proof -
  have "find_sub (hh_referer h) (hh_requested_host h) (Some 0) = None"
    using assms(2) by (simp add: contains_def)
  moreover have "length (hh_referer h) < nat (int (length (hh_requested_host h)) - 1)"
    using assms(3) by linarith
  ultimately show ?thesis using assms(1,3) by (auto simp: get_referer_part_def pos_of_int_def)
qed

theorem short_referer_throws_witness:
  "get_referer_part (header_handler_init\<lparr>hh_referer := ''x'', hh_requested_host := ''localhost''\<rparr>)
     = Throw Out_Of_Range"
  by (rule short_referer_throws) (simp_all add: contains_find)

text \<open>
  When a location block answers a request, the limits in force afterwards (allowed
  methods, maximal body, root, the index used for authorisation) are those of that block,
  and it is the block whose resolution gave the path.
\<close>

theorem matching_block_settings:
  assumes "match_location_block fs blocks uri h = Ret (result, h')"
    and "result \<noteq> ''not found''" "result \<noteq> ''http redirect''"
  shows "\<exists>j < length blocks. hh_location_index h' = int j
     \<and> hh_allow h' = loc_allowed_method (blocks ! j)
     \<and> hh_max_file_size h' = loc_max_file_size (blocks ! j)
     \<and> hh_location_block_root h' = loc_root (blocks ! j) \<and> hh_status h' = hh_status h"
proof -
  from assms(1) obtain ext ref where
    "match_blocks fs ext ref (remove_duplicate_forward_slashes uri) 0 blocks h = Ret (result, h')"
    by (auto simp: match_location_block_def rbind_eq_Inr)
  from match_blocks_settings [OF this assms(2,3)] show ?thesis by (auto simp: settings_of_def)
qed

theorem matching_block_settings_witness:
  "\<exists>j < 2. hh_allow (snd (projr (match_location_block \<lparr>fs_stat = (\<lambda>p. if p = ''/b/x'' then Some 0x8000 else None),
        fs_uninit = 0\<rparr>
      [location_context_init\<lparr>loc_root := ''/a'', loc_allowed_method := [''GET'']\<rparr>,
       location_context_init\<lparr>loc_root := ''/b'', loc_allowed_method := [''HEAD'']\<rparr>] ''/x'' header_handler_init)))
     = [[''GET''], [''HEAD'']] ! j"
proof -
  let ?fs = "\<lparr>fs_stat = (\<lambda>p. if p = ''/b/x'' then Some 0x8000 else None), fs_uninit = 0\<rparr>"
  let ?bs = "[location_context_init\<lparr>loc_root := ''/a'', loc_allowed_method := [''GET'']\<rparr>,
    location_context_init\<lparr>loc_root := ''/b'', loc_allowed_method := [''HEAD'']\<rparr>]"
  have "\<exists>h. match_location_block ?fs ?bs ''/x'' header_handler_init = Ret (''/b/x'', h)"
    by (simp add: match_location_block_def get_extension_def get_referer_part_def try_location_def
        header_handler_init_def location_context_init_def take_settings_def is_upload_def
        get_first_directory_def find_first_of_def find_pred_def find_last_of_def get_file_def
        mode_has_def c_str_def)
  then obtain h where h: "match_location_block ?fs ?bs ''/x'' header_handler_init = Ret (''/b/x'', h)"
    by blast
  from matching_block_settings [OF this] obtain j where "j < length ?bs"
    "hh_allow h = loc_allowed_method (?bs ! j)" by auto
  with h show ?thesis
    by (intro exI [of _ j]) (auto simp: less_Suc_eq numeral_2_eq_2)
qed

end
