(* ===== verification/RequestHandler.thy ===== *)
theory RequestHandler
  imports RequestResolver
begin

text \<open>
  The acting half of \<^verbatim>\<open>header_handler\<close>: \<^verbatim>\<open>handle_request\<close> with the PUT, POST and
  DELETE handlers, the CGI process, the reading of the answer and the writing of the
  response.  An exception loses the changes made to the handler before it: after a
  \<^verbatim>\<open>std::string\<close> exception the main loop drops the client with its handler, after any
  other the program ends.
\<close>

section \<open>Files\<close>

definition open_checked :: "string \<Rightarrow> open_flags \<Rightarrow> string \<Rightarrow> int io" where
  "open_checked path flags msg =
     io_bind (call os_fd (Sys_Open (c_str path) flags)) (\<lambda>fd.
     if fd = -1 then io_throw (Str_Exn msg) else io_return fd)"

definition set_nonblock :: "int \<Rightarrow> int io" where
  "set_nonblock fd =
     io_bind (call os_ok (Sys_Fcntl fd)) (\<lambda>ok.
     if ok then io_return fd else io_throw (Str_Exn ''FCNTL failed''))"

definition remove_file :: "header_handler \<Rightarrow> header_handler io" where
  "remove_file h =
     io_bind (call os_ok (Sys_Remove (c_str (hh_file_location h)))) (\<lambda>ok.
     io_return (if ok then h else h\<lparr>hh_status := 404\<rparr>))"

definition create_cgi_fd :: "string \<Rightarrow> int io" where
  "create_cgi_fd ty =
     io_bind (open_checked (if ty = ''input'' then ''server_files/www/temp_files/cgi_in''
                            else ''server_files/www/temp_files/cgi_out'')
                O_RDWR_CREAT_TRUNC ''Open cgi fd failed'') set_nonblock"

definition put_request :: "header_handler \<Rightarrow> (int \<times> header_handler) io" where
  "put_request h =
     io_bind (io_of (base_name (hh_file_location h))) (\<lambda>f.
     let put_file = ''server_files/www/downloads/'' @ f in
     io_bind current_fs (\<lambda>fs.
     let there = (fs_stat fs (c_str put_file) \<noteq> None) in
     io_bind (open_checked put_file (if there then O_RDWR_TRUNC else O_RDWR_CREAT)
                ''Open put request failed'') (\<lambda>fd.
     io_return (fd, h\<lparr>hh_status := (if there then 204 else 201)\<rparr>))))"

definition post_request :: "int \<Rightarrow> header_handler \<Rightarrow> (int \<times> header_handler) io" where
  "post_request max_file_size h =
     (if max_file_size \<noteq> 0 \<and> max_file_size < int (length (hh_body h))
      then io_return (-1, h\<lparr>hh_status := 413\<rparr>)
      else io_bind (open_checked ''server_files/www/downloads/POST_file'' O_RDWR_CREAT_TRUNC
                      ''Open post request failed'') (\<lambda>fd.
           io_return (fd, h\<lparr>hh_status := 200\<rparr>)))"

section \<open>Handling a request\<close>

definition is_cgi :: "string \<Rightarrow> header_handler \<Rightarrow> bool" where
  "is_cgi cgi_file_types h \<longleftrightarrow> contains cgi_file_types (verify_content_type h)"

text \<open>The branches below status 301; the flag tells the early return of the CGI branch.\<close>

definition serve :: "string \<Rightarrow> header_handler \<Rightarrow> (bool \<times> int \<times> header_handler) io" where
  "serve cgi_file_types h =
     (if hh_method h = ''PUT'' then io_bind (put_request h) (\<lambda>(fd, h). io_return (False, fd, h))
      else if hh_method h = ''POST'' \<and> \<not> is_cgi cgi_file_types h
      then io_bind (post_request (hh_max_file_size h) h) (\<lambda>(fd, h). io_return (False, fd, h))
      else if hh_method h = ''DELETE'' then io_bind (remove_file h) (\<lambda>h. io_return (False, -1, h))
      else if is_cgi cgi_file_types h
      then io_bind (create_cgi_fd ''output'') (\<lambda>fd. io_return (True, fd, h))
      else io_bind current_fs (\<lambda>fs.
        case fs_stat fs (c_str (hh_file_location h)) of
          None \<Rightarrow> io_return (False, -1, h\<lparr>hh_status := 404\<rparr>)
        | Some mode \<Rightarrow>
            if \<not> mode_has mode S_IRUSR then io_return (False, -1, h\<lparr>hh_status := 403\<rparr>)
            else io_bind (open_checked (hh_file_location h) O_RDONLY ''Open failed'') (\<lambda>fd.
                 io_return (False, fd, h))))"

definition error_file :: "string \<Rightarrow> int \<Rightarrow> string" where
  "error_file error_page status = error_page @ itoa_str status @ ''.html''"

definition finish_request :: "string \<Rightarrow> int \<Rightarrow> header_handler \<Rightarrow> (int \<times> header_handler) io" where
  "finish_request error_page fd h =
     io_bind (if 400 \<le> hh_status h
              then io_bind (open_checked (error_file error_page (hh_status h)) O_RDONLY ''Open failed'')
                     (\<lambda>fd. io_return (fd, h\<lparr>hh_file_location := error_file error_page (hh_status h)\<rparr>))
              else io_return (fd, h)) (\<lambda>(fd, h).
     if fd \<noteq> -1 then io_bind (set_nonblock fd) (\<lambda>fd. io_return (fd, h)) else io_return (fd, h))"

definition authorise ::
  "location_context list \<Rightarrow> header_handler \<Rightarrow> bool \<Rightarrow> (header_handler \<times> bool) res" where
  "authorise location_blocks h authorization_status =
     (if hh_location_index h \<noteq> -1
      then verify_authorization (location_blocks ! nat (hh_location_index h)) h authorization_status
      else Ret (h, authorization_status))"

text \<open>The three checks that decide the status before anything is done.\<close>

definition decide ::
  "fs \<Rightarrow> location_context list \<Rightarrow> string \<Rightarrow> header_handler \<Rightarrow> bool \<Rightarrow> (header_handler \<times> bool) res" where
  "decide fs location_blocks error_page h authorization_status =
     rbind (verify_file_location fs location_blocks error_page h) (\<lambda>h.
     authorise location_blocks (verify_method h) authorization_status)"

definition handle_request ::
  "string \<Rightarrow> location_context list \<Rightarrow> string \<Rightarrow> header_handler \<Rightarrow> bool \<Rightarrow>
     (int \<times> header_handler \<times> bool) io" where
  "handle_request cgi_file_types location_blocks error_page h authorization_status =
     io_bind current_fs (\<lambda>fs.
     io_bind (io_of (decide fs location_blocks error_page h authorization_status)) (\<lambda>(h, auth).
     io_bind (if hh_status h < 301 then serve cgi_file_types h else io_return (False, -1, h))
       (\<lambda>(done, fd, h).
     if done then io_return (fd, h, auth)
     else io_bind (finish_request error_page fd h) (\<lambda>(fd, h). io_return (fd, h, auth)))))"

definition write_body_to_file :: "int \<Rightarrow> header_handler \<Rightarrow> header_handler io" where
  "write_body_to_file file_fd h =
     (if hh_body h = [] then io_return h
      else io_bind (call os_count (Sys_Write file_fd (hh_body h))) (\<lambda>n.
           if n = -1 then io_throw (Str_Exn ''Write body to file failed'')
           else io_return (h\<lparr>hh_bytes_written := n\<rparr>)))"

section \<open>CGI\<close>

definition get_location_without_root :: "string \<Rightarrow> string res" where
  "get_location_without_root file_location = base_name file_location"

definition to_upper :: "char \<Rightarrow> char" where
  "to_upper c = (if 97 \<le> schar c \<and> schar c \<le> 122 then char_of (nat (schar c) - 32) else c)"

definition create_special_x_header_envp :: "string \<Rightarrow> string" where
  "create_special_x_header_envp str = ''HTTP_'' @ concat (map (\<lambda>c.
     if c = CHR ''-'' then ''_'' else if c = CHR '':'' then ''='' else if c \<noteq> SP then [to_upper c] else []) str)"

text \<open>\<^verbatim>\<open>args[0]\<close> stays unset for a location that is neither.\<close>

definition create_cgi_args :: "string option \<Rightarrow> header_handler \<Rightarrow> string list res" where
  "create_cgi_args cwd h =
     (case cwd of
        None \<Rightarrow> Throw (Str_Exn ''getcwd() failed'')
      | Some server_root \<Rightarrow>
          rbind (if contains (hh_file_location h) ''.php'' then Ret ''/usr/bin/php''
                 else if contains (hh_file_location h) ''.bla''
                 then Ret (server_root @ ''/tester_executables/ubuntu_cgi_tester'')
                 else Throw (Undef ''args[0]'')) (\<lambda>program.
          Ret [program, server_root @ SLASH # c_str (hh_file_location h)]))"

definition cgi_auth_envp :: "header_handler \<Rightarrow> bool \<Rightarrow> string \<Rightarrow> string list res" where
  "cgi_auth_envp h auth_status auth_info =
     (if auth_status
      then let start = int_of_pos (find_sub auth_info ''Basic'' (Some 0)) in
           rbind (substr auth_info (pos_of_int (start + 6)) None) (\<lambda>auth_passwd.
           let decoded = base64_decode (c_str auth_passwd) in
           rbind (substr decoded (Some 0) (find_sub decoded '':'' (Some 0))) (\<lambda>auth_username.
           Ret [''AUTH_TYPE='' @ hh_auth_type h, ''REMOTE_ADDR=localhost'', ''REMOTE_IDENT='',
                ''REMOTE_USER='' @ auth_username]))
      else Ret [])"

definition create_cgi_envp ::
  "string option \<Rightarrow> string \<Rightarrow> int \<Rightarrow> bool \<Rightarrow> string \<Rightarrow> header_handler \<Rightarrow> string list res" where
  "create_cgi_envp cwd server_name server_port auth_status auth_info h =
     (case cwd of
        None \<Rightarrow> Throw (Str_Exn ''getcwd() failed'')
      | Some server_root \<Rightarrow>
          rbind (cgi_auth_envp h auth_status auth_info) (\<lambda>auth.
          rbind (get_location_without_root (hh_uri_location h)) (\<lambda>script.
          Ret (map c_str
            ([''CONTENT_LENGTH='' @ itoa_str (hh_content_length h),
              ''CONTENT_TYPE='' @ hh_content_type h,
              ''GATEWAY_INTERFACE=CGI/1.1'',
              ''HTTP_REFERER='',
              ''PATH_INFO='' @ hh_uri_location h,
              ''PATH_TRANSLATED='' @ server_root @ ''/'' @ hh_location_block_root h @ hh_uri_location h]
             @ (if hh_body h \<noteq> [] \<and> \<not> contains (hh_uri_location h) ''.bla''
                then [''QUERY_STRING='' @ hh_body h] else [])
             @ auth
             @ [''REQUEST_METHOD='' @ hh_method h,
                ''REQUEST_URI='' @ hh_uri_location h,
                ''SCRIPT_FILENAME='' @ server_root @ ''/'' @ hh_file_location h,
                ''SCRIPT_NAME='' @ script,
                ''SERVER_NAME='' @ server_name,
                ''SERVER_PORT='' @ itoa_str server_port,
                ''SERVER_PROTOCOL='' @ hh_protocol h,
                ''SERVER_SOFTWARE=HTTP 1.1'']
             @ map create_special_x_header_envp (hh_special_x_header h))))))"

text \<open>
  The child process is the pair of its arguments and environment, or the exception that
  ends it: \<^verbatim>\<open>std::string\<close> is caught there and gives exit status 1, another one reaches
  the \<^verbatim>\<open>main\<close> of the child, which returns 0.  Otherwise the system decides how it ends.
  The child asks for its directory twice and gets the same answer, recorded once.
\<close>

definition child_exit :: "exn + string list \<times> string list \<Rightarrow> int option \<Rightarrow> int option" where
  "child_exit child answer =
     (case child of
        Inl (Str_Exn _) \<Rightarrow> Some 1
      | Inl Out_Of_Range \<Rightarrow> Some 0
      | _ \<Rightarrow> answer)"

definition execute_cgi ::
  "int \<Rightarrow> int \<Rightarrow> string \<Rightarrow> int \<Rightarrow> bool \<Rightarrow> string \<Rightarrow> header_handler \<Rightarrow> header_handler io" where
  "execute_cgi inputFD outputFD server_name server_port auth_status auth_info h =
     io_bind (call os_fd Sys_Fork) (\<lambda>pid.
     if pid = -1 then io_throw (Str_Exn ''fork() failed'')
     else io_bind (call os_data Sys_Getcwd) (\<lambda>cwd.
       let child = rbind (create_cgi_args cwd h) (\<lambda>args.
                   rbind (create_cgi_envp cwd server_name server_port auth_status auth_info h) (\<lambda>envp.
                   Ret (args, envp)))
       in io_bind (call os_exit (Sys_Wait child)) (\<lambda>answer.
          if child_exit child answer = Some 1
          then io_throw (Str_Exn ''execute cgi child process failure'')
          else io_return (h\<lparr>hh_bytes_written := wrap32 (int (length (hh_body h)))\<rparr>))))"

section \<open>The answer\<close>

definition read_requested_file :: "int \<Rightarrow> header_handler \<Rightarrow> (int \<times> header_handler) io" where
  "read_requested_file fd h =
     io_bind (call os_data (Sys_Pread fd (hh_bytes_read h))) (\<lambda>answer.
     case answer of
       None \<Rightarrow> io_throw (Str_Exn ''Read requested file failed'')
     | Some s \<Rightarrow> io_return (int (length s), h\<lparr>hh_response_file := hh_response_file h @ s,
                   hh_bytes_read := hh_bytes_read h + int (length s)\<rparr>))"

definition split_cgi_output :: "header_handler \<Rightarrow> header_handler res" where
  "split_cgi_output h =
     (let header_size = int_of_pos (find_sub (hh_response_file h) CRLF2 (Some 0)) in
      rbind (substr (hh_response_file h) (Some 0) (pos_of_int header_size)) (\<lambda>headers.
      rbind (substr (hh_response_file h) (pos_of_int (header_size + 4))
               (pos_of_int (int (length (hh_response_file h)) - (header_size + 4)))) (\<lambda>body.
      Ret (h\<lparr>hh_additional_cgi_headers := headers, hh_response_file := body\<rparr>))))"

definition read_cgi_output_file :: "int \<Rightarrow> header_handler \<Rightarrow> (int \<times> header_handler) io" where
  "read_cgi_output_file fd h =
     io_bind (call os_data (Sys_Pread fd (hh_bytes_read h))) (\<lambda>answer.
     case answer of
       None \<Rightarrow> io_throw (Str_Exn ''Read cgi file failed'')
     | Some s \<Rightarrow>
         let h = h\<lparr>hh_response_file := hh_response_file h @ s,
                   hh_bytes_read := hh_bytes_read h + int (length s)\<rparr>
         in if s \<noteq> [] then io_return (int (length s), h)
            else if hh_bytes_read h \<noteq> 0
            then io_bind (io_of (split_cgi_output h)) (\<lambda>h. io_return (0, h))
            else io_return (0, h))"

text \<open>The head of the response, with its two time stamps given.\<close>

definition has_location :: "header_handler \<Rightarrow> bool" where
  "has_location h \<longleftrightarrow> hh_status h = 201 \<or> hh_status h = 301 \<or> hh_status h = 307
     \<or> (hh_method h = ''POST'' \<and> hh_body h \<noteq> [] \<and> \<not> contains (hh_uri_location h) ''.bla''
        \<and> \<not> contains (hh_uri_location h) ''.php'')"

definition response_head :: "string \<Rightarrow> string \<Rightarrow> string \<Rightarrow> header_handler \<Rightarrow> response res" where
  "response_head date modified server_name h =
     (let r = generate_status_line (hh_protocol h) (hh_status h) (hh_status_phrases h) [];
          r = generate_server_name server_name r;
          r = generate_date date r;
          r = generate_content_length (hh_response_file h) r;
          r = (if hh_status h = 401 then generate_www_authorization (hh_auth_basic h) r else r);
          r = (if hh_status h \<noteq> 301 \<and> hh_status h \<noteq> 307
               then generate_content_language (generate_last_modified modified
                      (generate_content_type (verify_content_type h) r))
               else r);
          r = (if hh_status h = 405 then generate_allow (hh_allow h) r else r)
      in rbind (if has_location h then generate_location (hh_status h) (hh_file_location h) r
                else Ret r) (\<lambda>r.
         let r = (if hh_additional_cgi_headers h \<noteq> []
                  then append_cgi_headers (hh_additional_cgi_headers h) r else r)
         in Ret (close_header_section r)))"

definition create_response :: "int \<Rightarrow> string \<Rightarrow> header_handler \<Rightarrow> header_handler io" where
  "create_response fileFD server_name h =
     io_bind (call os_text Sys_Date) (\<lambda>date.
     io_bind (if hh_status h \<noteq> 301 \<and> hh_status h \<noteq> 307 then call os_text (Sys_Fstat fileFD)
              else io_return []) (\<lambda>modified.
     io_bind (io_of (response_head date modified server_name h)) (\<lambda>r.
     let text = hh_response h @ r @ (if hh_method h \<noteq> ''HEAD'' then hh_response_file h else [])
     in io_return (h\<lparr>hh_response := text, hh_response_size := wrap32 (int (length text))\<rparr>))))"

definition send_response :: "int \<Rightarrow> header_handler \<Rightarrow> header_handler io" where
  "send_response clientFD h =
     (if hh_bytes_written h < 0 \<or> int (length (hh_response h)) < hh_bytes_written h
      then io_throw (Undef ''write past the response'')
      else io_bind (call os_count (Sys_Write clientFD (drop (nat (hh_bytes_written h)) (hh_response h)))) (\<lambda>n.
           if n = -1 then io_throw (Str_Exn ''Write to browser failed'')
           else let h = h\<lparr>hh_bytes_written := hh_bytes_written h + n\<rparr>
                in io_return (if hh_bytes_written h = int (length (hh_response h))
                              then reset_handler h else h)))"

section \<open>What the decision keeps\<close>

lemma match_blocks_method:
  "match_blocks fs ext ref uri i blocks h = Ret (result, h') \<Longrightarrow> hh_method h' = hh_method h
    \<and> hh_authorization h' = hh_authorization h \<and> hh_uri_location h' = hh_uri_location h"
proof (induction fs ext ref uri i blocks h rule: match_blocks.induct)
  case (2 fs ext ref uri i block blocks h)
  let ?h = "take_settings i block h"
  have keep: "hh_method ?h = hh_method h" "hh_authorization ?h = hh_authorization h"
    "hh_uri_location ?h = hh_uri_location h" by (simp_all add: take_settings_def)
  show ?case
  proof (cases "hh_uri_location h = loc_context block \<and> loc_return block \<noteq> []")
    case True
    with 2(2) show ?thesis by auto
  next
    case False
    with 2(2) obtain r where r: "try_location fs ?h block ext ref uri = Ret r"
      "(if r \<noteq> ''not found'' then Ret (r, ?h)
        else match_blocks fs ext ref uri (i + 1) blocks ?h) = Ret (result, h')"
      unfolding match_blocks.simps(2) Let_def if_not_P [OF False] rbind_eq_Inr by metis
    with 2(1) [OF False refl r(1)] keep show ?thesis by (cases "r = ''not found''") auto
  qed
qed auto

lemma match_location_block_method:
  "match_location_block fs blocks uri h = Ret (result, h') \<Longrightarrow> hh_method h' = hh_method h
    \<and> hh_authorization h' = hh_authorization h \<and> hh_uri_location h' = hh_uri_location h"
  by (auto simp: match_location_block_def rbind_eq_Inr dest: match_blocks_method)

lemma verify_file_location_method:
  assumes "verify_file_location fs blocks err h = Ret h'"
  shows "hh_method h' = hh_method h"
proof -
  from assms obtain result h1 where
    m: "match_location_block fs blocks (hh_uri_location h) h = Ret (result, h1)"
    and r: "(if result = ''not found''
        then rbind (generate_error_page_location h1 err) (\<lambda>l.
          Ret (h1\<lparr>hh_file_location := remove_duplicate_forward_slashes l, hh_location_index := -1\<rparr>))
        else if result = ''http redirect'' then Ret h1
        else Ret (h1\<lparr>hh_file_location := remove_duplicate_forward_slashes result\<rparr>)) = Ret h'"
    unfolding verify_file_location_def rbind_eq_Inr by auto
  from r have "hh_method h' = hh_method h1" by (auto simp: rbind_eq_Inr split: if_splits)
  with match_location_block_method [OF m] show ?thesis by simp
qed

lemma verify_method_simps [simp]:
  "hh_method (verify_method h) = hh_method h" "hh_file_location (verify_method h) = hh_file_location h"
  "hh_location_index (verify_method h) = hh_location_index h" "hh_allow (verify_method h) = hh_allow h"
  by (simp_all add: verify_method_def)

lemma verify_authorization_keeps:
  "verify_authorization b h a = Ret (h', a') \<Longrightarrow> hh_method h' = hh_method h
    \<and> hh_file_location h' = hh_file_location h \<and> hh_allow h' = hh_allow h"
  by (auto simp: verify_authorization_def rbind_eq_Inr split: if_splits)

lemma authorise_keeps:
  "authorise bs h a = Ret (h', a') \<Longrightarrow> hh_method h' = hh_method h
    \<and> hh_file_location h' = hh_file_location h \<and> hh_allow h' = hh_allow h"
  by (auto simp: authorise_def dest: verify_authorization_keeps split: if_splits)

lemma decide_method: "decide fs bs err h a = Ret (h', a') \<Longrightarrow> hh_method h' = hh_method h"
  by (auto simp: decide_def rbind_eq_Inr dest!: verify_file_location_method authorise_keeps)

section \<open>The calls of a request\<close>

definition request_call :: "string \<Rightarrow> syscall \<Rightarrow> bool" where
  "request_call m c = (case c of
       Sys_Open p flags \<Rightarrow> flags = O_RDONLY \<or> prefix ''server_files/www/'' p
     | Sys_Remove p \<Rightarrow> m = ''DELETE''
     | Sys_Fcntl fd \<Rightarrow> True
     | _ \<Rightarrow> False)"

lemma makes_open_checked:
  "P (Sys_Open (c_str p) flags) \<Longrightarrow> makes P (open_checked p flags msg)"
  unfolding open_checked_def by (intro makes_intros)

lemma makes_set_nonblock: "P (Sys_Fcntl fd) \<Longrightarrow> makes P (set_nonblock fd)"
  unfolding set_nonblock_def by (intro makes_intros)

lemma makes_create_cgi_fd: "makes (request_call m) (create_cgi_fd ty)"
  unfolding create_cgi_fd_def
  by (intro makes_intros makes_open_checked makes_set_nonblock)
    (simp_all add: request_call_def c_str_def)

lemma makes_prod_case [makes_intros]:
  "(\<And>x y. makes P (f x y)) \<Longrightarrow> makes P (case p of (x, y) \<Rightarrow> f x y)"
  by (cases p) simp

lemma makes_option_case [makes_intros]:
  "makes P m \<Longrightarrow> (\<And>x. makes P (f x)) \<Longrightarrow> makes P (case o' of None \<Rightarrow> m | Some x \<Rightarrow> f x)"
  by (cases o') simp_all

lemma makes_let [makes_intros]: "makes P (f x) \<Longrightarrow> makes P (let y = x in f y)"
  by simp

lemma makes_put_request: "makes (request_call m) (put_request h)"
  unfolding put_request_def
  by (intro makes_intros makes_open_checked) (simp add: request_call_def c_str_def)

lemma makes_post_request: "makes (request_call m) (post_request k h)"
  unfolding post_request_def
  by (intro makes_intros makes_open_checked) (simp add: request_call_def c_str_def)

lemma makes_serve: "makes (request_call (hh_method h)) (serve cgi h)"
proof -
  have "makes (request_call ''DELETE'') (remove_file h)"
    unfolding remove_file_def by (intro makes_intros) (simp add: request_call_def)
  then show ?thesis unfolding serve_def
    by (intro makes_if_cond makes_intros makes_put_request makes_post_request makes_create_cgi_fd
        makes_open_checked) (auto simp: request_call_def)
qed

lemma makes_finish_request: "makes (request_call m) (finish_request err fd h)"
  unfolding finish_request_def
  by (intro makes_intros makes_open_checked makes_set_nonblock) (simp_all add: request_call_def)

lemma makes_handle_request: "makes (request_call (hh_method h)) (handle_request cgi bs err h a)"
  unfolding makes_def
proof (intro allI)
  fix os t
  show "\<exists>u. snd (handle_request cgi bs err h a os t) = t @ u \<and> (\<forall>c\<in>set u. request_call (hh_method h) c)"
  proof (cases "decide (os_fs os t) bs err h a")
    case (Inl e)
    then show ?thesis by (simp add: handle_request_def io_simps)
  next
    case (Inr x)
    obtain h1 a1 where x: "x = (h1, a1)" by (cases x)
    let ?rest = "io_bind (if hh_status h1 < 301 then serve cgi h1 else io_return (False, -1, h1))
       (\<lambda>(done, fd, h). if done then io_return (fd, h, a1)
         else io_bind (finish_request err fd h) (\<lambda>(fd, h). io_return (fd, h, a1)))"
    have "handle_request cgi bs err h a os t = ?rest os t"
      using Inr x by (simp add: handle_request_def io_simps)
    moreover have "makes (request_call (hh_method h1)) ?rest"
      by (intro makes_intros makes_serve makes_finish_request)
    ultimately show ?thesis using decide_method [of "os_fs os t" bs err h a h1 a1] Inr x
      by (simp add: makes_def)
  qed
qed

lemma open_checked_Ret:
  "open_checked p fl msg os t = (Ret fd, t') \<longleftrightarrow>
    fd \<noteq> -1 \<and> fd = os_fd os (t @ [Sys_Open (c_str p) fl]) \<and> t' = t @ [Sys_Open (c_str p) fl]"
  by (auto simp: open_checked_def io_simps split: if_splits)

lemma set_nonblock_Ret:
  "set_nonblock fd os t = (Ret x, t') \<longleftrightarrow> x = fd \<and> os_ok os (t @ [Sys_Fcntl fd]) \<and> t' = t @ [Sys_Fcntl fd]"
  by (auto simp: set_nonblock_def io_simps split: if_splits)

lemma finish_request_error:
  assumes "finish_request err fd h os t = (Ret (fd', h'), t')" "400 \<le> hh_status h"
  shows "hh_file_location h' = error_file err (hh_status h) \<and> hh_status h' = hh_status h \<and> fd' \<noteq> -1
    \<and> t' = t @ [Sys_Open (c_str (error_file err (hh_status h))) O_RDONLY, Sys_Fcntl fd']"
proof -
  let ?e = "error_file err (hh_status h)"
  obtain fd1 where o1: "open_checked ?e O_RDONLY ''Open failed'' os t
      = (Ret fd1, t @ [Sys_Open (c_str ?e) O_RDONLY])" and ne: "fd1 \<noteq> -1"
    using assms unfolding finish_request_def
    by (auto simp: open_checked_Ret io_bind_Ret io_base)
  with assms show ?thesis unfolding finish_request_def
    by (auto simp: io_bind_Ret set_nonblock_Ret open_checked_Ret io_base)
qed

lemma serve_done_status:
  "serve cgi h os t = (Ret (True, fd, h'), t') \<Longrightarrow> h' = h"
  by (auto simp: serve_def io_bind_Ret io_base split: if_splits prod.splits option.splits)

lemma match_blocks_not_found:
  "match_blocks fs ext ref uri i blocks h = Ret (''not found'', h') \<Longrightarrow>
     hh_status h' = hh_status h
     \<and> hh_allow h' = ''GET'' # (if hh_method h = ''DELETE'' then [''DELETE''] else [])"
proof (induction fs ext ref uri i blocks h rule: match_blocks.induct)
  case (2 fs ext ref uri i block blocks h)
  let ?h = "take_settings i block h"
  have keep: "hh_method ?h = hh_method h" "hh_status ?h = hh_status h"
    by (simp_all add: take_settings_def)
  show ?case
  proof (cases "hh_uri_location h = loc_context block \<and> loc_return block \<noteq> []")
    case True
    with 2(2) show ?thesis by auto
  next
    case False
    with 2(2) obtain r where r: "try_location fs ?h block ext ref uri = Ret r"
      "(if r \<noteq> ''not found'' then Ret (r, ?h)
        else match_blocks fs ext ref uri (i + 1) blocks ?h) = Ret (''not found'', h')"
      unfolding match_blocks.simps(2) Let_def if_not_P [OF False] rbind_eq_Inr by metis
    with 2(1) [OF False refl r(1)] keep show ?thesis by (cases "r = ''not found''") auto
  qed
qed auto

lemmas resolve_defs = decide_def authorise_def verify_file_location_def match_location_block_def
  get_extension_def get_referer_part_def find_last_of_def generate_error_page_location_def
  base_name_def verify_method_def is_cgi_def verify_content_type_def content_extensions_def

text \<open>A system with no files but the error pages, where every call succeeds.\<close>

definition empty_os :: os where
  "empty_os = \<lparr>os_fs = (\<lambda>_. \<lparr>fs_stat = (\<lambda>_. None), fs_uninit = 0\<rparr>), os_ok = (\<lambda>_. True),
     os_fd = (\<lambda>_. 5), os_data = (\<lambda>_. Some []), os_count = (\<lambda>_. 1), os_time = (\<lambda>_. 0),
     os_text = (\<lambda>_. []), os_exit = (\<lambda>_. None), os_ready = (\<lambda>_. None),
     os_events = (\<lambda>_. [])\<rparr>"

section \<open>The head is a head\<close>

definition plain_handler :: "header_handler \<Rightarrow> bool" where
  "plain_handler h \<longleftrightarrow> plain_text (hh_protocol h) \<and> plain_text (hh_auth_basic h)
     \<and> (\<forall>m\<in>set (hh_allow h). plain_text m) \<and> plain_text (hh_file_location h)
     \<and> (\<forall>p\<in>snd ` set (hh_status_phrases h). plain_text p)
     \<and> hh_additional_cgi_headers h = [] \<and> int32 (hh_status h)"

lemma plain_itoa: "int32 n \<Longrightarrow> plain_text (itoa_str n)"
  by (simp add: itoa_str_decimal)

lemma plain_allow_list: "\<forall>m\<in>set ms. plain_text m \<Longrightarrow> plain_text (allow_list ms)"
  by (induction ms rule: allow_list.induct) auto

lemma plain_first_extension: "\<forall>e\<in>set es. plain_text e \<Longrightarrow> plain_text (first_extension l es)"
  by (induction l es rule: first_extension.induct) simp_all

lemma plain_content_type: "plain_text (verify_content_type h)"
  unfolding verify_content_type_def
  by (rule plain_first_extension) (simp add: content_extensions_def)

lemma head_status_line:
  assumes "plain_handler h"
  shows "is_head (generate_status_line (hh_protocol h) (hh_status h) (hh_status_phrases h) [])"
proof -
  let ?p = "case map_of (hh_status_phrases h) (hh_status h) of None \<Rightarrow> [] | Some p \<Rightarrow> p"
  have "plain_text ?p" using assms
    by (auto simp: plain_handler_def split: option.splits dest!: map_of_SomeD)
  then have "header_line (hh_protocol h @ '' '' @ itoa_str (hh_status h) @ '' '' @ ?p)"
    using assms plain_itoa by (simp add: header_line_plain plain_handler_def)
  from is_head_first [OF this] show ?thesis
    by (simp add: generate_status_line_def status_line_def)
qed

lemma head_append: "is_head r \<Longrightarrow> header_line l \<Longrightarrow> r' = r @ l @ CRLF \<Longrightarrow> is_head r'"
  by (simp add: is_head_line)

lemma head_server: "is_head r \<Longrightarrow> plain_text s \<Longrightarrow> is_head (generate_server_name s r)"
  by (erule head_append [where l = "''Server: '' @ s"])
    (simp_all add: generate_server_name_def header_line_plain)

lemma head_date: "is_head r \<Longrightarrow> plain_text s \<Longrightarrow> is_head (generate_date s r)"
  by (erule head_append [where l = "''Date: '' @ s"])
    (simp_all add: generate_date_def header_line_plain)

lemma head_length: "is_head r \<Longrightarrow> is_head (generate_content_length b r)"
  by (erule head_append [where l = "''Content-Length: '' @ itoa_str (wrap32 (int (length b)))"])
    (simp_all add: generate_content_length_def header_line_plain plain_itoa wrap32_range)

lemma head_www: "is_head r \<Longrightarrow> plain_text s \<Longrightarrow> is_head (generate_www_authorization s r)"
  by (erule head_append [where l = "''WWW-Authenticate: Basic realm='' @ s"])
    (simp_all add: generate_www_authorization_def header_line_plain)

lemma head_type: "is_head r \<Longrightarrow> plain_text s \<Longrightarrow> is_head (generate_content_type s r)"
  by (erule head_append [where l = "''Content-Type: '' @ (let t = (if s = ''php'' \<or> s = ''bla'' then ''html'' else s)
      in (if t = ''html'' \<or> t = ''css'' then ''text/'' else if t = ''png'' then ''image/'' else []) @ t)"])
    (simp_all add: generate_content_type_def header_line_plain Let_def)

lemma head_modified: "is_head r \<Longrightarrow> plain_text s \<Longrightarrow> is_head (generate_last_modified s r)"
  by (erule head_append [where l = "''Last-Modified: '' @ s"])
    (simp_all add: generate_last_modified_def header_line_plain)

lemma head_language: "is_head r \<Longrightarrow> is_head (generate_content_language r)"
  by (erule head_append [where l = "''Content-Language: en-US''"])
    (simp_all add: generate_content_language_def header_line_plain)

lemma head_allow: "is_head r \<Longrightarrow> \<forall>m\<in>set ms. plain_text m \<Longrightarrow> is_head (generate_allow ms r)"
  by (erule head_append [where l = "''Allow: '' @ allow_list ms"])
    (simp_all add: generate_allow_def header_line_plain plain_allow_list)

lemmas head_steps = head_server head_date head_length head_www head_type head_modified
  head_language head_allow

lemma head_location:
  assumes "is_head r" "plain_text l" "generate_location st l r = Ret r'"
  shows "is_head r'"
proof -
  obtain d f where f: "base_name l = Ret f" "l = d @ f" using base_name_split by blast
  with assms(2) have "plain_text f" by simp
  then show ?thesis
    using assms f(1) is_head_line [OF assms(1), of "''Location: '' @ ''server_files/www/downloads/'' @ f"]
      is_head_line [OF assms(1), of "''Location: '' @ l"]
      is_head_line [OF assms(1), of "''Location: '' @ ''server_files/www/downloads/POST_file''"]
    by (auto simp: generate_location_def header_line_plain split: if_splits)
qed

lemma response_head_lines:
  assumes "plain_handler h" "plain_text date" "plain_text modified" "plain_text server_name"
    and "response_head date modified server_name h = Ret r"
  shows "\<exists>k. r = k @ CRLF \<and> is_head k"
proof -
  note steps = head_steps head_status_line [OF assms(1)] plain_content_type
  let ?r4 = "generate_content_length (hh_response_file h) (generate_date date
     (generate_server_name server_name
       (generate_status_line (hh_protocol h) (hh_status h) (hh_status_phrases h) [])))"
  define r5 where "r5 = (if hh_status h = 401 then generate_www_authorization (hh_auth_basic h) ?r4 else ?r4)"
  define r6 where "r6 = (if hh_status h \<noteq> 301 \<and> hh_status h \<noteq> 307
    then generate_content_language (generate_last_modified modified
      (generate_content_type (verify_content_type h) r5)) else r5)"
  define r7 where "r7 = (if hh_status h = 405 then generate_allow (hh_allow h) r6 else r6)"
  have "is_head ?r4" using assms by (intro steps)
  then have "is_head r5" using assms(1) head_www [of ?r4 "hh_auth_basic h"]
    unfolding r5_def plain_handler_def by presburger
  then have "is_head r6" using assms(3) unfolding r6_def by (simp add: steps)
  then have h7: "is_head r7" using assms(1) head_allow [of r6 "hh_allow h"]
    unfolding r7_def plain_handler_def by presburger
  have "rbind (if has_location h then generate_location (hh_status h) (hh_file_location h) r7
      else Ret r7) (\<lambda>r. Ret (r @ CRLF)) = Ret r"
    using assms(1,5) unfolding response_head_def Let_def r7_def r6_def r5_def
    by (simp add: plain_handler_def close_header_section_def)
  with h7 head_location [OF h7] assms(1) show ?thesis
    by (auto simp: rbind_eq_Inr plain_handler_def split: if_splits)
qed

lemma head_end_length:
  assumes "is_head k" shows "header_end (k @ CRLF @ b) = length (k @ CRLF)"
proof -
  have "2 \<le> length k" using assms by (auto simp: is_head_def neq_Nil_conv)
  with head_end [OF assms, of b] show ?thesis by (simp add: header_end_def)
qed

lemma head_status:
  assumes "response_head date modified name h = Ret head"
  shows "prefix (status_line (hh_protocol h) (hh_status h) (hh_status_phrases h)) head"
    and "sublist (''Content-Length: '' @ itoa_str (wrap32 (int (length (hh_response_file h)))) @ CRLF) head"
    and "sublist (CRLF @ ''Content-Length: '' @ itoa_str (wrap32 (int (length (hh_response_file h)))) @ CRLF) head"
proof -
  let ?l = "''Content-Length: '' @ itoa_str (wrap32 (int (length (hh_response_file h)))) @ CRLF"
  let ?a = "status_line (hh_protocol h) (hh_status h) (hh_status_phrases h)"
  let ?b = "''Server: '' @ name @ CRLF @ ''Date: '' @ date @ CRLF"
  have grow: "prefix r (if b then generate_www_authorization x r else r)"
    "prefix r (if b then generate_content_language (generate_last_modified y (generate_content_type z r)) else r)"
    "prefix r (if b then generate_allow ms r else r)" for r b x y z ms
    by (simp_all add: generate_defs Let_def)
  let ?r4 = "generate_content_length (hh_response_file h) (generate_date date
     (generate_server_name name (generate_status_line (hh_protocol h) (hh_status h) (hh_status_phrases h) [])))"
  define r5 where "r5 = (if hh_status h = 401 then generate_www_authorization (hh_auth_basic h) ?r4 else ?r4)"
  define r6 where "r6 = (if hh_status h \<noteq> 301 \<and> hh_status h \<noteq> 307
    then generate_content_language (generate_last_modified modified
      (generate_content_type (verify_content_type h) r5)) else r5)"
  define r7 where "r7 = (if hh_status h = 405 then generate_allow (hh_allow h) r6 else r6)"
  have "prefix ?r4 r7" using grow unfolding r5_def r6_def r7_def by (meson prefix_order.trans)
  moreover have "rbind (if has_location h then generate_location (hh_status h) (hh_file_location h) r7
      else Ret r7) (\<lambda>r. Ret (close_header_section (if hh_additional_cgi_headers h \<noteq> []
        then append_cgi_headers (hh_additional_cgi_headers h) r else r))) = Ret head"
    using assms unfolding response_head_def r5_def r6_def r7_def Let_def .
  then have "prefix r7 head"
    by (auto simp: rbind_eq_Inr generate_location_def close_header_section_def append_cgi_headers_def
        intro: prefix_order.trans split: if_splits)
  ultimately have "prefix ?r4 head" by (rule prefix_order.trans)
  then have p: "prefix (?a @ ?b @ ?l) head"
    by (simp add: generate_status_line_def generate_server_name_def generate_date_def generate_content_length_def)
  then show "prefix ?a head" by (rule append_prefixD)
  from p obtain z where "head = (?a @ ?b) @ ?l @ z" by (auto simp: prefix_def)
  then show "sublist ?l head" unfolding sublist_def by blast
  have "\<exists>c. ?b = c @ CRLF" by simp
  then obtain c where "?b = c @ CRLF" by blast
  with \<open>head = _\<close> have "head = (?a @ c) @ (CRLF @ ?l) @ z" by simp
  then show "sublist (CRLF @ ?l) head" unfolding sublist_def by blast
qed

lemma create_response_head:
  assumes "fst (create_response fileFD server_name h os t) = Ret h'" "hh_response h = []"
    and "\<forall>u. plain_text (os_text os u)"
  obtains date modified head where "plain_text date" "plain_text modified"
    "response_head date modified server_name h = Ret head"
    "hh_response h' = head @ (if hh_method h = ''HEAD'' then [] else hh_response_file h)"
proof -
  let ?t = "t @ [Sys_Date]" let ?b = "hh_status h \<noteq> 301 \<and> hh_status h \<noteq> 307"
  define modified where "modified = (if ?b then os_text os (?t @ [Sys_Fstat fileFD]) else [])"
  have "plain_text modified" using assms(3) by (simp add: modified_def)
  moreover have "\<exists>head. response_head (os_text os ?t) modified server_name h = Ret head
      \<and> hh_response h' = head @ (if hh_method h = ''HEAD'' then [] else hh_response_file h)"
    using assms(1,2) by (cases ?b) (auto simp: create_response_def modified_def io_simps split: sum.splits)
  ultimately show thesis using assms(3) that by blast
qed

section \<open>Sending and reading in pieces\<close>

text \<open>
  \<open>send_all\<close> calls \<open>send_response\<close> until the handler says the response is out, as the main
  loop does over its rounds; \<open>n\<close> bounds the rounds.
\<close>

fun send_all :: "nat \<Rightarrow> int \<Rightarrow> header_handler \<Rightarrow> header_handler io" where
  "send_all 0 fd h = io_return h"
| "send_all (Suc n) fd h = io_bind (send_response fd h) (\<lambda>h'.
     if hh_bytes_written h' < hh_response_size h' then send_all n fd h' else io_return h')"

text \<open>What reached the client: of every write, as many bytes as the system took.\<close>

fun delivered :: "os \<Rightarrow> history \<Rightarrow> history \<Rightarrow> string" where
  "delivered os t [] = []"
| "delivered os t (c # u) = (case c of Sys_Write fd s \<Rightarrow> take (nat (os_count os (t @ [c]))) s | _ \<Rightarrow> [])
     @ delivered os (t @ [c]) u"

text \<open>A connection that takes at least one byte of every write, never more than offered.\<close>

definition sound_write :: "os \<Rightarrow> bool" where
  "sound_write os \<longleftrightarrow> (\<forall>t fd s. s \<noteq> [] \<longrightarrow> 1 \<le> os_count os (t @ [Sys_Write fd s])
     \<and> os_count os (t @ [Sys_Write fd s]) \<le> int (length s))"

definition sending :: "header_handler \<Rightarrow> nat \<Rightarrow> bool" where
  "sending h k \<longleftrightarrow> hh_bytes_written h = int k \<and> k < length (hh_response h)
     \<and> hh_response_size h = int (length (hh_response h))"

lemma send_all_delivers:
  assumes "sound_write os" "sending h k" "length (hh_response h) - k \<le> n"
  shows "\<exists>h' u. send_all n fd h os t = (Ret h', t @ u) \<and> delivered os t u = drop k (hh_response h)
    \<and> hh_response h' = [] \<and> hh_bytes_written h' = 0"
  using assms(2,3)
proof (induction n arbitrary: h k t)
  case (Suc n)
  let ?s = "drop k (hh_response h)" let ?c = "Sys_Write fd ?s" let ?m = "os_count os (t @ [?c])"
  from Suc.prems have k: "hh_bytes_written h = int k" "k < length (hh_response h)"
    "hh_response_size h = int (length (hh_response h))" by (simp_all add: sending_def)
  then have m: "1 \<le> ?m" "?m \<le> int (length ?s)"
    using assms(1) unfolding sound_write_def by (metis drop_eq_Nil leD)+
  let ?h = "h\<lparr>hh_bytes_written := int k + ?m\<rparr>"
  have step: "send_response fd h os t
      = (Ret (if int k + ?m = int (length (hh_response h)) then reset_handler ?h else ?h), t @ [?c])"
    using k m by (simp add: send_response_def io_simps)
  show ?case
  proof (cases "int k + ?m = int (length (hh_response h))")
    case True
    then have "nat ?m = length ?s" using k unfolding length_drop by linarith
    with True step show ?thesis
      by (intro exI [of _ "reset_handler ?h"] exI [of _ "[?c]"])
        (simp add: io_simps reset_handler_def)
  next
    case False
    let ?k = "k + nat ?m"
    have kk: "sending ?h ?k" "length (hh_response ?h) - ?k \<le> n"
      using False k m Suc.prems by (auto simp: sending_def)
    from Suc.IH [OF kk, of "t @ [?c]"] obtain h' u where
      u: "send_all n fd ?h os (t @ [?c]) = (Ret h', (t @ [?c]) @ u)"
      "delivered os (t @ [?c]) u = drop ?k (hh_response h)"
      "hh_response h' = []" "hh_bytes_written h' = 0" by auto
    have "hh_bytes_written ?h < hh_response_size ?h" using k m False by simp
    then have "send_all (Suc n) fd h os t = (Ret h', t @ ?c # u)"
      using step False u(1) by (simp add: io_simps)
    moreover have "delivered os t (?c # u) = ?s"
    proof -
      have "drop ?k (hh_response h) = drop (nat ?m) ?s" by (simp add: add.commute)
      with u(2) have "delivered os (t @ [?c]) u = drop (nat ?m) ?s" by (rule trans)
      then show ?thesis by (simp only: delivered.simps syscall.case append_take_drop_id)
    qed
    ultimately show ?thesis using u(3,4) by blast
  qed
qed (simp add: sending_def)

section \<open>Properties\<close>

text \<open>
  C12. Whatever the request, handling it makes no other calls than these: files are opened
  for writing only below \<^verbatim>\<open>server_files/www/\<close>, and only a DELETE removes a file.
\<close>

theorem handle_request_calls:
  "\<exists>u. snd (handle_request cgi_file_types blocks error_page h auth os t) = t @ u
     \<and> list_all (request_call (hh_method h)) u"
proof -
  obtain r t' where "handle_request cgi_file_types blocks error_page h auth os t = (r, t')" by fastforce
  with makesD [OF makes_handle_request this] show ?thesis by (auto simp: list_all_iff)
qed

text \<open>
  C32. Whenever handling a request ends in an error status, the answer is the page of that
  status: the file is \<^verbatim>\<open>error_page\<close>, the status in decimal and \<^verbatim>\<open>.html\<close>, it was opened for
  reading as the last step and its descriptor returned.
\<close>

theorem error_status_serves_error_page:
  assumes "handle_request cgi_file_types blocks error_page h auth os t = (Ret (fd, h', auth'), t')"
    and "400 \<le> hh_status h'"
  shows "hh_file_location h' = error_file error_page (hh_status h') \<and> fd \<noteq> -1
     \<and> (\<exists>u. t' = t @ u @ [Sys_Open (c_str (error_file error_page (hh_status h'))) O_RDONLY, Sys_Fcntl fd])"
proof -
  from assms(1) obtain h1 a1 dn fd1 h2 t2 where
    s: "(if hh_status h1 < 301 then serve cgi_file_types h1 else io_return (False, -1, h1)) os t
      = (Ret (dn, fd1, h2), t2)"
    and f: "(if dn then io_return (fd1, h2, a1)
      else io_bind (finish_request error_page fd1 h2) (\<lambda>(fd, h). io_return (fd, h, a1))) os t2
      = (Ret (fd, h', auth'), t')"
    unfolding handle_request_def by (auto simp: io_bind_Ret io_base simp del: if_split)
  have "\<not> dn"
  proof
    assume dn
    with f s have "hh_status h' < 301"
      by (auto simp: io_base split: if_splits dest: serve_done_status)
    with assms(2) show False by simp
  qed
  with f have f': "finish_request error_page fd1 h2 os t2 = (Ret (fd, h'), t')"
    by (auto simp: io_bind_Ret io_base)
  have st: "400 \<le> hh_status h2"
  proof (rule ccontr)
    assume "\<not> 400 \<le> hh_status h2"
    with f' assms(2) show False
      by (auto simp: finish_request_def io_bind_Ret io_base split: if_splits)
  qed
  have "makes (\<lambda>_. True) (if hh_status h1 < 301 then serve cgi_file_types h1 else io_return (False, -1, h1))"
    by (intro makes_intros makes_mono [OF makes_serve]) simp_all
  from makesD [OF this s] obtain u where "t2 = t @ u" by auto
  with finish_request_error [OF f' st] show ?thesis by auto
qed

theorem error_status_serves_error_page_witness:
  "\<exists>h' t'. handle_request [] [] ''err/'' (header_handler_init\<lparr>hh_method := ''GET'', hh_uri_location := ''/x''\<rparr>)
       False empty_os [] = (Ret (5, h', False), t')
     \<and> hh_status h' = 404 \<and> hh_file_location h' = error_file ''err/'' 404"
proof -
  let ?h = "header_handler_init\<lparr>hh_method := ''GET'', hh_uri_location := ''/x''\<rparr>"
  have "\<exists>h' t'. handle_request [] [] ''err/'' ?h False empty_os [] = (Ret (5, h', False), t')
      \<and> hh_status h' = 404"
    by (simp add: handle_request_def resolve_defs serve_def finish_request_def open_checked_def
        set_nonblock_def io_simps empty_os_def header_handler_init_def c_str_def contains_find)
  then obtain h' t' where h: "handle_request [] [] ''err/'' ?h False empty_os [] = (Ret (5, h', False), t')"
    "hh_status h' = 404" by blast
  with error_status_serves_error_page [OF h(1)] show ?thesis by auto
qed

text \<open>
  A DELETE for a target that no location block answers removes the file of that name in
  the directory of the error pages, without any authorisation and before anything else.
\<close>

theorem delete_missing_removes_error_page:
  assumes "match_location_block (os_fs os t) blocks (hh_uri_location h) h = Ret (''not found'', h1)"
    and "hh_method h = ''DELETE''" "hh_status h < 301" "base_name (hh_uri_location h) = Ret f"
  shows "\<exists>u. snd (handle_request cgi_file_types blocks error_page h auth os t)
     = t @ Sys_Remove (c_str (remove_duplicate_forward_slashes (error_page @ f))) # u"
proof -
  from assms(1) obtain ext ref uri where
    "match_blocks (os_fs os t) ext ref uri 0 blocks h = Ret (''not found'', h1)"
    by (auto simp: match_location_block_def rbind_eq_Inr)
  from match_blocks_not_found [OF this] match_location_block_method [OF assms(1)] assms(2-4)
  have h1: "hh_status h1 = hh_status h" "hh_method h1 = ''DELETE''" "''DELETE'' \<in> set (hh_allow h1)"
    "base_name (hh_uri_location h1) = Ret f" by auto
  let ?p = "remove_duplicate_forward_slashes (error_page @ f)"
  let ?h2 = "h1\<lparr>hh_file_location := ?p, hh_location_index := -1\<rparr>"
  have "verify_file_location (os_fs os t) blocks error_page h = Ret ?h2"
    using assms(1) h1(4) by (simp add: verify_file_location_def generate_error_page_location_def)
  moreover have "verify_method ?h2 = ?h2" using h1 by (simp add: verify_method_def)
  ultimately have d: "decide (os_fs os t) blocks error_page h auth = Ret (?h2, auth)"
    by (simp add: decide_def authorise_def)
  let ?h3 = "if os_ok os (t @ [Sys_Remove (c_str ?p)]) then ?h2 else ?h2\<lparr>hh_status := 404\<rparr>"
  have "snd (handle_request cgi_file_types blocks error_page h auth os t)
      = snd (finish_request error_page (-1) ?h3 os (t @ [Sys_Remove (c_str ?p)]))"
    using assms(3) h1 d
    by (auto simp: handle_request_def serve_def remove_file_def io_simps split: prod.splits sum.splits)
  moreover have "\<exists>u. snd (finish_request error_page (-1) ?h3 os (t @ [Sys_Remove (c_str ?p)]))
      = (t @ [Sys_Remove (c_str ?p)]) @ u"
    using makes_finish_request unfolding makes_def by blast
  ultimately show ?thesis by auto
qed

theorem delete_missing_removes_error_page_witness:
  "\<exists>u. snd (handle_request [] [] ''error_pages/''
      (header_handler_init\<lparr>hh_method := ''DELETE'', hh_uri_location := ''/404.html''\<rparr>) False empty_os [])
     = [] @ Sys_Remove (c_str (remove_duplicate_forward_slashes (''error_pages/'' @ ''404.html''))) # u"
  by (rule delete_missing_removes_error_page)
    (simp_all add: match_location_block_def get_extension_def get_referer_part_def find_last_of_def
      header_handler_init_def base_name_def pos_of_int_def empty_os_def)

text \<open>
  C13. The response that \<^verbatim>\<open>create_response\<close> builds is framed.  For a handler whose response buffer is empty,
  that holds no headers of a CGI script, whose answer is shorter than two to the power of 31 bytes and whose texts,
  like the time stamps and the name of the server, hold no line end, the response is a head and a body.  The body
  is empty for a HEAD request and the answer otherwise; the head ends at the first empty line of the response, and
  one of its lines is \<^verbatim>\<open>Content-Length:\<close> with the length of the answer in decimal digits.
\<close>

theorem response_framing:
  assumes "fst (create_response fileFD server_name h os t) = Ret h'" "plain_handler h" "hh_response h = []"
    and "\<forall>u. plain_text (os_text os u)" "plain_text server_name" "length (hh_response_file h) < 2 ^ 31"
  shows "\<exists>head body. hh_response h' = head @ body
    \<and> body = (if hh_method h = ''HEAD'' then [] else hh_response_file h)
    \<and> header_end (hh_response h') = length head
    \<and> sublist (CRLF @ ''Content-Length: '' @ decimal (int (length (hh_response_file h))) @ CRLF) head"
proof -
  let ?body = "if hh_method h = ''HEAD'' then [] else hh_response_file h"
  obtain date modified head where plain: "plain_text date" "plain_text modified"
    and r: "response_head date modified server_name h = Ret head" "hh_response h' = head @ ?body"
    using assms(1,3,4) by (rule create_response_head)
  obtain k where "head = k @ CRLF" "is_head k"
    using response_head_lines [OF assms(2) plain assms(5) r(1)] by blast
  with head_end_length [of k ?body] r(2) have "header_end (hh_response h') = length head" by simp
  with head_status(3) [OF r(1)] r(2) assms(6) show ?thesis by (auto simp: wrap32_id itoa_str_decimal int32_def)
qed

theorem response_framing_witness:
  "\<exists>h' head. fst (create_response 5 ''s'' (header_handler_init\<lparr>hh_response_file := ''hello''\<rparr>) empty_os []) = Ret h'
    \<and> hh_response h' = head @ ''hello'' \<and> header_end (hh_response h') = length head
    \<and> sublist (CRLF @ ''Content-Length: 5'' @ CRLF) head"
proof -
  let ?h = "header_handler_init\<lparr>hh_response_file := ''hello''\<rparr>"
  have "\<exists>h'. fst (create_response 5 ''s'' ?h empty_os []) = Ret h'"
    using generate_location_returns
    by (auto simp: create_response_def response_head_def header_handler_init_def has_location_def io_simps empty_os_def)
  then obtain h' where r: "fst (create_response 5 ''s'' ?h empty_os []) = Ret h'" by blast
  have "plain_handler ?h" "hh_response ?h = []" "hh_method ?h \<noteq> ''HEAD''" "hh_response_file ?h = ''hello''"
    by (simp_all add: plain_handler_def header_handler_init_def status_phrases_def int32_def)
  moreover have "decimal 5 = ''5''" by code_simp
  ultimately show ?thesis using response_framing [OF r] r by (auto simp: empty_os_def)
qed

text \<open>
  However the connection takes the bytes of a response, one or more at a time, the
  rounds of \<^verbatim>\<open>send_response\<close> deliver exactly the response, nothing lost and nothing twice,
  and leave the handler reset.
\<close>

theorem send_response_delivers:
  assumes "sound_write os" "hh_bytes_written h = 0" "hh_response h \<noteq> []"
    and "hh_response_size h = int (length (hh_response h))"
  shows "\<exists>h' u. send_all (length (hh_response h)) fd h os t = (Ret h', t @ u)
     \<and> delivered os t u = hh_response h \<and> hh_response h' = [] \<and> hh_bytes_written h' = 0"
  using send_all_delivers [OF assms(1), of h 0 "length (hh_response h)" fd t] assms(2-4)
  by (simp add: sending_def)

theorem send_response_delivers_witness:
  "\<exists>h' u. send_all 3 4 (header_handler_init\<lparr>hh_response := ''abc'', hh_response_size := 3\<rparr>) empty_os []
      = (Ret h', [] @ u) \<and> delivered empty_os [] u = ''abc'' \<and> hh_response h' = [] \<and> hh_bytes_written h' = 0"
proof -
  let ?h = "header_handler_init\<lparr>hh_response := ''abc'', hh_response_size := 3\<rparr>"
  have "sound_write empty_os"
    by (auto simp: sound_write_def empty_os_def Suc_le_eq)
  from send_response_delivers [OF this, of ?h 4 "[]"] show ?thesis
    by (simp add: header_handler_init_def numeral_3_eq_3)
qed

text \<open>
  A body that the file takes only in part is not continued but written again from its
  start: the second call offers the whole body once more.
\<close>

theorem partial_body_write_repeats:
  assumes "hh_body h \<noteq> []" "os_count os (t @ [Sys_Write fd (hh_body h)]) = int n" "n < length (hh_body h)"
    and "os_count os (t @ [Sys_Write fd (hh_body h), Sys_Write fd (hh_body h)]) = int m"
  shows "\<exists>h'. io_bind (write_body_to_file fd h) (write_body_to_file fd) os t
     = (Ret h', t @ [Sys_Write fd (hh_body h), Sys_Write fd (hh_body h)]) \<and> hh_bytes_written h' = int m"
  using assms by (simp add: write_body_to_file_def io_simps)

theorem partial_body_write_repeats_witness:
  "\<exists>h'. io_bind (write_body_to_file 7 (header_handler_init\<lparr>hh_body := ''ab''\<rparr>)) (write_body_to_file 7) empty_os []
     = (Ret h', [] @ [Sys_Write 7 ''ab'', Sys_Write 7 ''ab'']) \<and> hh_bytes_written h' = 1"
  using partial_body_write_repeats [of "header_handler_init\<lparr>hh_body := ''ab''\<rparr>" empty_os "[]" 7 1 1]
  by (simp add: empty_os_def)

end
