(* ===== verification/Server.thy ===== *)
theory Server
  imports LocationContext RequestHandler
begin

text \<open>
  \<^verbatim>\<open>webserver/server/client.hpp\<close>, \<^verbatim>\<open>server.cpp/.hpp\<close>: one virtual server with its
  clients, its configuration from a block of lines, its listening socket and the request
  buffers of its descriptors.
\<close>

section \<open>State\<close>

record client =
  cl_active :: bool
  cl_clientFD :: int
  cl_fileFD :: int
  cl_cgi_inputFD :: int
  cl_authorization_status :: bool
  cl_handler :: header_handler

definition new_client :: "int \<Rightarrow> client" where
  "new_client newFD = \<lparr>cl_active = False, cl_clientFD = newFD, cl_fileFD = -1,
     cl_cgi_inputFD = -1, cl_authorization_status = False, cl_handler = header_handler_init\<rparr>"

record server =
  sv_clients :: "client list"
  sv_port :: int
  sv_time_out :: int
  sv_host :: string
  sv_server_name :: string
  sv_error_page :: string
  sv_cgi_file_types :: string
  sv_location_blocks :: "location_context list"
  sv_tcp_socket :: int
  sv_request_buffer :: "int \<Rightarrow> request_buf option"

text \<open>The constructor; it leaves \<^verbatim>\<open>_time_out\<close> unset until \<open>reset_server\<close>.\<close>

definition server_init :: server where
  "server_init = \<lparr>sv_clients = [], sv_port = 0, sv_time_out = 0, sv_host = [],
     sv_server_name = [], sv_error_page = [], sv_cgi_file_types = [],
     sv_location_blocks = [], sv_tcp_socket = 0, sv_request_buffer = (\<lambda>_. None)\<rparr>"

definition reset_server :: "server \<Rightarrow> server" where
  "reset_server sv = sv\<lparr>sv_port := 0, sv_time_out := 0, sv_host := [], sv_server_name := [],
     sv_error_page := [], sv_cgi_file_types := [], sv_location_blocks := []\<rparr>"

section \<open>Configuration\<close>

datatype server_value =
    S_port | S_host | S_server_name | S_error_page | S_time_out | S_cgi_file_types
  | S_unknown | S_location

definition identify_server_value :: "string \<Rightarrow> server_value" where
  "identify_server_value str =
     (if contains str ''port'' then S_port
      else if contains str ''host'' then S_host
      else if contains str ''server_name'' then S_server_name
      else if contains str ''error_page'' then S_error_page
      else if contains str ''time_out'' then S_time_out
      else if contains str ''cgi_file_types'' then S_cgi_file_types
      else if contains str ''location'' then S_location
      else S_unknown)"

definition configure_port :: "string \<Rightarrow> server \<Rightarrow> server res" where
  "configure_port str sv = rbind (parse_number str) (\<lambda>n. Ret (sv\<lparr>sv_port := n\<rparr>))"

definition configure_host :: "string \<Rightarrow> server \<Rightarrow> server res" where
  "configure_host str sv = rbind (parse_string str) (\<lambda>s. Ret (sv\<lparr>sv_host := s\<rparr>))"

definition configure_server_name :: "string \<Rightarrow> server \<Rightarrow> server res" where
  "configure_server_name str sv = rbind (parse_string str) (\<lambda>s. Ret (sv\<lparr>sv_server_name := s\<rparr>))"

definition configure_error_page :: "string \<Rightarrow> server \<Rightarrow> server res" where
  "configure_error_page str sv = rbind (parse_string str) (\<lambda>s. Ret (sv\<lparr>sv_error_page := s\<rparr>))"

definition configure_time_out :: "string \<Rightarrow> server \<Rightarrow> server res" where
  "configure_time_out str sv = rbind (parse_number str) (\<lambda>n. Ret (sv\<lparr>sv_time_out := n\<rparr>))"

definition configure_cgi_file_types :: "string \<Rightarrow> server \<Rightarrow> server res" where
  "configure_cgi_file_types str sv = rbind (parse_string str) (\<lambda>s. Ret (sv\<lparr>sv_cgi_file_types := s\<rparr>))"

definition server_invalid_element :: "string \<Rightarrow> server \<Rightarrow> server res" where
  "server_invalid_element str sv = rbind (parse_invalid str) (\<lambda>_. Ret sv)"

definition configure_server :: "string \<Rightarrow> server \<Rightarrow> server res" where
  "configure_server str sv = (case identify_server_value str of
       S_port \<Rightarrow> configure_port str sv
     | S_host \<Rightarrow> configure_host str sv
     | S_server_name \<Rightarrow> configure_server_name str sv
     | S_error_page \<Rightarrow> configure_error_page str sv
     | S_time_out \<Rightarrow> configure_time_out str sv
     | S_cgi_file_types \<Rightarrow> configure_cgi_file_types str sv
     | _ \<Rightarrow> server_invalid_element str sv)"

text \<open>
  The loop over the lines.  One \<^verbatim>\<open>location\<close> object configures all blocks, and the lines
  inside a block are visited as lines of the server as well.
\<close>

fun create_lines ::
  "gnl_env \<Rightarrow> gnl_buf \<Rightarrow> string list \<Rightarrow> location_context \<Rightarrow> server \<Rightarrow> (server \<times> gnl_buf) res" where
  "create_lines env buf [] location sv = Ret (sv, buf)"
| "create_lines env buf (line # rest) location sv =
     (if identify_server_value line = S_location
      then rbind (configure_location_block env buf (line # rest) (location_block_size (line # rest)) location)
             (\<lambda>(location, buf). create_lines env buf rest location
                (sv\<lparr>sv_location_blocks := sv_location_blocks sv @ [location]\<rparr>))
      else rbind (configure_server line sv) (\<lambda>sv. create_lines env buf rest location sv))"

definition create_new_server ::
  "gnl_env \<Rightarrow> gnl_buf \<Rightarrow> string list \<Rightarrow> server \<Rightarrow> (server \<times> gnl_buf) res" where
  "create_new_server env buf server_config sv =
     create_lines env buf server_config location_context_init (reset_server sv)"

section \<open>The listening socket\<close>

definition create_socket :: "server \<Rightarrow> server io" where
  "create_socket sv =
     io_bind (call os_fd Sys_Socket) (\<lambda>fd.
     if fd = -1 then io_throw (Runtime_Error ''Socket creation failed'')
     else io_bind (call os_ok (Sys_Fcntl fd)) (\<lambda>ok.
       if ok then io_return (sv\<lparr>sv_tcp_socket := fd\<rparr>) else io_throw (Runtime_Error ''FCNTL failed'')))"

text \<open>\<^verbatim>\<open>htons\<close> takes the low 16 bits of the port.\<close>

definition bind_socket_address :: "int \<Rightarrow> server \<Rightarrow> unit io" where
  "bind_socket_address port sv =
     io_bind (call os_ok (Sys_Bind (sv_tcp_socket sv) (word_of_int port))) (\<lambda>ok.
     if ok then io_return () else io_throw (Runtime_Error ''Bind failed''))"

definition create_connection :: "int \<Rightarrow> server \<Rightarrow> unit io" where
  "create_connection backlog sv =
     io_bind (call os_ok (Sys_Listen (sv_tcp_socket sv) backlog)) (\<lambda>ok.
     if ok then io_return () else io_throw (Runtime_Error ''Listen failed''))"

section \<open>Requests and clients\<close>

definition remove_handled_request :: "int \<Rightarrow> server \<Rightarrow> server res" where
  "remove_handled_request used_fd sv =
     (case sv_request_buffer sv used_fd of
        None \<Rightarrow> Throw (Undef ''erase (end)'')
      | Some _ \<Rightarrow> Ret (sv\<lparr>sv_request_buffer := (sv_request_buffer sv)(used_fd := None)\<rparr>))"

text \<open>
  The loop goes on after \<^verbatim>\<open>erase (it)\<close>, where \<open>it\<close> is already the next client: that one
  is skipped, and after the last one the loop runs past the end.
\<close>

fun remove_client_loop :: "int \<Rightarrow> client list \<Rightarrow> client list io" where
  "remove_client_loop clientFD [] = io_return []"
| "remove_client_loop clientFD (c # cs) =
     (if clientFD = cl_clientFD c
      then io_bind (call os_ok (Sys_Close (cl_clientFD c))) (\<lambda>_.
           case cs of [] \<Rightarrow> io_throw (Undef ''past the end'')
           | d # ds \<Rightarrow> io_bind (remove_client_loop clientFD ds) (\<lambda>r. io_return (d # r)))
      else io_bind (remove_client_loop clientFD cs) (\<lambda>r. io_return (c # r)))"

definition remove_client :: "int \<Rightarrow> server \<Rightarrow> server io" where
  "remove_client clientFD sv =
     io_bind (remove_client_loop clientFD (sv_clients sv)) (\<lambda>cs. io_return (sv\<lparr>sv_clients := cs\<rparr>))"

definition update_request_buffer :: "int \<Rightarrow> string \<Rightarrow> server \<Rightarrow> (helper_values \<times> server) res" where
  "update_request_buffer fd request_data sv =
     rbind (receive request_data
        (case sv_request_buffer sv fd of None \<Rightarrow> request_buf_init | Some r \<Rightarrow> r)) (\<lambda>(verdict, r).
     Ret (verdict, sv\<lparr>sv_request_buffer := (sv_request_buffer sv)(fd := Some r)\<rparr>))"

section \<open>The buffer of get_next_line\<close>

lemma get_next_line_stops:
  "get_next_line m past readable buf rest = (ret, l, buf', rest') \<Longrightarrow> ret \<noteq> 1 \<Longrightarrow> ret \<noteq> -1 \<Longrightarrow> buf' = None"
  by (auto simp: get_next_line_def generate_output_def Let_def split: if_splits option.splits prod.splits)

lemma read_lines_stops:
  "read_lines m past readable acc buf rest = (ls, ret, buf') \<Longrightarrow> ret \<noteq> -1 \<Longrightarrow> buf' = None"
proof (induction m past readable acc buf rest rule: line_loop.induct)
  case (1 m past readable acc buf rest)
  obtain r l b t where g: "get_next_line m past readable buf rest = (r, l, b, t)"
    by (metis surj_pair)
  show ?case
  proof (cases "r = 1")
    case True
    with 1(1) [OF g [symmetric] refl refl True] 1(2,3) g show ?thesis
      by (simp add: read_lines_step [of m past readable acc])
  next
    case False
    with 1(2,3) g get_next_line_stops [OF g] show ?thesis
      by (simp add: read_lines_step [of m past readable acc])
  qed
qed

lemma configure_auth_user_info_buf:
  "configure_auth_user_info env buf str l = Ret (l', buf') \<Longrightarrow> buf' = None"
proof -
  assume c: "configure_auth_user_info env buf str l = Ret (l', buf')"
  then obtain f where "snd (snd (read_lines (ge_malloc env) (ge_past env) (f \<noteq> Unreadable) [] buf
      (case f of Unreadable \<Rightarrow> [] | Content s \<Rightarrow> s))) = buf'"
    "fst (snd (read_lines (ge_malloc env) (ge_past env) (f \<noteq> Unreadable) [] buf
      (case f of Unreadable \<Rightarrow> [] | Content s \<Rightarrow> s))) \<noteq> -1"
    by (auto simp: configure_auth_user_info_def read_lines_def rbind_eq_Inr case_prod_beta split: option.splits if_splits)
  then show "buf' = None" using read_lines_stops by (metis prod.collapse)
qed

lemma configure_location_buf:
  "configure_location env buf str l = Ret (l', buf') \<Longrightarrow> buf' = buf \<or> buf' = None"
  by (cases "identify_location_value str")
    (auto simp: configure_location_def rbind_eq_Inr dest: configure_auth_user_info_buf)

lemma configure_location_lines_buf:
  "configure_location_lines env buf ls l = Ret (l', buf') \<Longrightarrow> buf' = buf \<or> buf' = None"
proof (induction ls arbitrary: buf l)
  case (Cons s ls)
  then obtain l1 b1 where "configure_location env buf s l = Ret (l1, b1)"
    "configure_location_lines env b1 ls l1 = Ret (l', buf')"
    by (auto simp: rbind_eq_Inr)
  with Cons.IH configure_location_buf show ?case by blast
qed simp

lemma create_lines_buf:
  "create_lines env buf ls loc sv = Ret (sv', buf') \<Longrightarrow> buf' = buf \<or> buf' = None"
proof (induction env buf ls loc sv rule: create_lines.induct)
  case (2 env buf line rest loc sv)
  show ?case
  proof (cases "identify_server_value line = S_location")
    case True
    with 2(3) obtain l1 b1 where c: "configure_location_block env buf (line # rest)
        (location_block_size (line # rest)) loc = Ret (l1, b1)"
      and r: "create_lines env b1 rest l1 (sv\<lparr>sv_location_blocks := sv_location_blocks sv @ [l1]\<rparr>)
        = Ret (sv', buf')"
      by (auto simp: rbind_eq_Inr)
    from c have "b1 = buf \<or> b1 = None"
      by (auto simp: configure_location_block_def rbind_eq_Inr dest: configure_location_lines_buf)
    with 2(1) [OF True c refl r] show ?thesis by auto
  next
    case False
    with 2(2) [OF False] 2(3) show ?thesis by (auto simp: rbind_eq_Inr)
  qed
qed simp

lemma create_new_server_buf:
  "create_new_server env buf ls sv = Ret (sv', buf') \<Longrightarrow> buf_len buf' \<le> buf_len buf"
  using create_lines_buf by (fastforce simp: create_new_server_def buf_len_def)

end
