(* ===== verification/Configuration.thy ===== *)
theory Configuration
  imports Server CheckFunctions
begin

text \<open>
  The start of \<^verbatim>\<open>webserver/server/webserver.cpp\<close>: reading the configuration file into
  servers, checking them, and opening their sockets.
\<close>

section \<open>Definitions\<close>

text \<open>
  The reading loop: the lines of the block so far, the servers so far, and the one
  \<^verbatim>\<open>server\<close> object every block is configured into.  The result holds the unfinished block
  and the last code of \<^verbatim>\<open>get_next_line\<close>.  Lines were read before when there is a block or a server.
\<close>

function load_loop ::
  "gnl_env \<Rightarrow> bool \<Rightarrow> string list \<Rightarrow> server list \<Rightarrow> server \<Rightarrow> gnl_buf \<Rightarrow> string \<Rightarrow>
     (string list \<times> server list \<times> int \<times> gnl_buf) res" where
  "load_loop env readable server_block servers sv buf rest =
     (case get_next_line (ge_malloc env) (ge_past env) readable buf rest of
        (ret, line, buf, rest) \<Rightarrow>
          if ret = 1
          then let server_block = server_block @ (case line of None \<Rightarrow> [] | Some l \<Rightarrow> [l]) in
               if check_server_block server_block
               then rbind (create_new_server env buf server_block sv) (\<lambda>(sv, buf).
                    load_loop env readable [] (servers @ [sv]) sv buf rest)
               else load_loop env readable server_block servers sv buf rest
          else if freed_line ret line (server_block \<noteq> [] \<or> servers \<noteq> []) then Throw (Undef ''free'')
          else Ret (server_block, servers, ret, buf))"
  by pat_completeness auto
termination
  by (relation "measure (\<lambda>(env, readable, block, servers, sv, buf, rest). length rest + buf_len buf)")
    (auto dest!: get_next_line_shorter [OF sym] create_new_server_buf)

declare load_loop.simps [simp del]

definition load_configuration :: "gnl_env \<Rightarrow> string \<Rightarrow> (server list \<times> gnl_buf) res" where
  "load_configuration env config_file =
     (case ge_files env (c_str config_file) of
        None \<Rightarrow> Throw (Invalid_Argument ''Error opening config file'')
      | Some f \<Rightarrow>
          rbind (load_loop env (f \<noteq> Unreadable) [] [] server_init None
                   (case f of Unreadable \<Rightarrow> [] | Content s \<Rightarrow> s))
            (\<lambda>(server_block, servers, ret, buf).
             if ret = -1 then Throw (Runtime_Error ''Error while reading config file'')
             else if server_block \<noteq> []
             then Throw (Runtime_Error (''Error: missing '' @ [CHR 0x27, CHR ''{'', CHR 0x27] @ '' or ''
                 @ [CHR 0x27, CHR ''}'', CHR 0x27] @ '' in config file''))
             else Ret (servers, buf)))"

fun check_duplicates :: "int \<Rightarrow> bool \<Rightarrow> server list \<Rightarrow> unit res" where
  "check_duplicates port duplicate [] = Ret ()"
| "check_duplicates port duplicate (c # cs) =
     (if port = sv_port c
      then if duplicate then Throw (Invalid_Argument ''Error: duplicate port in configuration file'')
           else check_duplicates port True cs
      else check_duplicates port duplicate cs)"

definition validate_server :: "server list \<Rightarrow> server \<Rightarrow> unit res" where
  "validate_server servers sv =
     (if sv_port sv \<le> 0
      then Throw (Invalid_Argument ''Error: invalid/missing port in configuration file'')
      else if sv_time_out sv \<le> 0
      then Throw (Invalid_Argument ''Error: invalid time out in configuration file'')
      else rbind (check_duplicates (sv_port sv) False servers) (\<lambda>_.
           if sv_error_page sv = []
           then Throw (Invalid_Argument ''Error: error page location missing in configuration file'')
           else Ret ()))"

fun validate_each :: "server list \<Rightarrow> server list \<Rightarrow> unit res" where
  "validate_each servers [] = Ret ()"
| "validate_each servers (sv # rest) = rbind (validate_server servers sv) (\<lambda>_. validate_each servers rest)"

definition validate_configuration :: "server list \<Rightarrow> unit res" where
  "validate_configuration servers = validate_each servers servers"

fun establish_connection :: "server list \<Rightarrow> server list io" where
  "establish_connection [] = io_return []"
| "establish_connection (sv # rest) =
     io_bind (create_socket sv) (\<lambda>sv.
     io_bind (bind_socket_address (sv_port sv) sv) (\<lambda>_.
     io_bind (create_connection 1000 sv) (\<lambda>_.
     io_bind (establish_connection rest) (\<lambda>rest. io_return (sv # rest)))))"

section \<open>Validation\<close>

lemma check_duplicates_Ret:
  "check_duplicates p d svs = Ret () \<longleftrightarrow>
     length (filter (\<lambda>c. p = sv_port c) svs) + (if d then 1 else 0) \<le> 1"
  by (induction p d svs rule: check_duplicates.induct) auto

lemma validate_each_Ret:
  "validate_each svs rest = Ret () \<longleftrightarrow> (\<forall>sv\<in>set rest. validate_server svs sv = Ret ())"
  by (induction rest) (auto simp: rbind_eq_Inr)

lemma distinct_ports:
  "(\<forall>sv\<in>set svs. length (filter (\<lambda>c. sv_port sv = sv_port c) svs) \<le> 1) \<longleftrightarrow> distinct (map sv_port svs)"
proof (induction svs)
  case (Cons a svs)
  show ?case
  proof (cases "sv_port a \<in> sv_port ` set svs")
    case True
    then have "filter (\<lambda>c. sv_port a = sv_port c) svs \<noteq> []" by (auto simp: filter_empty_conv)
    then have "\<not> length (filter (\<lambda>c. sv_port a = sv_port c) (a # svs)) \<le> 1" by simp
    with True show ?thesis by auto
  next
    case False
    then have "filter (\<lambda>c. sv_port a = sv_port c) svs = []"
      and "\<forall>sv\<in>set svs. sv_port sv \<noteq> sv_port a"
      by (force simp: filter_empty_conv image_iff)+
    with Cons.IH False show ?thesis by auto
  qed
qed simp

section \<open>The file as its lines\<close>

text \<open>What the reading loop does, line by line, without the buffer.\<close>

fun load_lines ::
  "gnl_env \<Rightarrow> string list \<Rightarrow> server list \<Rightarrow> server \<Rightarrow> string list \<Rightarrow> (string list \<times> server list) res" where
  "load_lines env block servers sv [] = Ret (block, servers)"
| "load_lines env block servers sv (l # ls) =
     (if check_server_block (block @ [l])
      then rbind (create_new_server env (Some []) (block @ [l]) sv) (\<lambda>(sv, _).
           load_lines env [] (servers @ [sv]) sv ls)
      else load_lines env (block @ [l]) servers sv ls)"

lemma load_loop_lines:
  assumes "ge_malloc env = (\<lambda>_. True)" "idle buf" "NUL \<notin> set rest"
  shows "load_loop env True block servers sv buf rest
    = rbind (load_lines env block servers sv (lines_of rest)) (\<lambda>(block, servers). Ret (block, servers, 0, None))"
  using assms(2,3)
proof (induction rest arbitrary: block servers sv buf rule: lines_of.induct)
  case (1 s)
  show ?case
  proof (cases "s = []")
    case True
    with 1(2,3) assms(1) show ?thesis
      by (subst load_loop.simps) (simp add: get_next_line_idle freed_line_def)
  next
    case False
    let ?b = "block @ [line_of s]"
    have n: "NUL \<notin> set (after_line s)" using 1(3) set_after_line [of s] by blast
    have g: "get_next_line (ge_malloc env) (ge_past env) True buf s
        = (1, Some (line_of s), Some [], after_line s)"
      using 1(2,3) assms(1) False by (simp add: get_next_line_idle)
    have IH: "load_loop env True bl svs v b (after_line s)
        = rbind (load_lines env bl svs v (lines_of (after_line s))) (\<lambda>(bl, svs). Ret (bl, svs, 0, None))"
      if "idle b" for bl svs v b
      using 1(1) [OF False that n] .
    show ?thesis
    proof (cases "check_server_block ?b")
      case True
      have "load_loop env True block servers sv buf s
          = rbind (create_new_server env (Some []) ?b sv) (\<lambda>(sv, buf).
              load_loop env True [] (servers @ [sv]) sv buf (after_line s))"
        using True g by (subst load_loop.simps) simp
      also have "\<dots> = rbind (load_lines env block servers sv (lines_of s))
          (\<lambda>(block, servers). Ret (block, servers, 0, None))"
      proof (cases "create_new_server env (Some []) ?b sv")
        case (Inl e)
        with True False show ?thesis by (simp add: lines_of.simps [of s])
      next
        case (Inr r)
        obtain v b where r: "r = (v, b)" by (cases r)
        have "b = Some [] \<or> b = None"
          using create_lines_buf Inr r by (auto simp: create_new_server_def)
        then have "idle b" by (auto simp: idle_def)
        from IH [OF this] Inr r True False show ?thesis by (simp add: lines_of.simps [of s])
      qed
      finally show ?thesis .
    next
      case c: False
      have "load_loop env True block servers sv buf s
          = load_loop env True ?b servers sv (Some []) (after_line s)"
        using c g by (subst load_loop.simps) simp
      with IH [of "Some []"] c False show ?thesis by (simp add: lines_of.simps [of s] idle_def)
    qed
  qed
qed

section \<open>Printing a server and reading it back\<close>

definition server_keys :: "string list" where
  "server_keys = [''port'', ''host'', ''server_name'', ''error_page'', ''time_out'',
     ''cgi_file_types'', ''location'']"

fun server_key :: "server_value \<Rightarrow> string" where
  "server_key S_port = ''port''"
| "server_key S_host = ''host''"
| "server_key S_server_name = ''server_name''"
| "server_key S_error_page = ''error_page''"
| "server_key S_time_out = ''time_out''"
| "server_key S_cgi_file_types = ''cgi_file_types''"
| "server_key S_location = ''location''"
| "server_key S_unknown = ''#''"

text \<open>The names that are looked for before the one of \<open>k\<close>; a value must not hold them.\<close>

definition earlier_keys :: "server_value \<Rightarrow> string list" where
  "earlier_keys k = takeWhile (\<lambda>x. x \<noteq> server_key k) server_keys"

definition no_earlier :: "server_value \<Rightarrow> string \<Rightarrow> bool" where
  "no_earlier k v \<longleftrightarrow> (\<forall>x\<in>set (earlier_keys k). \<not> contains v x)"

definition server_line :: "server_value \<Rightarrow> string \<Rightarrow> string" where
  "server_line k v = replicate 4 SP @ server_key k @ SP # v"

lemma contains_own_key: "contains (bl @ key @ SP # v) key"
  unfolding contains_sublist by (metis sublist_appendI)

lemma identify_server_line:
  assumes "no_earlier k v" "set bl \<subseteq> {SP}"
  shows "identify_server_value (bl @ server_key k @ SP # v) = k"
proof -
  have e: "contains (bl @ server_key k @ SP # v) x \<longleftrightarrow> contains (server_key k) x"
    if "x \<in> set (earlier_keys k)" for x
  proof (rule contains_line [OF assms(2)])
    have "x \<in> set server_keys" using that unfolding earlier_keys_def by (metis set_takeWhileD)
    then show "SP \<notin> set x" "x \<noteq> []" by (auto simp: server_keys_def)
    show "\<not> contains v x" using assms(1) that by (simp add: no_earlier_def)
  qed
  have own: "contains (bl @ server_key k @ SP # v) (server_key k)" by (rule contains_own_key)
  show ?thesis
    by (cases k; insert e own;
        simp add: earlier_keys_def server_keys_def identify_server_value_def contains_find)
qed

lemma value_of_server_line: "value_of (server_line k v) = v"
proof -
  have "server_key k \<noteq> [] \<and> SP \<notin> set (server_key k)" by (cases k) simp_all
  then show ?thesis unfolding server_line_def by (intro value_of_line) auto
qed

definition server_head :: "server \<Rightarrow> string list" where
  "server_head sv =
     [''server {'', server_line S_port (decimal (sv_port sv)), server_line S_host (sv_host sv),
      server_line S_server_name (sv_server_name sv), server_line S_error_page (sv_error_page sv),
      server_line S_time_out (decimal (sv_time_out sv)),
      server_line S_cgi_file_types (sv_cgi_file_types sv)]"

definition location_block_lines :: "location_context \<Rightarrow> string list" where
  "location_block_lines l = location_lines l @ [''    }'']"

definition server_lines :: "server \<Rightarrow> string list" where
  "server_lines sv = server_head sv @ concat (map location_block_lines (sv_location_blocks sv)) @ [''}'']"

definition head_printable :: "server \<Rightarrow> bool" where
  "head_printable sv \<longleftrightarrow> int32 (sv_port sv) \<and> int32 (sv_time_out sv)
     \<and> no_earlier S_host (sv_host sv) \<and> no_earlier S_server_name (sv_server_name sv)
     \<and> no_earlier S_error_page (sv_error_page sv) \<and> no_earlier S_cgi_file_types (sv_cgi_file_types sv)
     \<and> (\<forall>s\<in>set (tl (server_head sv)). CHR 0x7B \<notin> set s \<and> CHR 0x7D \<notin> set s)"

text \<open>
  Inside a block, the first line is the only one the server's loop takes for a directive of
  its own, and the first line with a closing brace is the one behind the block.
\<close>

definition block_printable :: "location_context \<Rightarrow> bool" where
  "block_printable l \<longleftrightarrow> printable l
     \<and> identify_server_value (hd (location_lines l)) = S_location
     \<and> (\<forall>s\<in>set (tl (location_lines l)). identify_server_value s = S_unknown)
     \<and> (\<forall>s\<in>set (location_lines l). CHR 0x7D \<notin> set s)
     \<and> (\<forall>s\<in>set (tl (location_lines l)). CHR 0x7B \<notin> set s)"

lemma configure_unknown: "identify_server_value s = S_unknown \<Longrightarrow> configure_server s sv = Ret sv"
  by (simp add: configure_server_def server_invalid_element_def parse_invalid_def)

lemma create_lines_unknown:
  "\<forall>s\<in>set ls. identify_server_value s = S_unknown \<Longrightarrow>
     create_lines env buf (ls @ rest) loc sv = create_lines env buf rest loc sv"
  by (induction ls) (simp_all add: configure_unknown)

lemma no_earlier_decimal: "no_earlier k (decimal n)"
  unfolding no_earlier_def
proof
  fix x assume "x \<in> set (earlier_keys k)"
  then have "x \<in> set server_keys" unfolding earlier_keys_def by (metis set_takeWhileD)
  then have "\<exists>c\<in>set x. \<not> is_digit c \<and> c \<noteq> CHR ''-''"
    by (auto simp: server_keys_def is_digit_def schar_def)
  moreover note decimal_chars [of n]
  ultimately show "\<not> contains (decimal n) x"
    unfolding contains_sublist by (blast dest: set_mono_sublist)
qed

lemma identify_server_line4:
  "no_earlier k v \<Longrightarrow> identify_server_value (server_line k v) = k"
  unfolding server_line_def by (rule identify_server_line) auto

lemma parse_server_line:
  "parse_string (server_line k v) = Ret v"
  "int32 n \<Longrightarrow> parse_number (server_line k (decimal n)) = Ret n"
  by (simp_all add: parse_string_value parse_number_value value_of_server_line c_str_id
      decimal_no_NUL ft_atoi_decimal)

lemma create_head:
  assumes "head_printable sv"
  shows "create_lines env buf (server_head sv @ rest) loc sv0 = create_lines env buf rest loc
    (sv0\<lparr>sv_port := sv_port sv, sv_host := sv_host sv, sv_server_name := sv_server_name sv,
      sv_error_page := sv_error_page sv, sv_time_out := sv_time_out sv,
      sv_cgi_file_types := sv_cgi_file_types sv\<rparr>)"
proof -
  have u: "identify_server_value ''server {'' = S_unknown"
    by (simp add: identify_server_value_def contains_find)
  from assms have i: "no_earlier S_host (sv_host sv)" "no_earlier S_server_name (sv_server_name sv)"
    "no_earlier S_error_page (sv_error_page sv)" "no_earlier S_cgi_file_types (sv_cgi_file_types sv)"
    and n: "int32 (sv_port sv)" "int32 (sv_time_out sv)" by (simp_all add: head_printable_def)
  show ?thesis
    by (simp add: server_head_def u configure_unknown identify_server_line4 i no_earlier_decimal
        configure_server_def configure_port_def configure_host_def configure_server_name_def
        configure_error_page_def configure_time_out_def configure_cgi_file_types_def
        parse_server_line n server_invalid_element_def parse_invalid_def)
qed

text \<open>The blocks as the one object leaves them: every block has the redirections so far.\<close>

fun with_returns :: "(int \<times> string) list \<Rightarrow> location_context list \<Rightarrow> location_context list" where
  "with_returns m [] = []"
| "with_returns m (l # ls) =
     (let m' = merge_returns m (loc_return l) in l\<lparr>loc_return := m'\<rparr> # with_returns m' ls)"

lemma location_lines_Cons: "\<exists>s ss. location_lines l = s # ss"
  by (simp add: location_lines_def)

lemma create_block:
  assumes "block_printable l"
  shows "create_lines env buf (location_block_lines l @ rest) loc sv
    = (let l' = l\<lparr>loc_return := merge_returns (loc_return loc) (loc_return l)\<rparr> in
       create_lines env buf rest l' (sv\<lparr>sv_location_blocks := sv_location_blocks sv @ [l']\<rparr>))"
proof -
  obtain s ss where ls: "location_lines l = s # ss" using location_lines_Cons by blast
  with assms have s: "identify_server_value s = S_location"
    "\<forall>x\<in>set ss. identify_server_value x = S_unknown" and p: "printable l"
    and b: "\<forall>x\<in>set (location_lines l). CHR 0x7D \<notin> set x" by (auto simp: block_printable_def)
  have c: "identify_server_value ''    }'' = S_unknown"
    by (simp add: identify_server_value_def contains_find)
  have "location_block_size (location_lines l @ ''    }'' # rest) = length (location_lines l)"
    using location_block_size_loop_closed [OF b, of "''    }''" 0 rest]
    by (simp add: location_block_size_def)
  with configure_location_block_lines [OF p, of env buf "''    }'' # rest" loc]
  have "configure_location_block env buf (s # ss @ ''    }'' # rest)
      (location_block_size (s # ss @ ''    }'' # rest)) loc
      = Ret (l\<lparr>loc_return := merge_returns (loc_return loc) (loc_return l)\<rparr>, buf)"
    by (simp only: ls append_Cons)
  then show ?thesis
    using s create_lines_unknown [of "ss @ [''    }'']" env buf rest] c
    by (simp add: location_block_lines_def ls Let_def)
qed

lemma create_blocks:
  "\<forall>l\<in>set ls. block_printable l \<Longrightarrow>
     create_lines env buf (concat (map location_block_lines ls) @ [''}'']) loc sv
     = Ret (sv\<lparr>sv_location_blocks := sv_location_blocks sv @ with_returns (loc_return loc) ls\<rparr>, buf)"
proof (induction ls arbitrary: loc sv)
  case Nil
  have "identify_server_value ''}'' = S_unknown"
    by (simp add: identify_server_value_def contains_find)
  then show ?case by (simp add: configure_unknown)
next
  case (Cons l ls)
  then show ?case by (simp add: create_block Let_def)
qed

definition server_of :: "server \<Rightarrow> server \<Rightarrow> server" where
  "server_of sv sv0 = (reset_server sv0)\<lparr>sv_port := sv_port sv, sv_host := sv_host sv,
     sv_server_name := sv_server_name sv, sv_error_page := sv_error_page sv,
     sv_time_out := sv_time_out sv, sv_cgi_file_types := sv_cgi_file_types sv,
     sv_location_blocks := with_returns [] (sv_location_blocks sv)\<rparr>"

lemma create_printed_server:
  assumes "head_printable sv" "\<forall>l\<in>set (sv_location_blocks sv). block_printable l"
  shows "create_new_server env buf (server_lines sv) sv0 = Ret (server_of sv sv0, buf)"
  unfolding create_new_server_def server_lines_def server_of_def
  by (simp add: create_head [OF assms(1)] create_blocks [OF assms(2)] location_context_init_def
      reset_server_def)

section \<open>Braces\<close>

definition opens :: "string list \<Rightarrow> nat" where
  "opens ls = length (filter (\<lambda>l. CHR 0x7B \<in> set l) ls)"

definition closes :: "string list \<Rightarrow> nat" where
  "closes ls = length (filter (\<lambda>l. CHR 0x7D \<in> set l) ls)"

lemma braces_simps [simp]:
  "opens [] = 0" "opens (l # ls) = (if CHR 0x7B \<in> set l then 1 else 0) + opens ls"
  "opens (xs @ ys) = opens xs + opens ys"
  "closes [] = 0" "closes (l # ls) = (if CHR 0x7D \<in> set l then 1 else 0) + closes ls"
  "closes (xs @ ys) = closes xs + closes ys"
  by (simp_all add: opens_def closes_def)

lemma check_braces: "check_server_block ls \<longleftrightarrow> opens ls = closes ls \<and> 0 < opens ls"
  unfolding check_server_block_iff by (auto simp: opens_def closes_def filter_empty_conv)

lemma load_quiet:
  "closes block < opens block \<Longrightarrow> \<forall>l\<in>set ls. CHR 0x7B \<notin> set l \<and> CHR 0x7D \<notin> set l \<Longrightarrow>
     load_lines env block svs sv (ls @ rest) = load_lines env (block @ ls) svs sv rest"
  by (induction ls arbitrary: block) (simp_all add: check_braces)

lemma load_block:
  assumes "closes block < opens block" "block_printable l"
  shows "load_lines env block svs sv (location_block_lines l @ rest)
      = load_lines env (block @ location_block_lines l) svs sv rest
    \<and> opens (location_block_lines l) = closes (location_block_lines l)"
proof -
  obtain ss where ls: "location_lines l = location_line (loc_context l) # ss"
    by (simp add: location_lines_def)
  with assms(2) have q: "\<forall>x\<in>set ss. CHR 0x7B \<notin> set x \<and> CHR 0x7D \<notin> set x"
    and f: "CHR 0x7D \<notin> set (location_line (loc_context l))" by (auto simp: block_printable_def)
  have o: "CHR 0x7B \<in> set (location_line (loc_context l))" by (simp add: location_line_def)
  have "opens ss = 0" "closes ss = 0" using q by (auto simp: opens_def closes_def filter_empty_conv)
  with load_quiet [of "block @ [location_line (loc_context l)]" ss env svs sv "''    }'' # rest"] q f o assms(1)
  show ?thesis by (simp add: location_block_lines_def ls check_braces)
qed

lemma load_blocks:
  "closes block < opens block \<Longrightarrow> \<forall>l\<in>set ls. block_printable l \<Longrightarrow>
     load_lines env block svs sv (concat (map location_block_lines ls) @ rest)
       = load_lines env (block @ concat (map location_block_lines ls)) svs sv rest
     \<and> opens (concat (map location_block_lines ls)) = closes (concat (map location_block_lines ls))"
proof (induction ls arbitrary: block)
  case (Cons l ls)
  with load_block [of block l env svs sv "concat (map location_block_lines ls) @ rest"]
    Cons.IH [of "block @ location_block_lines l"] show ?case by simp
qed simp

lemma load_server:
  assumes "head_printable sv" "\<forall>l\<in>set (sv_location_blocks sv). block_printable l"
  shows "load_lines env [] svs sv0 (server_lines sv @ rest)
    = load_lines env [] (svs @ [server_of sv sv0]) (server_of sv sv0) rest"
proof -
  obtain hs where h: "server_head sv = ''server {'' # hs" by (simp add: server_head_def)
  with assms(1) have q: "\<forall>x\<in>set hs. CHR 0x7B \<notin> set x \<and> CHR 0x7D \<notin> set x"
    by (simp add: head_printable_def)
  then have b: "opens (server_head sv) = 1" "closes (server_head sv) = 0"
    using h by (auto simp: opens_def closes_def filter_empty_conv)
  let ?bs = "concat (map location_block_lines (sv_location_blocks sv))"
  have l: "load_lines env (server_head sv) svs sv0 (?bs @ ''}'' # rest)
      = load_lines env (server_head sv @ ?bs) svs sv0 (''}'' # rest)"
    and o: "opens ?bs = closes ?bs"
    using load_blocks [OF _ assms(2), of "server_head sv" env svs sv0 "''}'' # rest"] b by simp_all
  have "load_lines env [] svs sv0 (server_lines sv @ rest)
      = load_lines env (server_head sv) svs sv0 (?bs @ ''}'' # rest)"
    using load_quiet [of "[''server {'']" hs env svs sv0 "?bs @ ''}'' # rest"] q
    by (simp add: server_lines_def h check_braces)
  also from l have "\<dots> = load_lines env (server_head sv @ ?bs) svs sv0 (''}'' # rest)" .
  also have "\<dots> = load_lines env [] (svs @ [server_of sv sv0]) (server_of sv sv0) rest"
    using create_printed_server [OF assms, of env "Some []" sv0] o b
    by (simp add: check_braces server_lines_def)
  finally show ?thesis .
qed

text \<open>All servers of a file; each starts from what the object held after the one before.\<close>

fun servers_of :: "server \<Rightarrow> server list \<Rightarrow> server list" where
  "servers_of sv0 [] = []"
| "servers_of sv0 (sv # svs) = server_of sv sv0 # servers_of (server_of sv sv0) svs"

definition config_printable :: "server list \<Rightarrow> bool" where
  "config_printable svs \<longleftrightarrow> (\<forall>sv\<in>set svs. head_printable sv \<and> (\<forall>l\<in>set (sv_location_blocks sv). block_printable l))"

lemma load_servers:
  "config_printable svs \<Longrightarrow> load_lines env [] acc sv0 (concat (map server_lines svs))
     = Ret ([], acc @ servers_of sv0 svs)"
proof (induction svs arbitrary: acc sv0)
  case (Cons sv svs)
  then show ?case by (simp add: load_server config_printable_def)
qed simp

definition config_text :: "server list \<Rightarrow> string" where
  "config_text svs = concat (map (\<lambda>l. l @ [LF]) (concat (map server_lines svs)))"

lemma lines_of_text: "\<forall>l\<in>set ls. LF \<notin> set l \<Longrightarrow> lines_of (concat (map (\<lambda>l. l @ [LF]) ls)) = ls"
  by (induction ls) (simp_all add: lines_of_line)

section \<open>Properties\<close>

lemma load_printed:
  assumes "config_printable svs" "ge_malloc env = (\<lambda>_. True)"
    and "ge_files env (c_str path) = Some (Content (config_text svs))"
    and "\<forall>l\<in>set (concat (map server_lines svs)). LF \<notin> set l \<and> NUL \<notin> set l"
  shows "load_configuration env path = Ret (servers_of server_init svs, None)"
proof -
  have l: "lines_of (config_text svs) = concat (map server_lines svs)"
    unfolding config_text_def using assms(4) by (intro lines_of_text) blast
  have n: "NUL \<notin> set (config_text svs)" using assms(4) by (auto simp: config_text_def)
  have i: "idle None" by (simp add: idle_def)
  from load_loop_lines [OF assms(2) i n, of "[]" "[]" server_init] load_servers [OF assms(1), of env "[]" server_init] l
  show ?thesis by (simp add: load_configuration_def assms(3))
qed

text \<open>A configuration file with one server and one location block.\<close>

definition sample_location :: location_context where
  "sample_location = location_context_init\<lparr>loc_context := ''/a'', loc_root := ''/w'',
     loc_allowed_method := [''GET''], loc_auth_basic := ''off''\<rparr>"

definition sample_server :: server where
  "sample_server = server_init\<lparr>sv_port := 80, sv_time_out := 5, sv_host := ''localhost'',
     sv_server_name := ''s'', sv_error_page := ''e/'', sv_cgi_file_types := ''.php'',
     sv_location_blocks := [sample_location]\<rparr>"

definition sample_env :: gnl_env where
  "sample_env = \<lparr>ge_files = (\<lambda>_. Some (Content (config_text [sample_server]))),
     ge_malloc = (\<lambda>_. True), ge_past = NUL\<rparr>"

lemma sample_config:
  "config_printable [sample_server]"
  "\<forall>l\<in>set (concat (map server_lines [sample_server])). LF \<notin> set l \<and> NUL \<notin> set l"
proof -
  have d: "decimal 80 = ''80''" "decimal 5 = ''5''" "decimal 0 = ''0''"
    by (simp_all add: decimal_def dec_digits.simps [of 80] dec_digits.simps [of 8]
        dec_digits.simps [of 5] dec_digits.simps [of 0] digit_char_lit)
  have ll: "location_lines sample_location = [''        location /a {'', ''        root /w'',
      ''        allowed_method GET'', ''        index '', ''        autoindex off'', ''        alias off'',
      ''        max_file_size 0'', ''        auth_basic off'']"
    by (simp add: location_lines_def location_line_def directive_def indent_def on_off_def d
        sample_location_def location_context_init_def numeral_eq_Suc)
  have hd: "server_head sample_server = [''server {'', ''    port 80'', ''    host localhost'',
      ''    server_name s'', ''    error_page e/'', ''    time_out 5'', ''    cgi_file_types .php'']"
    by (simp add: server_head_def server_line_def d sample_server_def numeral_eq_Suc)
  have "printable sample_location"
    by (simp add: printable_def plain_value_def location_keys_def contains_find int32_def
        sorted_map_def sample_location_def location_context_init_def)
  then have b: "block_printable sample_location"
    unfolding block_printable_def ll by (simp add: identify_server_value_def contains_find)
  have "head_printable sample_server"
    unfolding head_printable_def hd
    by (simp add: no_earlier_def earlier_keys_def server_keys_def contains_find int32_def sample_server_def)
  with b show "config_printable [sample_server]" by (simp add: config_printable_def sample_server_def)
  have "sv_location_blocks sample_server = [sample_location]" by (simp add: sample_server_def)
  then show "\<forall>l\<in>set (concat (map server_lines [sample_server])). LF \<notin> set l \<and> NUL \<notin> set l"
    by (simp add: server_lines_def hd location_block_lines_def ll)
qed

lemma sample_env_select [simp]:
  "ge_malloc sample_env = (\<lambda>_. True)" "ge_files sample_env f = Some (Content (config_text [sample_server]))"
  by (simp_all add: sample_env_def)

text \<open>
  C6. Loading a configuration undoes printing it: a file that holds the printed form of
  some servers, none of whose values contains the name of another directive, a brace or a
  line end, is read into exactly these servers (with every location block carrying the
  redirections of the blocks before it).
\<close>

theorem load_configuration_roundtrip:
  assumes "config_printable svs" "ge_malloc env = (\<lambda>_. True)"
    and "ge_files env (c_str path) = Some (Content (config_text svs))"
    and "\<forall>l\<in>set (concat (map server_lines svs)). LF \<notin> set l \<and> NUL \<notin> set l"
  shows "load_configuration env path = Ret (servers_of server_init svs, None)"
  using assms by (rule load_printed)

theorem load_configuration_roundtrip_witness:
  "\<exists>env sv. load_configuration env ''c'' = Ret ([sv], None) \<and> sv_port sv = 80
     \<and> sv_host sv = ''localhost'' \<and> map loc_context (sv_location_blocks sv) = [''/a'']"
  using load_configuration_roundtrip [OF sample_config(1) _ _ sample_config(2), of sample_env "''c''"]
  by (intro exI [of _ sample_env] exI [of _ "server_of sample_server server_init"])
    (simp add: server_of_def sample_server_def sample_location_def)

lemma validate_configuration_Ret:
  "validate_configuration servers = Ret () \<longleftrightarrow>
     list_all (\<lambda>sv. 0 < sv_port sv \<and> 0 < sv_time_out sv \<and> sv_error_page sv \<noteq> []) servers
     \<and> distinct (map sv_port servers)"
proof -
  have "validate_server servers sv = Ret () \<longleftrightarrow> 0 < sv_port sv \<and> 0 < sv_time_out sv
      \<and> sv_error_page sv \<noteq> [] \<and> length (filter (\<lambda>c. sv_port sv = sv_port c) servers) \<le> 1" for sv
    using check_duplicates_Ret [of "sv_port sv" False servers]
    by (auto simp: validate_server_def rbind_eq_Inr not_le)
  then show ?thesis
    unfolding validate_configuration_def validate_each_Ret distinct_ports [symmetric]
    by (auto simp: list_all_iff)
qed

text \<open>
  C40. A configuration passes the check exactly when every server has a positive port and
  time out and an error page and no two servers share a port.
\<close>

theorem validate_configuration_iff:
  "validate_configuration servers = Ret () \<longleftrightarrow>
     list_all (\<lambda>sv. 0 < sv_port sv \<and> 0 < sv_time_out sv \<and> sv_error_page sv \<noteq> []) servers
     \<and> distinct (map sv_port servers)"
  by (rule validate_configuration_Ret)

text \<open>
  A checked configuration can still ask for one port twice: there are two servers whose
  different ports pass the check and are bound as the same 16-bit number.
\<close>

theorem distinct_ports_bound_equal:
  "\<exists>a b. validate_configuration [a, b] = Ret ()
     \<and> (word_of_int (sv_port a) :: 16 word) = word_of_int (sv_port b)"
proof (intro exI conjI)
  let ?s = "\<lambda>p. server_init\<lparr>sv_port := p, sv_time_out := 5, sv_error_page := ''e''\<rparr>"
  show "validate_configuration [?s 8080, ?s 73616] = Ret ()"
    by (simp add: validate_configuration_def validate_server_def)
  show "(word_of_int (sv_port (?s 8080)) :: 16 word) = word_of_int (sv_port (?s 73616))"
    by (simp add: word_of_int_eq_iff take_bit_eq_mod)
qed

definition listen_calls :: "server \<Rightarrow> syscall list" where
  "listen_calls sv = [Sys_Socket, Sys_Fcntl (sv_tcp_socket sv),
     Sys_Bind (sv_tcp_socket sv) (word_of_int (sv_port sv)), Sys_Listen (sv_tcp_socket sv) 1000]"

lemma establish_connection_Ret:
  assumes "establish_connection servers os t = (Ret servers', t')"
  shows "t' = t @ concat (map listen_calls servers') \<and> list_all (\<lambda>sv. sv_tcp_socket sv \<noteq> -1) servers'
     \<and> map (sv_tcp_socket_update (\<lambda>_. 0)) servers' = map (sv_tcp_socket_update (\<lambda>_. 0)) servers"
  using assms
proof (induction servers arbitrary: t servers')
  case (Cons sv rest)
  then obtain fd rest' where
    f: "fd \<noteq> -1" "servers' = sv\<lparr>sv_tcp_socket := fd\<rparr> # rest'"
    and r: "establish_connection rest os (t @ listen_calls (sv\<lparr>sv_tcp_socket := fd\<rparr>)) = (Ret rest', t')"
    by (auto simp: create_socket_def bind_socket_address_def create_connection_def io_bind_Ret io_base
        listen_calls_def split: if_splits)
  from Cons.IH [OF r] f show ?case by (simp add: append_assoc)
qed (simp add: io_base)

text \<open>
  When the connections are established, every server has a valid socket of its own
  that was bound to its port and listens, in the order of the file, and nothing else about
  the servers changed.
\<close>

theorem establish_connection_listens:
  assumes "establish_connection servers os t = (Ret servers', t')"
  shows "t' = t @ concat (map listen_calls servers') \<and> list_all (\<lambda>sv. sv_tcp_socket sv \<noteq> -1) servers'
     \<and> map (sv_tcp_socket_update (\<lambda>_. 0)) servers' = map (sv_tcp_socket_update (\<lambda>_. 0)) servers"
  using assms by (rule establish_connection_Ret)

theorem establish_connection_listens_witness:
  "\<exists>sv'. establish_connection [server_init] empty_os [] = (Ret [sv'], [] @ concat (map listen_calls [sv']))"
proof -
  have "\<exists>sv' t'. establish_connection [server_init] empty_os [] = (Ret [sv'], t')"
    by (simp add: create_socket_def bind_socket_address_def create_connection_def io_simps empty_os_def)
  then obtain sv' t' where e: "establish_connection [server_init] empty_os [] = (Ret [sv'], t')" by blast
  from establish_connection_listens [OF this] e show ?thesis by auto
qed

end
