(* ===== verification/FileDescriptors.thy ===== *)
theory FileDescriptors
  imports Server
begin

text \<open>
  \<^verbatim>\<open>webserver/server/file_descriptors.cpp/.hpp\<close>: the descriptor sets handed to
  \<^verbatim>\<open>select\<close>, the buffers they are refilled from, and the time of the last activity of
  every client.  An \<^verbatim>\<open>fd_set\<close> is the set of its members; the macros are undefined outside
  \<open>0 .. 1023\<close>.
\<close>

section \<open>State\<close>

record file_descriptors =
  fd_read :: "int set"
  fd_write :: "int set"
  fd_read_buffer :: "int set"
  fd_write_buffer :: "int set"
  fd_max :: int
  fd_time_out_monitor :: "int \<Rightarrow> int option"

definition file_descriptors_init :: file_descriptors where
  "file_descriptors_init = \<lparr>fd_read = {}, fd_write = {}, fd_read_buffer = {},
     fd_write_buffer = {}, fd_max = -1, fd_time_out_monitor = (\<lambda>_. None)\<rparr>"

definition valid_fd :: "int \<Rightarrow> bool" where
  "valid_fd fd \<longleftrightarrow> 0 \<le> fd \<and> fd < 1024"

definition checked :: "int \<Rightarrow> 'a \<Rightarrow> 'a res" where
  "checked fd x = (if valid_fd fd then Ret x else Throw (Undef ''fd_set''))"

section \<open>Operations\<close>

definition set_read_buffer :: "int \<Rightarrow> file_descriptors \<Rightarrow> file_descriptors res" where
  "set_read_buffer fd f = checked fd (f\<lparr>fd_read_buffer := insert fd (fd_read_buffer f)\<rparr>)"

definition set_write_buffer :: "int \<Rightarrow> file_descriptors \<Rightarrow> file_descriptors res" where
  "set_write_buffer fd f = checked fd (f\<lparr>fd_write_buffer := insert fd (fd_write_buffer f)\<rparr>)"

definition clr_from_read_buffer :: "int \<Rightarrow> file_descriptors \<Rightarrow> file_descriptors res" where
  "clr_from_read_buffer fd f = checked fd (f\<lparr>fd_read_buffer := fd_read_buffer f - {fd}\<rparr>)"

definition clr_from_write_buffer :: "int \<Rightarrow> file_descriptors \<Rightarrow> file_descriptors res" where
  "clr_from_write_buffer fd f = checked fd (f\<lparr>fd_write_buffer := fd_write_buffer f - {fd}\<rparr>)"

definition clr_fd_sets :: "file_descriptors \<Rightarrow> file_descriptors" where
  "clr_fd_sets f = f\<lparr>fd_read_buffer := {}, fd_write_buffer := {}\<rparr>"

definition rdy_for_reading :: "int \<Rightarrow> file_descriptors \<Rightarrow> bool res" where
  "rdy_for_reading fd f = (if fd = -1 then Ret False else checked fd (fd \<in> fd_read f))"

definition rdy_for_writing :: "int \<Rightarrow> file_descriptors \<Rightarrow> bool res" where
  "rdy_for_writing fd f = (if fd = -1 then Ret False else checked fd (fd \<in> fd_write f))"

fun add_sockets :: "server list \<Rightarrow> int set \<Rightarrow> int set res" where
  "add_sockets [] s = Ret s"
| "add_sockets (sv # svs) s = rbind (checked (sv_tcp_socket sv) (insert (sv_tcp_socket sv) s)) (add_sockets svs)"

definition synchronize :: "server list \<Rightarrow> file_descriptors \<Rightarrow> file_descriptors res" where
  "synchronize servers f = rbind (add_sockets servers (fd_read_buffer f)) (\<lambda>r.
     Ret (f\<lparr>fd_read := r, fd_write := fd_write_buffer f\<rparr>))"

definition initialize_max :: "server list \<Rightarrow> file_descriptors \<Rightarrow> file_descriptors" where
  "initialize_max servers f =
     f\<lparr>fd_max := foldl (\<lambda>m sv. if m < sv_tcp_socket sv then sv_tcp_socket sv else m) (fd_max f) servers\<rparr>"

definition update_max :: "int \<Rightarrow> file_descriptors \<Rightarrow> file_descriptors" where
  "update_max fd f = (if fd < fd_max f then f else f\<lparr>fd_max := fd\<rparr>)"

definition accepted_request_update :: "int \<Rightarrow> file_descriptors \<Rightarrow> file_descriptors res" where
  "accepted_request_update activeFD f =
     rbind (set_read_buffer activeFD f) (\<lambda>f. Ret (update_max activeFD f))"

definition handled_request_update ::
  "int \<Rightarrow> int \<Rightarrow> string \<Rightarrow> string \<Rightarrow> string \<Rightarrow> file_descriptors \<Rightarrow> file_descriptors res" where
  "handled_request_update fileFD activeFD cgi_file_types content_type m f =
     rbind (clr_from_read_buffer activeFD f) (\<lambda>f.
     let f = update_max fileFD f in
     rbind (if fileFD \<noteq> -1 then set_read_buffer fileFD f else set_write_buffer activeFD f) (\<lambda>f.
     if contains cgi_file_types content_type \<or> m = ''PUT'' \<or> m = ''POST''
     then set_write_buffer fileFD f else Ret f))"

definition read_request_update :: "int \<Rightarrow> int \<Rightarrow> file_descriptors \<Rightarrow> file_descriptors res" where
  "read_request_update fileFD activeFD f =
     rbind (rdy_for_writing fileFD f) (\<lambda>w.
     rbind (if w then clr_from_write_buffer fileFD f else Ret f) (\<lambda>f.
     rbind (clr_from_read_buffer fileFD f) (\<lambda>f.
     set_write_buffer activeFD f)))"

definition send_response_update :: "client \<Rightarrow> file_descriptors \<Rightarrow> (client \<times> file_descriptors) io" where
  "send_response_update c f =
     io_bind (io_of (clr_from_write_buffer (cl_clientFD c) f)) (\<lambda>f.
     io_bind (if cl_cgi_inputFD c \<noteq> -1 then call os_ok (Sys_Close (cl_cgi_inputFD c)) else io_return True) (\<lambda>_.
     io_bind (call os_ok (Sys_Close (cl_fileFD c))) (\<lambda>_.
     io_bind (io_of (set_read_buffer (cl_clientFD c) f)) (\<lambda>f.
     io_return (c\<lparr>cl_cgi_inputFD := -1, cl_fileFD := -1\<rparr>, f)))))"

definition max_client :: "int \<Rightarrow> client \<Rightarrow> int" where
  "max_client m c = max (max (max m (cl_clientFD c)) (cl_fileFD c)) (cl_cgi_inputFD c)"

definition max_server :: "int \<Rightarrow> server \<Rightarrow> int" where
  "max_server m sv = max (foldl max_client m (sv_clients sv)) (sv_tcp_socket sv)"

definition sync_maxFD :: "server list \<Rightarrow> file_descriptors \<Rightarrow> file_descriptors" where
  "sync_maxFD servers f = f\<lparr>fd_max := foldl max_server 0 servers + 1\<rparr>"

definition get_max :: "file_descriptors \<Rightarrow> int" where
  "get_max f = fd_max f + 1"

text \<open>The loop with its two flags; the flag of the result is \<^verbatim>\<open>restart_cycle\<close>.\<close>

fun rotate_active :: "int \<Rightarrow> bool \<Rightarrow> bool \<Rightarrow> client list \<Rightarrow> client list \<times> bool" where
  "rotate_active clientFD activate restart [] = ([], restart)"
| "rotate_active clientFD activate restart (c # cs) =
     (if cl_clientFD c = clientFD
      then (let (cs, r) = rotate_active clientFD True restart cs in (c\<lparr>cl_active := False\<rparr> # cs, r))
      else if activate
      then (let (cs, r) = rotate_active clientFD False False cs in (c\<lparr>cl_active := True\<rparr> # cs, r))
      else (let (cs, r) = rotate_active clientFD activate restart cs in (c\<lparr>cl_active := False\<rparr> # cs, r)))"

definition update_active_client :: "client list \<Rightarrow> int \<Rightarrow> client list res" where
  "update_active_client clients clientFD =
     (case rotate_active clientFD False True clients of
        (cs, restart) \<Rightarrow>
          if restart
          then (case cs of [] \<Rightarrow> Throw (Undef ''begin () of no clients'')
                | c # cs \<Rightarrow> Ret (c\<lparr>cl_active := True\<rparr> # cs))
          else Ret cs)"

definition set_time_out :: "int \<Rightarrow> file_descriptors \<Rightarrow> file_descriptors io" where
  "set_time_out fd f = io_bind (call os_time Sys_Time) (\<lambda>now.
     io_return (f\<lparr>fd_time_out_monitor := (fd_time_out_monitor f)(fd := Some now)\<rparr>))"

fun time_out_loop ::
  "int \<Rightarrow> int \<Rightarrow> int \<Rightarrow> file_descriptors \<Rightarrow> client list \<Rightarrow> (client list \<times> file_descriptors) io" where
  "time_out_loop now clientFD time_out f [] = io_return ([], f)"
| "time_out_loop now clientFD time_out f (c # cs) =
     (if cl_clientFD c = clientFD
      then (case fd_time_out_monitor f clientFD of
              None \<Rightarrow> io_throw (Undef ''end () dereferenced'')
            | Some recorded \<Rightarrow>
                if recorded \<noteq> 0 \<and> time_out \<le> now - recorded
                then io_bind (io_of (clr_from_read_buffer clientFD f)) (\<lambda>f.
                     io_bind (call os_ok (Sys_Close clientFD)) (\<lambda>_. io_return (cs, f)))
                else io_return (c # cs, f))
      else io_bind (time_out_loop now clientFD time_out f cs) (\<lambda>(cs, f). io_return (c # cs, f)))"

definition check_time_out ::
  "client list \<Rightarrow> int \<Rightarrow> int \<Rightarrow> file_descriptors \<Rightarrow> (client list \<times> file_descriptors) io" where
  "check_time_out clients clientFD time_out f =
     io_bind (call os_time Sys_Time) (\<lambda>now. time_out_loop now clientFD time_out f clients)"

section \<open>Rotation\<close>

abbreviation fds_of :: "client list \<Rightarrow> int list" where
  "fds_of \<equiv> map cl_clientFD"

abbreviation actives :: "client list \<Rightarrow> int list" where
  "actives cs \<equiv> map cl_clientFD (filter cl_active cs)"

text \<open>The client after \<open>fd\<close>, or the first one.\<close>

fun successor :: "int \<Rightarrow> int list \<Rightarrow> int option" where
  "successor fd [] = None"
| "successor fd [a] = None"
| "successor fd (a # b # as) = (if a = fd then Some b else successor fd (b # as))"

lemma rotate_fds: "fds_of (fst (rotate_active fd a r cs)) = fds_of cs"
  by (induction fd a r cs rule: rotate_active.induct) (auto split: prod.splits)

lemma rotate_none:
  "fd \<notin> set (fds_of cs) \<Longrightarrow> rotate_active fd False r cs = (map (cl_active_update (\<lambda>_. False)) cs, r)"
  by (induction cs) auto

lemma rotate_next:
  "fd \<notin> set (fds_of cs) \<Longrightarrow> rotate_active fd True r cs =
     (case cs of [] \<Rightarrow> ([], r)
      | c # cs \<Rightarrow> (c\<lparr>cl_active := True\<rparr> # map (cl_active_update (\<lambda>_. False)) cs, False))"
  by (cases cs) (auto simp: rotate_none)

lemma actives_none [simp]: "actives (map (cl_active_update (\<lambda>_. False)) cs) = []"
  by (induction cs) auto

lemma rotate_actives:
  "distinct (fds_of cs) \<Longrightarrow> rotate_active fd False True cs = (cs', r) \<Longrightarrow>
     (case successor fd (fds_of cs) of None \<Rightarrow> r \<and> actives cs' = [] | Some b \<Rightarrow> \<not> r \<and> actives cs' = [b])"
proof (induction cs arbitrary: cs')
  case (Cons c cs)
  show ?case
  proof (cases "cl_clientFD c = fd")
    case True
    then have "rotate_active fd True True cs = (case cs of [] \<Rightarrow> ([], True)
        | c # cs \<Rightarrow> (c\<lparr>cl_active := True\<rparr> # map (cl_active_update (\<lambda>_. False)) cs, False))"
      using Cons.prems(1) by (intro rotate_next) auto
    with True Cons.prems show ?thesis
      by (cases cs) (auto simp del: rotate_active.simps(2) simp: rotate_active.simps(2) [of _ _ _ c])
  next
    case False
    with Cons.prems obtain cs1 where "rotate_active fd False True cs = (cs1, r)"
      "cs' = c\<lparr>cl_active := False\<rparr> # cs1" by (auto split: prod.splits)
    with Cons.IH [of cs1] Cons.prems(1) False show ?thesis
      by (cases cs) (auto simp del: rotate_active.simps(2) split: option.splits)
  qed
qed simp

lemma update_active_fds:
  "update_active_client cs fd = Ret cs' \<Longrightarrow> fds_of cs' = fds_of cs"
  using rotate_fds [of fd False True cs]
  by (auto simp: update_active_client_def split: prod.splits if_splits list.splits)

section \<open>Bounds\<close>

lemma max_client_le: "m \<le> foldl max_client m cs"
proof (induction cs arbitrary: m)
  case (Cons c cs)
  have "m \<le> max_client m c" by (simp add: max_client_def)
  with Cons [of "max_client m c"] show ?case by simp
qed simp

lemma max_client_bound:
  "c \<in> set cs \<Longrightarrow> cl_clientFD c \<le> foldl max_client m cs \<and> cl_fileFD c \<le> foldl max_client m cs
     \<and> cl_cgi_inputFD c \<le> foldl max_client m cs"
proof (induction cs arbitrary: m)
  case (Cons d cs)
  show ?case
  proof (cases "c = d")
    case True
    have "cl_clientFD d \<le> max_client m d" "cl_fileFD d \<le> max_client m d"
      "cl_cgi_inputFD d \<le> max_client m d" by (simp_all add: max_client_def)
    with True max_client_le [of "max_client m d" cs] show ?thesis by force
  qed (use Cons in auto)
qed simp

lemma max_server_le: "m \<le> foldl max_server m svs"
proof (induction svs arbitrary: m)
  case (Cons sv svs)
  have "m \<le> max_server m sv" using max_client_le [of m "sv_clients sv"] by (simp add: max_server_def)
  with Cons [of "max_server m sv"] show ?case by simp
qed simp

lemma max_server_bound:
  "sv \<in> set svs \<Longrightarrow> sv_tcp_socket sv \<le> foldl max_server m svs
    \<and> (\<forall>c\<in>set (sv_clients sv). cl_clientFD c \<le> foldl max_server m svs
         \<and> cl_fileFD c \<le> foldl max_server m svs \<and> cl_cgi_inputFD c \<le> foldl max_server m svs)"
proof (induction svs arbitrary: m)
  case (Cons s svs)
  show ?case
  proof (cases "sv = s")
    case True
    let ?m = "max_server m s"
    have "?m \<le> foldl max_server ?m svs" by (rule max_server_le)
    moreover have "foldl max_client m (sv_clients s) \<le> ?m" "sv_tcp_socket s \<le> ?m"
      by (simp_all add: max_server_def)
    ultimately show ?thesis using True max_client_bound [of _ "sv_clients s" m] by fastforce
  qed (use Cons in auto)
qed simp

section \<open>Properties\<close>

text \<open>
  C36. Rotating the active client leaves exactly one client active: the one behind the
  client that was served, or the first when that was the last (or is not there), and no
  client is lost or moved.
\<close>

theorem update_active_client_rotates:
  assumes "distinct (fds_of clients)" "clients \<noteq> []"
  shows "\<exists>clients'. update_active_client clients clientFD = Ret clients'
     \<and> fds_of clients' = fds_of clients
     \<and> actives clients' = [case successor clientFD (fds_of clients) of
           Some fd \<Rightarrow> fd | None \<Rightarrow> hd (fds_of clients)]"
proof -
  obtain cs r where rot: "rotate_active clientFD False True clients = (cs, r)" by fastforce
  have f: "fds_of cs = fds_of clients" using rotate_fds [of clientFD False True clients] rot by simp
  with assms(2) obtain c cs1 where cs: "cs = c # cs1" by (cases cs) auto
  show ?thesis
  proof (cases "successor clientFD (fds_of clients)")
    case None
    with rotate_actives [OF assms(1) rot] have r: r "actives cs = []" by auto
    then have "\<not> cl_active c" "actives cs1 = []" by (auto simp: cs split: if_splits)
    with r rot cs f None show ?thesis
      by (cases clients) (auto simp: update_active_client_def filter_empty_conv)
  next
    case (Some b)
    with rotate_actives [OF assms(1) rot] rot f show ?thesis by (simp add: update_active_client_def)
  qed
qed

theorem update_active_client_rotates_witness:
  "\<exists>cs. update_active_client [new_client 4, new_client 7, new_client 9] 7 = Ret cs
     \<and> fds_of cs = [4, 7, 9] \<and> actives cs = [9]"
  using update_active_client_rotates [of "[new_client 4, new_client 7, new_client 9]" 7]
  by (simp add: new_client_def)

text \<open>
  After \<^verbatim>\<open>sync_maxFD\<close> the number handed to \<^verbatim>\<open>select\<close> is above every socket and every
  descriptor of every client, so none of them is left out of the next round.
\<close>

theorem sync_maxFD_bound:
  assumes "sv \<in> set servers"
  shows "sv_tcp_socket sv < get_max (sync_maxFD servers f)
     \<and> list_all (\<lambda>c. cl_clientFD c < get_max (sync_maxFD servers f)
          \<and> cl_fileFD c < get_max (sync_maxFD servers f)
          \<and> cl_cgi_inputFD c < get_max (sync_maxFD servers f)) (sv_clients sv)"
  using max_server_bound [OF assms, of 0] by (force simp: get_max_def sync_maxFD_def list_all_iff)

theorem sync_maxFD_bound_witness:
  "sv_tcp_socket server_init < get_max (sync_maxFD [server_init] file_descriptors_init)"
  using sync_maxFD_bound [of server_init "[server_init]" file_descriptors_init] by simp

end
