(* ===== verification/EventLoop.thy ===== *)
theory EventLoop
  imports FileDescriptors Configuration
begin

text \<open>
  \<^verbatim>\<open>webserver::run\<close> (\<^verbatim>\<open>webserver/server/webserver.cpp\<close>): one round of \<^verbatim>\<open>select\<close>, for
  every server the acceptance of a connection, and for every client the \<^verbatim>\<open>try\<close> block with
  its four parts.  A step of the \<^verbatim>\<open>try\<close> block gives the state it reaches even when it
  throws, because the handler of \<^verbatim>\<open>std::string\<close> exceptions goes on from there.
\<close>

section \<open>State and steps\<close>

record loop_state =
  ls_fd :: file_descriptors
  ls_server :: server
  ls_check :: bool

text \<open>\<open>Continue\<close> is the statement that ends the treatment of the client.\<close>

datatype flow = Next | Continue

type_synonym step = "loop_state \<Rightarrow> os \<Rightarrow> history \<Rightarrow> flow res \<times> loop_state \<times> history"

definition done_with :: "flow \<Rightarrow> step" where
  "done_with f = (\<lambda>s os t. (Ret f, s, t))"

text \<open>Run an operation from the state; \<open>k\<close> goes on with its result, an exception keeps the state.\<close>

definition act :: "'a io \<Rightarrow> ('a \<Rightarrow> step) \<Rightarrow> step" where
  "act m k = (\<lambda>s os t. case m os t of
     (Inl e, t') \<Rightarrow> (Inl e, s, t') | (Inr x, t') \<Rightarrow> k x s os t')"

definition modify :: "(loop_state \<Rightarrow> loop_state) \<Rightarrow> step \<Rightarrow> step" where
  "modify f k = (\<lambda>s. k (f s))"

definition get :: "(loop_state \<Rightarrow> 'a) \<Rightarrow> ('a \<Rightarrow> step) \<Rightarrow> step" where
  "get f k = (\<lambda>s. k (f s) s)"

definition seq_steps :: "step \<Rightarrow> step \<Rightarrow> step" where
  "seq_steps a b = (\<lambda>s os t. case a s os t of
     (Inr Next, s', t') \<Rightarrow> b s' os t' | r \<Rightarrow> r)"

definition client_at :: "nat \<Rightarrow> loop_state \<Rightarrow> client" where
  "client_at i s = sv_clients (ls_server s) ! i"

definition set_client :: "nat \<Rightarrow> client \<Rightarrow> loop_state \<Rightarrow> loop_state" where
  "set_client i c s = s\<lparr>ls_server := (ls_server s)\<lparr>sv_clients := (sv_clients (ls_server s))[i := c]\<rparr>\<rparr>"

definition set_handler :: "nat \<Rightarrow> header_handler \<Rightarrow> loop_state \<Rightarrow> loop_state" where
  "set_handler i h s = set_client i ((client_at i s)\<lparr>cl_handler := h\<rparr>) s"

definition set_fds :: "file_descriptors \<Rightarrow> loop_state \<Rightarrow> loop_state" where
  "set_fds f s = s\<lparr>ls_fd := f\<rparr>"

definition set_server :: "server \<Rightarrow> loop_state \<Rightarrow> loop_state" where
  "set_server sv s = s\<lparr>ls_server := sv\<rparr>"

definition set_check :: "bool \<Rightarrow> loop_state \<Rightarrow> loop_state" where
  "set_check b s = s\<lparr>ls_check := b\<rparr>"

definition set_clients :: "client list \<Rightarrow> loop_state \<Rightarrow> loop_state" where
  "set_clients cs s = s\<lparr>ls_server := (ls_server s)\<lparr>sv_clients := cs\<rparr>\<rparr>"

section \<open>The parts of the try block\<close>

definition set_time_out_check :: "server \<Rightarrow> client \<Rightarrow> bool" where
  "set_time_out_check sv c \<longleftrightarrow>
     \<not> ((case sv_request_buffer sv (cl_clientFD c) of
           None \<Rightarrow> False | Some r \<Rightarrow> wrap32 (int (rb_body_size r)) \<noteq> 0)
        \<or> hh_bytes_written (cl_handler c) \<noteq> 0)"

definition accept_request_data :: "int \<Rightarrow> string io" where
  "accept_request_data fd =
     io_bind (call os_data (Sys_Read fd)) (\<lambda>answer. io_of (read_browser_request [] answer))"

text \<open>A complete request: parse it, drop its buffer, handle it, and arrange the descriptors.\<close>

definition start_request :: "nat \<Rightarrow> step" where
  "start_request i =
     get (client_at i) (\<lambda>c. get ls_server (\<lambda>sv.
     act (io_of (parse_request
            (case sv_request_buffer sv (cl_clientFD c) of None \<Rightarrow> request_buf_init | Some r \<Rightarrow> r)
            (cl_handler c))) (\<lambda>h.
     modify (set_handler i h) (
     get ls_server (\<lambda>sv. act (io_of (remove_handled_request (cl_clientFD c) sv)) (\<lambda>sv.
     modify (set_server sv) (
     act (handle_request (sv_cgi_file_types sv) (sv_location_blocks sv) (sv_error_page sv) h
            (cl_authorization_status c)) (\<lambda>(fileFD, h, auth).
     modify (set_client i (c\<lparr>cl_handler := h, cl_authorization_status := auth, cl_fileFD := fileFD\<rparr>)) (
     get ls_fd (\<lambda>f.
     act (io_of (handled_request_update fileFD (cl_clientFD c) (sv_cgi_file_types sv)
            (verify_content_type h) (hh_method h) f)) (\<lambda>f.
     modify (set_fds f) (
     if is_cgi (sv_cgi_file_types sv) h
     then act (create_cgi_fd ''input'') (\<lambda>cgi.
          get (client_at i) (\<lambda>c. modify (set_client i (c\<lparr>cl_cgi_inputFD := cgi\<rparr>)) (
          get ls_fd (\<lambda>f. act (io_of (set_write_buffer cgi f)) (\<lambda>f.
          modify (set_fds (update_max cgi f)) (done_with Next))))))
     else done_with Next))))))))))))"

definition read_part :: "nat \<Rightarrow> step" where
  "read_part i =
     get (client_at i) (\<lambda>c. get ls_fd (\<lambda>f.
     act (io_of (rdy_for_reading (cl_clientFD c) f)) (\<lambda>ready.
     if \<not> ready then done_with Next
     else act (accept_request_data (cl_clientFD c)) (\<lambda>request_headers.
          if request_headers = [] then done_with Next
          else modify (set_check False) (
               act (set_time_out (cl_clientFD c) f) (\<lambda>f.
               modify (set_fds f) (
               get ls_server (\<lambda>sv.
               act (io_of (update_request_buffer (cl_clientFD c) request_headers sv)) (\<lambda>(verdict, sv).
               modify (set_server sv) (
               if verdict = valid then start_request i else done_with Next))))))))))"

text \<open>Writing the body out, to the CGI process or the file.\<close>

definition body_part :: "nat \<Rightarrow> step" where
  "body_part i =
     get (client_at i) (\<lambda>c. get ls_fd (\<lambda>f. get ls_server (\<lambda>sv.
     let h = cl_handler c; size = wrap32 (int (length (hh_body h))) in
     act (io_of (rdy_for_writing (cl_fileFD c) f)) (\<lambda>ready.
     if ready \<and> hh_status h < 400 \<and> \<not> hh_write_to_file h
     then if hh_bytes_written h < size \<or> size = 0
          then act (io_of (if is_cgi (sv_cgi_file_types sv) h then rdy_for_writing (cl_cgi_inputFD c) f
                           else Ret False)) (\<lambda>cgi.
               act (if cgi then execute_cgi (cl_cgi_inputFD c) (cl_fileFD c) (sv_server_name sv) (sv_port sv)
                              (cl_authorization_status c) (hh_authorization h) h
                    else write_body_to_file (cl_fileFD c) h) (\<lambda>h.
               modify (set_handler i (if size = 0 then h\<lparr>hh_write_to_file := True\<rparr> else h)) (
               done_with Continue)))
          else modify (set_handler i (h\<lparr>hh_bytes_written := 0, hh_write_to_file := True\<rparr>)) (
               modify (set_check False) (done_with Next))
     else done_with Next))))"

text \<open>Reading the answer in.\<close>

definition answer_part :: "nat \<Rightarrow> step" where
  "answer_part i =
     get (client_at i) (\<lambda>c.
     let h = cl_handler c in
     if hh_status h \<noteq> 204 \<and> \<not> hh_read_from_file h
     then act (if verify_content_type h = ''bla'' \<and> hh_method h = ''POST''
               then read_cgi_output_file (cl_fileFD c) h else read_requested_file (cl_fileFD c) h) (\<lambda>(ret, h).
          if ret \<noteq> 0 then modify (set_handler i h) (done_with Continue)
          else modify (set_handler i (h\<lparr>hh_bytes_read := 0, hh_read_from_file := True\<rparr>)) (
               modify (set_check False) (done_with Next)))
     else done_with Next)"

definition file_update_part :: "nat \<Rightarrow> step" where
  "file_update_part i =
     get (client_at i) (\<lambda>c. get ls_fd (\<lambda>f.
     act (io_of (read_request_update (cl_fileFD c) (cl_clientFD c) f)) (\<lambda>f.
     modify (set_fds f) (
     if cl_cgi_inputFD c \<noteq> -1
     then act (io_of (clr_from_write_buffer (cl_cgi_inputFD c) f)) (\<lambda>f. modify (set_fds f) (done_with Next))
     else done_with Next))))"

definition file_part :: "nat \<Rightarrow> step" where
  "file_part i =
     get (client_at i) (\<lambda>c. get ls_fd (\<lambda>f.
     act (io_of (rdy_for_reading (cl_fileFD c) f)) (\<lambda>ready.
     if ready then seq_steps (body_part i) (seq_steps (answer_part i) (file_update_part i))
     else done_with Next)))"

definition send_part :: "nat \<Rightarrow> step" where
  "send_part i =
     get (client_at i) (\<lambda>c. get ls_fd (\<lambda>f. get ls_server (\<lambda>sv.
     act (io_of (rdy_for_writing (cl_clientFD c) f)) (\<lambda>ready.
     if \<not> ready then done_with Next
     else modify (set_check False) (
          act (if hh_bytes_written (cl_handler c) = 0
               then create_response (cl_fileFD c) (sv_server_name sv) (cl_handler c)
               else io_return (cl_handler c)) (\<lambda>h.
          modify (set_handler i h) (
          act (send_response (cl_clientFD c) h) (\<lambda>h.
          modify (set_handler i h) (
          if hh_bytes_written h < hh_response_size h then done_with Continue
          else modify (set_handler i (h\<lparr>hh_bytes_written := 0\<rparr>)) (
               get (client_at i) (\<lambda>c.
               act (send_response_update c f) (\<lambda>(c, f).
               modify (set_client i c) (modify (set_fds f) (
               get ls_server (\<lambda>sv.
               act (io_of (update_active_client (sv_clients sv) (cl_clientFD c))) (\<lambda>cs.
               modify (set_clients cs) (done_with Next)))))))))))))))))"

definition time_out_part :: "nat \<Rightarrow> step" where
  "time_out_part i =
     get ls_check (\<lambda>check.
     if \<not> check then done_with Next
     else get (client_at i) (\<lambda>c. get ls_server (\<lambda>sv.
          act (io_of (update_active_client (sv_clients sv) (cl_clientFD c))) (\<lambda>cs.
          modify (set_clients cs) (
          get ls_fd (\<lambda>f.
          act (check_time_out cs (cl_clientFD c) (sv_time_out sv) f) (\<lambda>(cs, f).
          modify (set_clients cs) (modify (set_fds f) (done_with Next)))))))))"

definition try_block :: "nat \<Rightarrow> step" where
  "try_block i =
     get ls_server (\<lambda>sv. get (client_at i) (\<lambda>c.
     modify (set_check (set_time_out_check sv c)) (
     if \<not> cl_active c then done_with Continue
     else seq_steps (read_part i) (seq_steps (file_part i) (seq_steps (send_part i) (time_out_part i))))))"

section \<open>The handler of exceptions\<close>

definition drop_fd :: "int \<Rightarrow> file_descriptors \<Rightarrow> file_descriptors res" where
  "drop_fd fd f =
     rbind (rdy_for_reading fd f) (\<lambda>r.
     rbind (if r then clr_from_read_buffer fd f else Ret f) (\<lambda>f.
     rbind (rdy_for_writing fd f) (\<lambda>w.
     if w then clr_from_write_buffer fd f else Ret f)))"

definition close_used :: "int \<Rightarrow> bool io" where
  "close_used fd = (if fd \<noteq> -1 then call os_ok (Sys_Close fd) else io_return True)"

definition clean_up_after_error ::
  "file_descriptors \<Rightarrow> server \<Rightarrow> client \<Rightarrow> (file_descriptors \<times> server) io" where
  "clean_up_after_error f sv c =
     io_bind (io_of (rbind (drop_fd (cl_clientFD c) f) (drop_fd (cl_fileFD c)))) (\<lambda>f.
     io_bind (close_used (cl_fileFD c)) (\<lambda>_.
     io_bind (io_of (drop_fd (cl_cgi_inputFD c) f)) (\<lambda>f.
     io_bind (close_used (cl_cgi_inputFD c)) (\<lambda>_.
     io_bind (if length (sv_clients sv) = 1
              then io_bind (call os_ok (Sys_Close (cl_clientFD c))) (\<lambda>_. io_return (sv\<lparr>sv_clients := []\<rparr>))
              else remove_client (cl_clientFD c) sv) (\<lambda>sv.
     io_return (f, sv))))))"

section \<open>The loops\<close>

text \<open>
  The loop over the clients.  \<open>n\<close> counts down from the number of clients at its start; that
  is enough, since no step adds a client (\<open>try_block_clients\<close> below).
\<close>

fun client_loop :: "nat \<Rightarrow> nat \<Rightarrow> loop_state \<Rightarrow> os \<Rightarrow> history \<Rightarrow> unit res \<times> loop_state \<times> history" where
  "client_loop 0 i s os t = (Ret (), s, t)"
| "client_loop (Suc n) i s os t =
     (if i < length (sv_clients (ls_server s))
      then case try_block i s os t of
             (Inr _, s', t') \<Rightarrow> client_loop n (Suc i) s' os t'
           | (Inl (Str_Exn e), s', t') \<Rightarrow>
               (case clean_up_after_error (ls_fd s') (ls_server s') (client_at i s') os t' of
                  (Inl e', t'') \<Rightarrow> (Inl e', s', t'')
                | (Inr (f, sv), t'') \<Rightarrow> client_loop n (Suc i) (set_server sv (set_fds f s')) os t'')
           | (Inl e, s', t') \<Rightarrow> (Inl e, s', t')
      else (Ret (), s, t))"

definition add_client :: "int \<Rightarrow> client list \<Rightarrow> client list" where
  "add_client newFD cs = (let cs = cs @ [new_client newFD] in
     if length cs = 1 then [(hd cs)\<lparr>cl_active := True\<rparr>] else cs)"

definition accept_part :: step where
  "accept_part =
     get ls_server (\<lambda>sv. get ls_fd (\<lambda>f.
     act (io_of (rdy_for_reading (sv_tcp_socket sv) f)) (\<lambda>ready.
     if \<not> ready then done_with Next
     else act (call os_fd (Sys_Accept (sv_tcp_socket sv))) (\<lambda>newFD.
          if newFD = -1 then done_with Continue
          else act (call os_ok (Sys_Fcntl newFD)) (\<lambda>ok.
               if \<not> ok then done_with Continue
               else act (set_time_out newFD f) (\<lambda>f.
                    modify (set_fds f) (
                    act (io_of (accepted_request_update newFD f)) (\<lambda>f.
                    modify (set_fds f) (
                    modify (set_clients (add_client newFD (sv_clients sv))) (done_with Next))))))))))"

definition server_round :: "loop_state \<Rightarrow> os \<Rightarrow> history \<Rightarrow> unit res \<times> loop_state \<times> history" where
  "server_round s os t = (case accept_part s os t of
       (Inl e, s', t') \<Rightarrow> (Inl e, s', t')
     | (Inr Continue, s', t') \<Rightarrow> (Ret (), s', t')
     | (Inr Next, s', t') \<Rightarrow> client_loop (length (sv_clients (ls_server s'))) 0 s' os t')"

fun servers_round ::
  "file_descriptors \<Rightarrow> bool \<Rightarrow> server list \<Rightarrow> (server list \<times> file_descriptors \<times> bool) io" where
  "servers_round f check [] os t = (Ret ([], f, check), t)"
| "servers_round f check (sv # svs) os t =
     (case server_round \<lparr>ls_fd = f, ls_server = sv, ls_check = check\<rparr> os t of
        (Inl e, s', t') \<Rightarrow> (Inl e, t')
      | (Inr _, s', t') \<Rightarrow>
          (case servers_round (ls_fd s') (ls_check s') svs os t' of
             (Inl e, t'') \<Rightarrow> (Inl e, t'')
           | (Inr (svs', f', check'), t'') \<Rightarrow> (Ret (ls_server s' # svs', f', check'), t'')))"

record webserver =
  ws_servers :: "server list"
  ws_time_out_check :: bool
  ws_fd :: file_descriptors

definition run_round :: "webserver \<Rightarrow> webserver io" where
  "run_round ws =
     io_bind (io_of (synchronize (ws_servers ws) (ws_fd ws))) (\<lambda>f.
     io_bind (call os_ready (Sys_Select (get_max f) (fd_read f) (fd_write f))) (\<lambda>answer.
     case answer of
       None \<Rightarrow> io_return (ws\<lparr>ws_fd := clr_fd_sets f\<rparr>)
     | Some (r, w) \<Rightarrow>
         io_bind (servers_round (f\<lparr>fd_read := fd_read f \<inter> r, fd_write := fd_write f \<inter> w\<rparr>)
                    (ws_time_out_check ws) (ws_servers ws)) (\<lambda>(svs, f, check).
         io_return \<lparr>ws_servers = svs, ws_time_out_check = check, ws_fd = sync_maxFD svs f\<rparr>)))"

text \<open>The state with which \<^verbatim>\<open>run\<close> enters its loop.\<close>

definition run_start :: "server list \<Rightarrow> webserver" where
  "run_start servers = \<lparr>ws_servers = servers, ws_time_out_check = False,
     ws_fd = initialize_max servers file_descriptors_init\<rparr>"

text \<open>\<open>rounds os ws t ws' t'\<close>: the loop gets from \<open>ws\<close> to \<open>ws'\<close> in some number of rounds.\<close>

inductive rounds :: "os \<Rightarrow> webserver \<Rightarrow> history \<Rightarrow> webserver \<Rightarrow> history \<Rightarrow> bool"
  for os :: os and ws :: webserver and t :: history
where
  start: "rounds os ws t ws t"
| round: "rounds os ws t ws1 t1 \<Longrightarrow> run_round ws1 os t1 = (Ret ws2, t2) \<Longrightarrow> rounds os ws t ws2 t2"

inductive_cases rounds_cases: "rounds os ws t ws' t'"


lemma run_round_cases:
  assumes "run_round ws os t = (Ret ws', t')"
  obtains f where "synchronize (ws_servers ws) (ws_fd ws) = Ret f" "ws' = ws\<lparr>ws_fd := clr_fd_sets f\<rparr>"
  | f r w svs f' check t1 where "synchronize (ws_servers ws) (ws_fd ws) = Ret f"
      "servers_round (f\<lparr>fd_read := r, fd_write := w\<rparr>) (ws_time_out_check ws) (ws_servers ws) os t1
         = (Ret (svs, f', check), t')"
      "ws' = \<lparr>ws_servers = svs, ws_time_out_check = check, ws_fd = sync_maxFD svs f'\<rparr>"
  using assms by (auto simp: run_round_def io_bind_Ret io_base split: option.splits)

end
