(* ===== verification/LoopInvariant.thy ===== *)
theory LoopInvariant
  imports EventLoop
begin

text \<open>
  What the parts of the event loop keep: no step loses the recorded time of a client, no step
  but the acceptance of a connection adds a client, and therefore every client of a reachable
  state has a recorded time.
\<close>

section \<open>What a step keeps\<close>

definition leads :: "(loop_state \<Rightarrow> bool) \<Rightarrow> step \<Rightarrow> (loop_state \<Rightarrow> bool) \<Rightarrow> bool" where
  "leads P a Q \<longleftrightarrow> (\<forall>s os t r s' t'. P s \<longrightarrow> a s os t = (r, s', t') \<longrightarrow> Q s')"

lemma leadsD: "leads P a Q \<Longrightarrow> P s \<Longrightarrow> a s os t = (r, s', t') \<Longrightarrow> Q s'"
  unfolding leads_def by blast

lemma leads_done: "(\<And>s. P s \<Longrightarrow> Q s) \<Longrightarrow> leads P (done_with f) Q"
  by (simp add: leads_def done_with_def)

lemma leads_get: "(\<And>s. P s \<Longrightarrow> leads P (k (f s)) Q) \<Longrightarrow> leads P (get f k) Q"
  unfolding leads_def get_def by blast

lemma leads_modify: "(\<And>s. P s \<Longrightarrow> P' (f s)) \<Longrightarrow> leads P' k Q \<Longrightarrow> leads P (modify f k) Q"
  unfolding leads_def modify_def by blast

lemma leads_act:
  assumes "\<And>s. P s \<Longrightarrow> Q s" "\<And>x os t t'. m os t = (Inr x, t') \<Longrightarrow> leads P (k x) Q"
  shows "leads P (act m k) Q"
  unfolding leads_def act_def
proof (intro allI impI)
  fix s os t r s' t'
  assume P: "P s" and a: "(case m os t of (Inl e, t') \<Rightarrow> (Inl e, s, t') | (Inr x, t') \<Rightarrow> k x s os t') = (r, s', t')"
  obtain z t1 where m: "m os t = (z, t1)" by fastforce
  show "Q s'"
  proof (cases z)
    case (Inl e)
    with a m P assms(1) show ?thesis by simp
  next
    case (Inr x)
    with a m have k: "k x s os t1 = (r, s', t')" by simp
    have "leads P (k x) Q" using assms(2) m Inr by blast
    from leadsD [OF this P k] show ?thesis .
  qed
qed

lemma leads_seq: "leads P a R \<Longrightarrow> leads R b Q \<Longrightarrow> (\<And>s. R s \<Longrightarrow> Q s) \<Longrightarrow> leads P (seq_steps a b) Q"
  unfolding leads_def seq_steps_def
  by (fastforce split: prod.splits sum.splits flow.splits)

lemma leads_if: "(b \<Longrightarrow> leads P x Q) \<Longrightarrow> (\<not> b \<Longrightarrow> leads P y Q) \<Longrightarrow> leads P (if b then x else y) Q"
  by simp

lemma leads_case_prod: "(\<And>x y. z = (x, y) \<Longrightarrow> leads P (k x y) Q) \<Longrightarrow> leads P (case z of (x, y) \<Rightarrow> k x y) Q"
  by (cases z) simp

text \<open>The clients with their descriptors \<open>L\<close>, and the descriptors \<open>D\<close> with a recorded time.\<close>

definition holds_clients :: "int list \<Rightarrow> int set \<Rightarrow> loop_state \<Rightarrow> bool" where
  "holds_clients L D s \<longleftrightarrow> fds_of (sv_clients (ls_server s)) = L
     \<and> D \<subseteq> dom (fd_time_out_monitor (ls_fd s))"

definition holds_fewer :: "int list \<Rightarrow> int set \<Rightarrow> loop_state \<Rightarrow> bool" where
  "holds_fewer L D s \<longleftrightarrow> set (fds_of (sv_clients (ls_server s))) \<subseteq> set L
     \<and> length (sv_clients (ls_server s)) \<le> length L \<and> D \<subseteq> dom (fd_time_out_monitor (ls_fd s))"

lemma holds_clients_fewer: "holds_clients L D s \<Longrightarrow> holds_fewer L D s"
  by (auto simp: holds_clients_def holds_fewer_def dest: arg_cong [where f = length])

lemma leads_modify_same: "(\<And>s. P s \<Longrightarrow> P (f s)) \<Longrightarrow> leads P k Q \<Longrightarrow> leads P (modify f k) Q"
  by (rule leads_modify)

lemma holds_set_fds:
  "holds_clients L D s \<Longrightarrow> D \<subseteq> dom (fd_time_out_monitor f) \<Longrightarrow> holds_clients L D (set_fds f s)"
  by (simp add: holds_clients_def set_fds_def)

lemma holds_set_check: "holds_clients L D s \<Longrightarrow> holds_clients L D (set_check b s)"
  by (simp add: holds_clients_def set_check_def)

lemma holds_set_server:
  "holds_clients L D s \<Longrightarrow> fds_of (sv_clients sv) = L \<Longrightarrow> holds_clients L D (set_server sv s)"
  by (simp add: holds_clients_def set_server_def)

lemma holds_set_clients:
  "holds_clients L D s \<Longrightarrow> fds_of cs = L \<Longrightarrow> holds_clients L D (set_clients cs s)"
  by (simp add: holds_clients_def set_clients_def)

lemma holds_set_client:
  "holds_clients L D s \<Longrightarrow> cl_clientFD c = L ! i \<Longrightarrow> holds_clients L D (set_client i c s)"
  by (auto simp: holds_clients_def set_client_def map_update)

lemma holds_client_at:
  "holds_clients L D s \<Longrightarrow> i < length L \<Longrightarrow> cl_clientFD (client_at i s) = L ! i"
  by (auto simp: holds_clients_def client_at_def)

lemma holds_set_handler:
  "holds_clients L D s \<Longrightarrow> i < length L \<Longrightarrow> holds_clients L D (set_handler i h s)"
  by (simp add: set_handler_def holds_set_client holds_client_at)

lemma holds_fds: "holds_clients L D s \<Longrightarrow> fds_of (sv_clients (ls_server s)) = L"
  by (simp add: holds_clients_def)

lemmas holds_intros = holds_set_fds holds_set_check holds_set_server holds_set_clients
  holds_set_client holds_set_handler

lemmas leads_intros = leads_get leads_act leads_modify_same leads_if leads_done leads_case_prod

text \<open>No operation on the sets forgets a recorded time.\<close>

lemma checked_Ret: "checked fd x = Ret y \<longleftrightarrow> valid_fd fd \<and> y = x"
  by (auto simp: checked_def)

lemma monitor_sets:
  "set_read_buffer fd f = Ret f' \<Longrightarrow> fd_time_out_monitor f' = fd_time_out_monitor f"
  "set_write_buffer fd f = Ret f' \<Longrightarrow> fd_time_out_monitor f' = fd_time_out_monitor f"
  "clr_from_read_buffer fd f = Ret f' \<Longrightarrow> fd_time_out_monitor f' = fd_time_out_monitor f"
  "clr_from_write_buffer fd f = Ret f' \<Longrightarrow> fd_time_out_monitor f' = fd_time_out_monitor f"
  by (auto simp: set_read_buffer_def set_write_buffer_def clr_from_read_buffer_def
      clr_from_write_buffer_def checked_Ret)

lemma monitor_update_max [simp]: "fd_time_out_monitor (update_max fd f) = fd_time_out_monitor f"
  by (simp add: update_max_def)

lemma monitor_handled:
  "handled_request_update a b c d e f = Ret f' \<Longrightarrow> fd_time_out_monitor f' = fd_time_out_monitor f"
  by (auto simp: handled_request_update_def rbind_eq_Inr Let_def dest!: monitor_sets split: if_splits)

lemma monitor_read_request:
  "read_request_update a b f = Ret f' \<Longrightarrow> fd_time_out_monitor f' = fd_time_out_monitor f"
  by (auto simp: read_request_update_def rbind_eq_Inr dest!: monitor_sets split: if_splits)

lemma monitor_accepted:
  "accepted_request_update a f = Ret f' \<Longrightarrow> fd_time_out_monitor f' = fd_time_out_monitor f"
  by (auto simp: accepted_request_update_def rbind_eq_Inr dest!: monitor_sets)

lemma monitor_drop:
  "drop_fd a f = Ret f' \<Longrightarrow> fd_time_out_monitor f' = fd_time_out_monitor f"
  by (auto simp: drop_fd_def rbind_eq_Inr dest!: monitor_sets split: if_splits)

lemma monitor_send_response:
  "send_response_update c f os t = (Ret (c', f'), t') \<Longrightarrow>
     fd_time_out_monitor f' = fd_time_out_monitor f \<and> cl_clientFD c' = cl_clientFD c"
  by (auto simp: send_response_update_def io_bind_Ret io_base dest!: monitor_sets split: if_splits)

lemma set_time_out_monitor:
  "set_time_out fd f os t = (Ret f', t') \<Longrightarrow>
     dom (fd_time_out_monitor f') = insert fd (dom (fd_time_out_monitor f))"
  by (auto simp: set_time_out_def io_bind_Ret io_base)

lemma check_time_out_clients:
  "check_time_out cs fd n f os t = (Ret (cs', f'), t') \<Longrightarrow>
     set (fds_of cs') \<subseteq> set (fds_of cs) \<and> length cs' \<le> length cs
     \<and> fd_time_out_monitor f' = fd_time_out_monitor f"
proof -
  have "time_out_loop now fd n f cs os t = (Ret (cs', f'), t') \<Longrightarrow>
     set (fds_of cs') \<subseteq> set (fds_of cs) \<and> length cs' \<le> length cs
     \<and> fd_time_out_monitor f' = fd_time_out_monitor f" for now t
  proof (induction cs arbitrary: t cs')
    case (Cons c cs)
    then show ?case
      by (auto simp: io_bind_Ret io_base dest!: monitor_sets split: if_splits option.splits) fastforce+
  qed (simp add: io_base)
  then show "check_time_out cs fd n f os t = (Ret (cs', f'), t') \<Longrightarrow> ?thesis"
    unfolding check_time_out_def io_bind_Ret by blast
qed


section \<open>The parts keep the clients\<close>

lemma io_of_Inr: "io_of r os t = (Inr x, t') \<longleftrightarrow> r = Inr x \<and> t' = t"
  by (auto simp: io_of_def)

lemma holds_from:
  "fd_time_out_monitor f = fd_time_out_monitor (ls_fd s') \<Longrightarrow> holds_clients L D s' \<Longrightarrow>
     holds_clients L D s \<Longrightarrow> holds_clients L D (set_fds f s)"
  by (simp add: holds_clients_def set_fds_def)

lemma holds_set_time_out:
  "set_time_out fd (ls_fd s') os t = (Inr f, t') \<Longrightarrow> holds_clients L D s' \<Longrightarrow>
     holds_clients L D s \<Longrightarrow> holds_clients L D (set_fds f s)"
  by (auto simp: holds_clients_def set_fds_def dest!: set_time_out_monitor)

lemma holds_send_response:
  "send_response_update c (ls_fd s') os t = (Inr (c', f), t') \<Longrightarrow> holds_clients L D s' \<Longrightarrow>
     holds_clients L D s \<Longrightarrow> holds_clients L D (set_fds f s)"
  by (auto intro: holds_from dest: monitor_send_response)

lemma remove_handled_clients:
  "remove_handled_request fd sv = Ret sv' \<Longrightarrow> sv_clients sv' = sv_clients sv"
  by (auto simp: remove_handled_request_def split: option.splits)

lemma update_request_clients:
  "update_request_buffer fd d sv = Ret (v, sv') \<Longrightarrow> sv_clients sv' = sv_clients sv"
  by (auto simp: update_request_buffer_def rbind_eq_Inr)

lemmas holds_safe = holds_set_check holds_set_server holds_set_clients holds_set_client holds_set_handler

lemma monitor_write_update:
  "set_write_buffer fd f = Ret f' \<Longrightarrow> fd_time_out_monitor (update_max fd f') = fd_time_out_monitor f"
  by (simp add: monitor_sets)

lemma monitor_read_clr:
  "read_request_update a b f = Ret f1 \<Longrightarrow> clr_from_write_buffer c f1 = Ret f2 \<Longrightarrow>
     fd_time_out_monitor f2 = fd_time_out_monitor f"
  by (simp add: monitor_sets monitor_read_request)

lemmas holds_unsafe = monitor_write_update [THEN holds_from] monitor_read_clr [THEN holds_from]
  monitor_sets [THEN holds_from] monitor_handled [THEN holds_from]
  monitor_read_request [THEN holds_from] holds_set_time_out holds_send_response

lemmas holds_facts = remove_handled_clients update_request_clients update_active_fds monitor_send_response

lemma start_request_clients: "i < length L \<Longrightarrow> leads (holds_clients L D) (start_request i) (holds_clients L D)"
  unfolding start_request_def Let_def
  by (intro leads_intros; (assumption | simp only: io_of_Inr)?;
      auto intro!: holds_safe intro: holds_unsafe dest: holds_facts simp: holds_client_at holds_fds)

lemma read_part_clients: "i < length L \<Longrightarrow> leads (holds_clients L D) (read_part i) (holds_clients L D)"
  unfolding read_part_def Let_def
  by (intro leads_intros start_request_clients; (assumption | simp only: io_of_Inr)?;
      auto intro!: holds_safe intro: holds_unsafe dest: holds_facts simp: holds_client_at holds_fds)

lemma body_part_clients: "i < length L \<Longrightarrow> leads (holds_clients L D) (body_part i) (holds_clients L D)"
  unfolding body_part_def Let_def
  by (intro leads_intros; (assumption | simp only: io_of_Inr)?;
      auto intro!: holds_safe intro: holds_unsafe dest: holds_facts simp: holds_client_at holds_fds)

lemma answer_part_clients: "i < length L \<Longrightarrow> leads (holds_clients L D) (answer_part i) (holds_clients L D)"
  unfolding answer_part_def Let_def
  by (intro leads_intros; (assumption | simp only: io_of_Inr)?;
      auto intro!: holds_safe intro: holds_unsafe dest: holds_facts simp: holds_client_at holds_fds)

lemma file_update_part_clients: "i < length L \<Longrightarrow> leads (holds_clients L D) (file_update_part i) (holds_clients L D)"
  unfolding file_update_part_def Let_def
  by (intro leads_intros; (assumption | simp only: io_of_Inr)?;
      auto intro!: holds_safe intro: holds_unsafe dest: holds_facts simp: holds_client_at holds_fds)

lemma send_part_clients: "i < length L \<Longrightarrow> leads (holds_clients L D) (send_part i) (holds_clients L D)"
  unfolding send_part_def Let_def
  by (intro leads_intros; (assumption | simp only: io_of_Inr)?;
      auto intro!: holds_safe intro: holds_unsafe dest: holds_facts simp: holds_client_at holds_fds)

lemma file_part_clients: "i < length L \<Longrightarrow> leads (holds_clients L D) (file_part i) (holds_clients L D)"
  unfolding file_part_def
  by (intro leads_intros leads_seq [OF body_part_clients leads_seq [OF answer_part_clients
      file_update_part_clients]]) simp_all

lemma leads_last:
  "(\<And>s. P s \<Longrightarrow> Q (g (f s))) \<Longrightarrow> leads P (modify f (modify g (done_with x))) Q"
  by (simp add: leads_def modify_def done_with_def)

lemma check_time_out_fewer:
  "check_time_out cs fd n (ls_fd s') os t = (Inr (cs', f), t') \<Longrightarrow> holds_clients L D s' \<Longrightarrow>
     fds_of cs = L \<Longrightarrow> holds_fewer L D (set_fds f (set_clients cs' s))"
  by (auto simp: holds_clients_def holds_fewer_def set_fds_def set_clients_def dest!: check_time_out_clients)

lemma update_active_holds:
  "update_active_client (sv_clients (ls_server s)) fd = Ret cs \<Longrightarrow> holds_clients L D s \<Longrightarrow> fds_of cs = L"
  by (simp add: holds_clients_def update_active_fds)

lemma time_out_part_clients:
  "i < length L \<Longrightarrow> leads (holds_clients L D) (time_out_part i) (holds_fewer L D)"
  unfolding time_out_part_def
  by (intro leads_last leads_intros; (assumption | simp only: io_of_Inr)?;
      auto intro: holds_clients_fewer check_time_out_fewer holds_set_clients update_active_holds)

lemma try_block_clients:
  "i < length L \<Longrightarrow> leads (holds_clients L D) (try_block i) (holds_fewer L D)"
  unfolding try_block_def
  by (intro leads_intros leads_seq [OF read_part_clients leads_seq [OF file_part_clients
        leads_seq [OF send_part_clients time_out_part_clients]]])
    (auto simp: holds_set_check holds_clients_fewer)


section \<open>Invariants of the loops\<close>

text \<open>What a property of the loop's state has to survive to hold after the loop over the clients.\<close>

locale loop_invariant =
  fixes P :: "loop_state \<Rightarrow> bool"
  assumes try_keeps: "try_block i s os t = (r, s', t') \<Longrightarrow> i < length (sv_clients (ls_server s)) \<Longrightarrow> P s \<Longrightarrow> P s'"
    and clean_keeps: "clean_up_after_error (ls_fd s) (ls_server s) c os t = (Ret (f, sv), t') \<Longrightarrow> P s \<Longrightarrow>
      P (set_server sv (set_fds f s))"
begin

lemma client_loop_keeps: "client_loop n i s os t = (r, s', t') \<Longrightarrow> P s \<Longrightarrow> P s'"
proof (induction n arbitrary: i s t)
  case (Suc n)
  obtain z s1 t1 where tried: "try_block i s os t = (z, s1, t1)" by (metis surj_pair)
  show ?case
  proof (cases "i < length (sv_clients (ls_server s))")
    case True
    from try_keeps [OF tried True Suc.prems(2)] have "P s1" .
    then show ?thesis
    proof (cases z)
      case (Inr x)
      with Suc True tried \<open>P s1\<close> show ?thesis by simp
    next
      case (Inl e)
      note z = Inl
      show ?thesis
      proof (cases "\<exists>m. e = Str_Exn m")
        case False
        with Suc.prems True tried z \<open>P s1\<close> show ?thesis by (cases e) simp_all
      next
        case True
        obtain y t2 where up: "clean_up_after_error (ls_fd s1) (ls_server s1) (client_at i s1) os t1 = (y, t2)"
          by fastforce
        with Suc.prems True tried z \<open>P s1\<close> \<open>i < _\<close> clean_keeps [of s1] show ?thesis
          by (cases y) (auto intro: Suc.IH)
      qed
    qed
  qed (use Suc in simp)
qed simp

end

locale server_invariant = loop_invariant +
  assumes accept_keeps: "accept_part s os t = (r, s', t') \<Longrightarrow> P s \<Longrightarrow> P s'"
begin

lemma server_round_keeps: "server_round s os t = (r, s', t') \<Longrightarrow> P s \<Longrightarrow> P s'"
  by (auto simp: server_round_def split: prod.splits sum.splits flow.splits
      dest: accept_keeps client_loop_keeps)

end

section \<open>The loops keep the clients\<close>

definition covered :: "int set \<Rightarrow> loop_state \<Rightarrow> bool" where
  "covered D s \<longleftrightarrow> D \<union> set (fds_of (sv_clients (ls_server s))) \<subseteq> dom (fd_time_out_monitor (ls_fd s))"

lemma covered_holds:
  "covered D s \<Longrightarrow> holds_clients (fds_of (sv_clients (ls_server s)))
     (D \<union> set (fds_of (sv_clients (ls_server s)))) s"
  by (simp add: covered_def holds_clients_def)

lemma holds_covered: "holds_fewer L (D \<union> set L) s \<Longrightarrow> covered D s"
  by (auto simp: covered_def holds_fewer_def)

lemma remove_client_loop_fds:
  "remove_client_loop fd cs os t = (Ret cs', t') \<Longrightarrow> set (fds_of cs') \<subseteq> set (fds_of cs)"
proof (induction fd cs arbitrary: t cs' t' rule: remove_client_loop.induct)
  case (2 fd c cs)
  then show ?case
    by (cases cs) (fastforce simp: io_bind_Ret io_base split: if_splits)+
qed (simp add: io_base)

lemma clean_up_clients:
  "clean_up_after_error f sv c os t = (Ret (f', sv'), t') \<Longrightarrow>
     set (fds_of (sv_clients sv')) \<subseteq> set (fds_of (sv_clients sv))
     \<and> fd_time_out_monitor f' = fd_time_out_monitor f"
  by (auto simp: clean_up_after_error_def remove_client_def io_bind_Ret io_base rbind_eq_Inr
      simp del: set_map dest!: monitor_drop remove_client_loop_fds split: if_splits)

lemma try_block_covered:
  "try_block i s os t = (r, s', t') \<Longrightarrow> i < length (sv_clients (ls_server s)) \<Longrightarrow> covered D s \<Longrightarrow> covered D s'"
  by (rule holds_covered [OF leadsD [OF try_block_clients covered_holds]]) auto

lemma clean_up_covered:
  "clean_up_after_error (ls_fd s) (ls_server s) c os t = (Ret (f, sv), t') \<Longrightarrow> covered D s \<Longrightarrow>
     covered D (set_server sv (set_fds f s))"
  using clean_up_clients [of "ls_fd s" "ls_server s" c os t f sv t']
  by (simp add: covered_def set_server_def set_fds_def) blast

lemma add_client_fds: "cl_clientFD ` set (add_client newFD cs) = insert newFD (cl_clientFD ` set cs)"
  by (cases cs) (auto simp: add_client_def new_client_def Let_def)

lemma add_client_member:
  "c \<in> set (add_client newFD cs) \<Longrightarrow> cl_clientFD ` set cs \<subseteq> dom m \<Longrightarrow>
     cl_clientFD c = newFD \<or> (\<exists>y. m (cl_clientFD c) = Some y)"
  using add_client_fds [of newFD cs] by (metis domD image_eqI insertE subsetD)

lemma covered_member:
  "cl_clientFD ` A \<subseteq> dom m \<Longrightarrow> c \<in> A \<Longrightarrow> \<exists>y. m (cl_clientFD c) = Some y"
  by auto

lemma set_time_out_now:
  "set_time_out fd f os t = (Ret f', t') \<Longrightarrow>
     \<exists>now. fd_time_out_monitor f' = (fd_time_out_monitor f)(fd \<mapsto> now)"
  by (auto simp: set_time_out_def io_bind_Ret io_base)

lemma accept_part_covered:
  assumes "accept_part s os t = (r, s', t')" "covered D s"
  shows "covered D s'"
  using assms
  by (auto simp: accept_part_def get_def act_def modify_def done_with_def set_fds_def set_clients_def
      covered_def add_client_fds io_of_def
      split: prod.splits sum.splits if_splits dest!: set_time_out_now monitor_accepted
      dest: covered_member) (use add_client_member in blast)

interpretation covered: server_invariant "covered D" for D
  by unfold_locales (auto intro: try_block_covered clean_up_covered accept_part_covered)

definition client_fds :: "server list \<Rightarrow> int set" where
  "client_fds svs = (\<Union>sv\<in>set svs. set (fds_of (sv_clients sv)))"

lemma servers_round_covered:
  "servers_round f check svs os t = (Ret (svs', f', check'), t') \<Longrightarrow>
     D \<union> client_fds svs \<subseteq> dom (fd_time_out_monitor f) \<Longrightarrow>
     D \<union> client_fds svs' \<subseteq> dom (fd_time_out_monitor f') \<and> length svs' = length svs"
proof (induction svs arbitrary: f check t svs' D)
  case (Cons sv svs)
  let ?s = "\<lparr>ls_fd = f, ls_server = sv, ls_check = check\<rparr>"
  from Cons.prems(1) obtain u s1 t1 svs1 where head: "server_round ?s os t = (Ret u, s1, t1)"
    and tail: "servers_round (ls_fd s1) (ls_check s1) svs os t1 = (Ret (svs1, f', check'), t')"
    and svs': "svs' = ls_server s1 # svs1"
    by (auto split: prod.splits sum.splits)
  from Cons.prems(2) have "covered (D \<union> client_fds svs) ?s" by (simp add: covered_def client_fds_def)
  from covered.server_round_keeps [OF head this]
  have "(D \<union> set (fds_of (sv_clients (ls_server s1)))) \<union> client_fds svs \<subseteq> dom (fd_time_out_monitor (ls_fd s1))"
    by (auto simp: covered_def)
  from Cons.IH [OF tail this] show ?case by (auto simp: svs' client_fds_def)
qed simp

lemma run_round_covered:
  assumes "run_round ws os t = (Ret ws', t')" "client_fds (ws_servers ws) \<subseteq> dom (fd_time_out_monitor (ws_fd ws))"
  shows "client_fds (ws_servers ws') \<subseteq> dom (fd_time_out_monitor (ws_fd ws'))"
  using assms servers_round_covered [where D = "{}"]
  by (auto simp: run_round_def io_bind_Ret io_base synchronize_def rbind_eq_Inr sync_maxFD_def clr_fd_sets_def
      split: option.splits) fastforce+

lemma rounds_covered:
  assumes "rounds os (run_start servers) t ws t'" "client_fds servers = {}"
  shows "client_fds (ws_servers ws) \<subseteq> dom (fd_time_out_monitor (ws_fd ws))"
  using assms by (induction rule: rounds.induct) (auto simp: run_start_def dest: run_round_covered)

section \<open>Properties\<close>

lemma time_out_loop_recorded:
  "fd \<in> dom (fd_time_out_monitor f) \<Longrightarrow> time_out_loop now fd n f cs os t = (Throw e, t') \<Longrightarrow>
     e = Undef ''fd_set''"
proof (induction cs arbitrary: t t')
  case (Cons c cs)
  then show ?case
    by (auto simp: io_bind_Inl io_base clr_from_read_buffer_def checked_def split: if_splits)
qed (simp add: io_base)

text \<open>
  Every client of every server has a recorded time in every state the loop reaches from
  its start, so the search of \<^verbatim>\<open>check_time_out\<close> for it never dereferences \<^verbatim>\<open>end()\<close>: the
  only way it can fail is \<^verbatim>\<open>FD_CLR\<close> on a descriptor outside the set.
\<close>

theorem rounds_clients_recorded:
  assumes "rounds os (run_start servers) t ws t'" "client_fds servers = {}"
  shows "list_all (\<lambda>sv. list_all (\<lambda>c.
       fst (check_time_out cs (cl_clientFD c) time_out (ws_fd ws) os t1)
         \<in> range Ret \<union> {Throw (Undef ''fd_set'')}) (sv_clients sv)) (ws_servers ws)"
proof -
  have "client_fds (ws_servers ws) \<subseteq> dom (fd_time_out_monitor (ws_fd ws))"
    using assms by (rule rounds_covered)
  moreover have "fst (check_time_out cs fd time_out (ws_fd ws) os t1) \<in> range Ret \<union> {Throw (Undef ''fd_set'')}"
    if "fd \<in> dom (fd_time_out_monitor (ws_fd ws))" for fd
  proof -
    have "check_time_out cs fd time_out (ws_fd ws) os t1 =
        time_out_loop (os_time os (t1 @ [Sys_Time])) fd time_out (ws_fd ws) cs os (t1 @ [Sys_Time])"
      by (simp add: check_time_out_def io_simps)
    moreover obtain r u where "time_out_loop (os_time os (t1 @ [Sys_Time])) fd time_out (ws_fd ws) cs os
        (t1 @ [Sys_Time]) = (r, u)" by fastforce
    ultimately show ?thesis by (cases r) (auto dest: time_out_loop_recorded [OF that])
  qed
  ultimately show ?thesis by (auto simp: list_all_iff client_fds_def subset_iff)
qed

text \<open>A system in which every descriptor is ready and every new one is 5, and one round of it.\<close>

definition busy_os :: os where
  "busy_os = empty_os\<lparr>os_ready := (\<lambda>_. Some ({3}, {}))\<rparr>"

definition busy_server :: server where
  "busy_server = server_init\<lparr>sv_tcp_socket := 3\<rparr>"

lemmas round_defs = run_round_def busy_server_def busy_os_def server_init_def empty_os_def
  synchronize_def initialize_max_def file_descriptors_init_def checked_def valid_fd_def io_simps
  server_round_def accept_part_def get_def act_def modify_def done_with_def rdy_for_reading_def
  rdy_for_writing_def set_time_out_def set_fds_def set_clients_def accepted_request_update_def
  set_read_buffer_def add_client_def new_client_def try_block_def set_time_out_check_def
  client_at_def set_check_def seq_steps_def read_part_def file_part_def send_part_def
  time_out_part_def header_handler_init_def update_active_client_def check_time_out_def
  update_max_def

lemma busy_round:
  "\<exists>ws t. run_round (run_start [busy_server]) busy_os [] = (Ret ws, t)
     \<and> map (\<lambda>sv. fds_of (sv_clients sv)) (ws_servers ws) = [[5]]"
  by (simp add: run_start_def round_defs)

theorem rounds_clients_recorded_witness:
  "\<exists>ws::webserver. map (\<lambda>sv. fds_of (sv_clients sv)) (ws_servers ws) = [[5]] \<and>
     list_all (\<lambda>sv. list_all (\<lambda>c.
       fst (check_time_out [] (cl_clientFD c) 30 (ws_fd ws) busy_os [])
         \<in> range Ret \<union> {Throw (Undef ''fd_set'')}) (sv_clients sv)) (ws_servers ws)"
proof -
  obtain ws t where r: "run_round (run_start [busy_server]) busy_os [] = (Ret ws, t)"
    and fds: "map (\<lambda>sv. fds_of (sv_clients sv)) (ws_servers ws) = [[5]]"
    using busy_round by (elim exE conjE) (rule that)
  from rounds.round [OF rounds.start r]
  have "rounds busy_os (run_start [busy_server]) [] ws t" .
  moreover have "client_fds [busy_server] = {}"
    by (simp add: client_fds_def busy_server_def server_init_def)
  ultimately have "list_all (\<lambda>sv. list_all (\<lambda>c.
       fst (check_time_out [] (cl_clientFD c) 30 (ws_fd ws) busy_os [])
         \<in> range Ret \<union> {Throw (Undef ''fd_set'')}) (sv_clients sv)) (ws_servers ws)"
    by (rule rounds_clients_recorded)
  with fds show ?thesis by (intro exI conjI)
qed

end
