(* ===== verification/LoopProgress.thy ===== *)
theory LoopProgress
  imports LoopInvariant
begin

text \<open>
  When the event loop stops making progress: a server none of whose clients is active, the
  clean-up that produces such a server, and the exceptions the loop does not catch.
\<close>

section \<open>A server without an active client\<close>

definition stalled :: "server \<Rightarrow> bool" where
  "stalled sv \<longleftrightarrow> sv_clients sv \<noteq> [] \<and> list_all (\<lambda>c. \<not> cl_active c) (sv_clients sv)"

lemma set_check_select [simp]:
  "ls_server (set_check b s) = ls_server s" "ls_fd (set_check b s) = ls_fd s"
  by (simp_all add: set_check_def)

lemma set_check_twice: "\<exists>b. set_check b s = s" "set_check b (set_check c s) = set_check b s"
  by (auto simp: set_check_def intro: exI [of _ "ls_check s"])

lemma stalled_client_loop:
  "stalled (ls_server s) \<Longrightarrow> \<exists>b. client_loop n i s os t = (Ret (), set_check b s, t)"
proof (induction n arbitrary: i s)
  case 0
  then show ?case using set_check_twice(1) [of s] by (metis client_loop.simps(1))
next
  case (Suc n)
  show ?case
  proof (cases "i < length (sv_clients (ls_server s))")
    case True
    with Suc.prems have "\<not> cl_active (client_at i s)"
      by (simp add: stalled_def client_at_def list_all_length)
    then have "try_block i s os t =
        (Ret Continue, set_check (set_time_out_check (ls_server s) (client_at i s)) s, t)"
      by (simp add: try_block_def get_def modify_def done_with_def)
    moreover obtain b where "client_loop n (Suc i)
        (set_check (set_time_out_check (ls_server s) (client_at i s)) s) os t
      = (Ret (), set_check b (set_check (set_time_out_check (ls_server s) (client_at i s)) s), t)"
      using Suc by (metis set_check_select(1))
    ultimately show ?thesis using True by (auto simp: set_check_twice)
  next
    case False
    then show ?thesis using set_check_twice(1) [of s] by (metis client_loop.simps(2))
  qed
qed

lemma stalled_add_client:
  "stalled sv \<Longrightarrow> add_client newFD (sv_clients sv) = sv_clients sv @ [new_client newFD]"
  by (auto simp: stalled_def add_client_def Let_def)

lemma stalled_accept_part:
  assumes "accept_part s os t = (r, s', t')" "stalled (ls_server s)"
  shows "\<exists>new. sv_clients (ls_server s') = sv_clients (ls_server s) @ map new_client new"
  using assms
  by (auto simp: accept_part_def get_def act_def modify_def done_with_def set_fds_def set_clients_def
      stalled_add_client split: prod.splits sum.splits if_splits
      intro: exI [of _ "[]"] exI [of _ "[_]"])

definition only_joined :: "server \<Rightarrow> server \<Rightarrow> bool" where
  "only_joined sv sv' \<longleftrightarrow> (\<exists>new. sv_clients sv' = sv_clients sv @ map new_client new)"

lemma only_joined_stalled: "only_joined sv sv' \<Longrightarrow> stalled sv \<Longrightarrow> stalled sv'"
  by (auto simp: only_joined_def stalled_def new_client_def list_all_iff)

lemma only_joined_trans: "only_joined a b \<Longrightarrow> only_joined b c \<Longrightarrow> only_joined a c"
  unfolding only_joined_def by (metis append.assoc map_append)

lemma stalled_server_round:
  assumes "server_round s os t = (r, s', t')" "stalled (ls_server s)"
  shows "only_joined (ls_server s) (ls_server s')"
proof -
  obtain z s1 t1 where a: "accept_part s os t = (z, s1, t1)" by (metis surj_pair)
  from stalled_accept_part [OF a assms(2)] have j: "only_joined (ls_server s) (ls_server s1)"
    by (simp add: only_joined_def)
  from stalled_client_loop [OF only_joined_stalled [OF j assms(2)]]
  have "ls_server s' = ls_server s1" using assms(1) a
    by (auto simp: server_round_def split: sum.splits flow.splits)
      (metis (no_types) prod.inject set_check_select(1))
  with j show ?thesis by simp
qed

lemma stalled_servers_round:
  "servers_round f check svs os t = (Ret (svs', f', check'), t') \<Longrightarrow> k < length svs \<Longrightarrow>
     stalled (svs ! k) \<Longrightarrow> only_joined (svs ! k) (svs' ! k)"
proof (induction svs arbitrary: f check t svs' k)
  case (Cons sv svs)
  let ?s = "\<lparr>ls_fd = f, ls_server = sv, ls_check = check\<rparr>"
  from Cons.prems(1) obtain u s1 t1 svs1 where head: "server_round ?s os t = (Ret u, s1, t1)"
    and tail: "servers_round (ls_fd s1) (ls_check s1) svs os t1 = (Ret (svs1, f', check'), t')"
    and svs': "svs' = ls_server s1 # svs1"
    by (auto split: prod.splits sum.splits)
  from stalled_server_round [OF head] Cons.IH [OF tail] Cons.prems(2,3) show ?case
    by (cases k) (auto simp: svs')
qed simp

lemma servers_round_length:
  "servers_round f check svs os t = (Ret (svs', f', check'), t') \<Longrightarrow> length svs' = length svs"
  by (induction svs arbitrary: f check t svs') (auto split: prod.splits sum.splits)

lemma stalled_run_round:
  assumes "run_round ws os t = (Ret ws', t')" "k < length (ws_servers ws)" "stalled (ws_servers ws ! k)"
  shows "k < length (ws_servers ws') \<and> only_joined (ws_servers ws ! k) (ws_servers ws' ! k)"
  using assms(1)
proof (cases rule: run_round_cases)
  case 1
  with assms(2) show ?thesis by (auto simp: only_joined_def intro: exI [of _ "[]"])
next
  case 2
  with assms(2,3) servers_round_length [OF 2(2)] stalled_servers_round [OF 2(2)] show ?thesis by simp
qed

section \<open>The clean-up\<close>

lemma remove_client_loop_absent:
  "fd \<notin> set (fds_of cs) \<Longrightarrow> remove_client_loop fd cs os t = (Ret cs, t)"
  by (induction cs) (auto simp: io_simps)

lemma remove_client_loop_next:
  "distinct (fds_of (pre @ c # d # post)) \<Longrightarrow> \<exists>t'.
     remove_client_loop (cl_clientFD c) (pre @ c # d # post) os t = (Ret (pre @ d # post), t')"
proof (induction pre)
  case Nil
  then show ?case by (auto simp: io_simps remove_client_loop_absent)
next
  case (Cons p pre)
  then show ?case by (auto simp: io_simps)
qed

lemma remove_client_loop_last:
  "distinct (fds_of (pre @ [c])) \<Longrightarrow>
     fst (remove_client_loop (cl_clientFD c) (pre @ [c]) os t) = Throw (Undef ''past the end'')"
proof (induction pre)
  case (Cons p pre)
  then have "fst (remove_client_loop (cl_clientFD c) (pre @ [c]) os t) = Throw (Undef ''past the end'')"
    by simp
  with Cons.prems show ?case by (auto simp: io_simps split: prod.splits sum.splits)
qed (simp add: io_simps)

definition usable_fd :: "int \<Rightarrow> bool" where
  "usable_fd fd \<longleftrightarrow> fd = -1 \<or> valid_fd fd"

lemma drop_fd_runs: "usable_fd fd \<Longrightarrow> \<exists>f'. drop_fd fd f = Ret f'"
  by (auto simp: usable_fd_def drop_fd_def rdy_for_reading_def rdy_for_writing_def checked_def
      clr_from_read_buffer_def clr_from_write_buffer_def)

lemma close_used_runs: "\<exists>b t'. close_used fd os t = (Ret b, t')"
  by (auto simp: close_used_def io_base)

lemma clean_up_after_error_removes:
  assumes "usable_fd (cl_clientFD c)" "usable_fd (cl_fileFD c)" "usable_fd (cl_cgi_inputFD c)"
    "length (sv_clients sv) \<noteq> 1"
  shows "\<exists>f' t1. \<forall>r t2. remove_client (cl_clientFD c) sv os t1 = (r, t2) \<longrightarrow>
    clean_up_after_error f sv c os t =
      (case r of Inl e \<Rightarrow> (Inl e, t2) | Inr sv' \<Rightarrow> (Ret (f', sv'), t2))"
proof -
  obtain f1 where f1: "drop_fd (cl_clientFD c) f = Ret f1" using drop_fd_runs assms(1) by blast
  obtain f2 where f2: "drop_fd (cl_fileFD c) f1 = Ret f2" using drop_fd_runs assms(2) by blast
  obtain f3 where f3: "drop_fd (cl_cgi_inputFD c) f2 = Ret f3" using drop_fd_runs assms(3) by blast
  obtain b1 t1 where c1: "close_used (cl_fileFD c) os t = (Ret b1, t1)" using close_used_runs by blast
  obtain b2 t2 where c2: "close_used (cl_cgi_inputFD c) os t1 = (Ret b2, t2)" using close_used_runs by blast
  show ?thesis
    by (intro exI [of _ f3] exI [of _ t2]) (use assms(4) in
        \<open>auto simp: clean_up_after_error_def f1 f2 f3 io_simps c1 c2 split: sum.splits\<close>)
qed

section \<open>Properties\<close>

text \<open>
  C4. A server all of whose clients are inactive stays so for ever: whatever the system
  answers, in every later state of the loop it has the same clients in the same state, not one
  of them served, timed out or dropped, and behind them only new ones, inactive too.
\<close>

theorem stalled_server_never_serves:
  assumes "rounds os ws t ws' t'" "k < length (ws_servers ws)" "stalled (ws_servers ws ! k)"
  shows "stalled (ws_servers ws' ! k)
     \<and> (\<exists>new. sv_clients (ws_servers ws' ! k) = sv_clients (ws_servers ws ! k) @ map new_client new)"
proof -
  have "k < length (ws_servers ws') \<and> only_joined (ws_servers ws ! k) (ws_servers ws' ! k)"
    using assms(1)
  proof (induction rule: rounds.induct)
    case start
    with assms(2) show ?case by (auto simp: only_joined_def intro: exI [of _ "[]"])
  next
    case (round ws1 t1 ws2 t2)
    with assms(3) stalled_run_round [OF round.hyps(2)] show ?case
      by (blast intro: only_joined_stalled only_joined_trans)
  qed
  with assms(3) only_joined_stalled show ?thesis by (auto simp: only_joined_def)
qed

definition stalled_state :: webserver where
  "stalled_state = \<lparr>ws_servers = [busy_server\<lparr>sv_clients := [new_client 4, new_client 7]\<rparr>],
     ws_time_out_check = False, ws_fd = file_descriptors_init\<rparr>"

lemma stalled_round:
  "\<exists>ws t. run_round stalled_state busy_os [] = (Ret ws, t)"
  by (simp add: stalled_state_def round_defs)

theorem stalled_server_never_serves_witness:
  "\<exists>ws t new. run_round stalled_state busy_os [] = (Ret ws, t) \<and> stalled (ws_servers ws ! 0)
     \<and> sv_clients (ws_servers ws ! 0) = [new_client 4, new_client 7] @ map new_client new"
proof -
  obtain ws t where r: "run_round stalled_state busy_os [] = (Ret ws, t)"
    using stalled_round by blast
  have "stalled (ws_servers stalled_state ! 0)" "0 < length (ws_servers stalled_state)"
    "sv_clients (ws_servers stalled_state ! 0) = [new_client 4, new_client 7]"
    by (simp_all add: stalled_state_def stalled_def new_client_def)
  with stalled_server_never_serves [OF rounds.round [OF rounds.start r], of 0] r show ?thesis by auto
qed

text \<open>
  C21. The clean-up after an error of the active client, when another client comes after it,
  removes exactly that client and activates no other: the server is stalled.
\<close>

theorem error_stalls_server:
  assumes "sv_clients sv = pre @ c # d # post" "distinct (fds_of (sv_clients sv))"
    "list_all (\<lambda>c. \<not> cl_active c) (pre @ d # post)"
    "usable_fd (cl_clientFD c)" "usable_fd (cl_fileFD c)" "usable_fd (cl_cgi_inputFD c)"
  shows "\<exists>f' sv' t'. clean_up_after_error f sv c os t = (Ret (f', sv'), t')
     \<and> sv_clients sv' = pre @ d # post \<and> stalled sv'"
proof -
  obtain f' t1 where up: "\<forall>r t2. remove_client (cl_clientFD c) sv os t1 = (r, t2) \<longrightarrow>
      clean_up_after_error f sv c os t = (case r of Inl e \<Rightarrow> (Inl e, t2) | Inr sv' \<Rightarrow> (Ret (f', sv'), t2))"
    using clean_up_after_error_removes [OF assms(4-6), of sv os f t] assms(1) by auto
  obtain t' where "remove_client_loop (cl_clientFD c) (sv_clients sv) os t1 = (Ret (pre @ d # post), t')"
    using remove_client_loop_next assms(1,2) by metis
  then have "remove_client (cl_clientFD c) sv os t1 = (Ret (sv\<lparr>sv_clients := pre @ d # post\<rparr>), t')"
    by (simp add: remove_client_def io_simps)
  from up [rule_format, OF this] assms(3) show ?thesis by (auto simp: stalled_def)
qed

theorem error_stalls_server_witness:
  "\<exists>f' sv' t'. clean_up_after_error file_descriptors_init
       (server_init\<lparr>sv_clients := [(new_client 4)\<lparr>cl_active := True\<rparr>, new_client 7]\<rparr>)
       ((new_client 4)\<lparr>cl_active := True\<rparr>) empty_os [] = (Ret (f', sv'), t')
     \<and> sv_clients sv' = [new_client 7] \<and> stalled sv'"
  using error_stalls_server [of "server_init\<lparr>sv_clients := [(new_client 4)\<lparr>cl_active := True\<rparr>, new_client 7]\<rparr>"
      "[]" "(new_client 4)\<lparr>cl_active := True\<rparr>" "new_client 7" "[]"]
  by (simp add: new_client_def usable_fd_def valid_fd_def)

text \<open>
  When the client that failed is the last of several, the clean-up runs past the end of the
  vector of clients.
\<close>

theorem error_of_last_client_undefined:
  assumes "sv_clients sv = pre @ [c]" "pre \<noteq> []" "distinct (fds_of (sv_clients sv))"
    "usable_fd (cl_clientFD c)" "usable_fd (cl_fileFD c)" "usable_fd (cl_cgi_inputFD c)"
  shows "fst (clean_up_after_error f sv c os t) = Throw (Undef ''past the end'')"
proof -
  obtain f' t1 where up: "\<forall>r t2. remove_client (cl_clientFD c) sv os t1 = (r, t2) \<longrightarrow>
      clean_up_after_error f sv c os t = (case r of Inl e \<Rightarrow> (Inl e, t2) | Inr sv' \<Rightarrow> (Ret (f', sv'), t2))"
    using clean_up_after_error_removes [OF assms(4-6), of sv os f t] assms(1,2) by auto
  obtain t' where "remove_client_loop (cl_clientFD c) (sv_clients sv) os t1 = (Throw (Undef ''past the end''), t')"
    using remove_client_loop_last assms(1,3) by (metis prod.collapse)
  then have "remove_client (cl_clientFD c) sv os t1 = (Throw (Undef ''past the end''), t')"
    by (simp add: remove_client_def io_bind_def)
  from up [rule_format, OF this] show ?thesis by simp
qed

theorem error_of_last_client_undefined_witness:
  "fst (clean_up_after_error file_descriptors_init (server_init\<lparr>sv_clients := [new_client 4, new_client 7]\<rparr>)
       (new_client 7) empty_os []) = Throw (Undef ''past the end'')"
  by (rule error_of_last_client_undefined [where pre = "[new_client 4]"])
    (simp_all add: new_client_def usable_fd_def valid_fd_def)

text \<open>
  An exception that is no \<^verbatim>\<open>std::string\<close>, thrown while the request of one client is
  parsed, leaves the loop over the clients and over the servers: the process ends for all of
  them.
\<close>

theorem uncaught_exception_ends_run:
  assumes "sv_clients sv = c # others" "cl_active c"
    "rdy_for_reading (sv_tcp_socket sv) f = Ret False" "rdy_for_reading (cl_clientFD c) f = Ret True"
    "accept_request_data (cl_clientFD c) os t = (Ret request_headers, t1)" "request_headers \<noteq> []"
    "update_request_buffer (cl_clientFD c) request_headers sv = Ret (valid, sv')"
    "sv_request_buffer sv' (cl_clientFD c) = Some r"
    "parse_request r (cl_handler c) = Throw e" "\<forall>m. e \<noteq> Str_Exn m"
  shows "fst (servers_round f check (sv # svs) os t) = Throw e"
proof -
  let ?s = "\<lparr>ls_fd = f, ls_server = sv, ls_check = check\<rparr>"
  have "sv_clients sv' = c # others" using assms(1,7) update_request_clients by metis
  then have "\<exists>s1 t2. try_block 0 ?s os t = (Throw e, s1, t2)"
    using assms
    by (simp add: try_block_def get_def modify_def act_def seq_steps_def read_part_def client_at_def
        io_simps set_time_out_def start_request_def set_check_def set_fds_def set_server_def)
  then obtain s1 t2 where "try_block 0 ?s os t = (Throw e, s1, t2)" by blast
  moreover have "accept_part ?s os t = (Ret Next, ?s, t)"
    using assms(3) by (simp add: accept_part_def get_def act_def done_with_def io_simps)
  ultimately have "server_round ?s os t = (Throw e, s1, t2)"
    using assms(1,10) by (cases e) (simp_all add: server_round_def)
  then show ?thesis by simp
qed

definition stray_request :: string where
  "stray_request = ''GET / HTTP/1.1'' @ CRLF2 @ ''x''"

definition stray_buffer :: request_buf where
  "stray_buffer = \<lparr>rb_headers = ''GET / HTTP/1.1'' @ CRLF2, rb_body = [''x''], rb_body_size = 1\<rparr>"

definition stray_server :: server where
  "stray_server = busy_server\<lparr>sv_clients := [(new_client 4)\<lparr>cl_active := True\<rparr>]\<rparr>"

definition stray_fds :: file_descriptors where
  "stray_fds = file_descriptors_init\<lparr>fd_read := {4}\<rparr>"

lemma stray_parse:
  "parse_request stray_buffer
     header_handler_init = Throw Out_Of_Range"
  by code_simp

lemma stray_update:
  "\<exists>sv'. update_request_buffer 4 stray_request stray_server = Ret (valid, sv')
     \<and> sv_request_buffer sv' 4 = Some
         stray_buffer"
proof -
  have "receive stray_request request_buf_init = Ret (valid,
      stray_buffer)"
    by code_simp
  then show ?thesis
    by (simp add: update_request_buffer_def stray_server_def busy_server_def server_init_def)
qed

lemma stray_clients:
  "sv_clients stray_server = [(new_client 4)\<lparr>cl_active := True\<rparr>]" "sv_tcp_socket stray_server = 3"
  "cl_active ((new_client 4)\<lparr>cl_active := True\<rparr>)" "cl_clientFD (new_client 4) = 4"
  "cl_handler (new_client 4) = header_handler_init"
  "rdy_for_reading 3 stray_fds = Ret False" "rdy_for_reading 4 stray_fds = Ret True"
  "stray_request \<noteq> []"
  by (simp_all add: stray_server_def busy_server_def stray_fds_def new_client_def stray_request_def
      file_descriptors_init_def rdy_for_reading_def checked_def valid_fd_def)

theorem uncaught_exception_ends_run_witness:
  "fst (servers_round stray_fds False [stray_server, server_init]
     (empty_os\<lparr>os_data := (\<lambda>_. Some stray_request)\<rparr>) []) = Throw Out_Of_Range"
proof -
  obtain sv' where "update_request_buffer 4 stray_request stray_server = Ret (valid, sv')"
    "sv_request_buffer sv' 4 = Some
         stray_buffer"
    using stray_update by blast
  moreover have "accept_request_data 4 (empty_os\<lparr>os_data := (\<lambda>_. Some stray_request)\<rparr>) []
      = (Ret stray_request, [Sys_Read 4])"
    by (simp add: accept_request_data_def io_simps read_browser_request_def stray_request_def)
  ultimately show ?thesis
    using uncaught_exception_ends_run [where c = "(new_client 4)\<lparr>cl_active := True\<rparr>" and others = "[]"
        and sv' = sv' and request_headers = stray_request and ?t1.0 = "[Sys_Read 4]" and r = stray_buffer
        and e = Out_Of_Range and sv = stray_server and f = stray_fds and t = "[]"
        and os = "empty_os\<lparr>os_data := (\<lambda>_. Some stray_request)\<rparr>" and svs = "[server_init]" and check = False]
      stray_parse stray_clients
    by simp
qed

end
