(* ===== verification/Program.thy ===== *)
theory Program
  imports LoopInvariant
begin

text \<open>
  \<^verbatim>\<open>webserver/main.cpp\<close>: the composition of the parts.  \<open>main_start\<close> is everything up to
  the event loop, \<open>reaches\<close> relates a start to the states of the loop, and \<open>main_end\<close> is
  what becomes of the process when an exception leaves the \<^verbatim>\<open>try\<close> block.
\<close>

section \<open>The main function\<close>

datatype ending = Returns int | Terminated | Unpredictable | Hangs

text \<open>
  The handler takes \<^verbatim>\<open>std::exception\<close> and returns 0; a thrown \<^verbatim>\<open>std::string\<close> is no
  \<^verbatim>\<open>std::exception\<close> and ends in \<^verbatim>\<open>std::terminate\<close>; \<^verbatim>\<open>exit\<close> is no exception.
\<close>

fun main_end :: "exn \<Rightarrow> ending" where
  "main_end (Str_Exn s) = Terminated"
| "main_end Out_Of_Range = Returns 0"
| "main_end (Runtime_Error s) = Returns 0"
| "main_end (Invalid_Argument s) = Returns 0"
| "main_end (Undef s) = Unpredictable"
| "main_end Never_Returns = Hangs"
| "main_end (Exit n) = Returns n"

text \<open>\<open>Inl\<close> is an ending before the loop, \<open>Inr\<close> the servers with which the loop starts.\<close>

definition main_start ::
  "gnl_env \<Rightarrow> string list \<Rightarrow> os \<Rightarrow> history \<Rightarrow> (ending + server list) \<times> history" where
  "main_start env argv os t =
     (if length argv \<noteq> 2 then (Inl (Returns (-1)), t)
      else case load_configuration env (argv ! 1) of
             Inl e \<Rightarrow> (Inl (main_end e), t)
           | Inr (servers, _) \<Rightarrow>
               (case validate_configuration servers of
                  Inl e \<Rightarrow> (Inl (main_end e), t)
                | Inr _ \<Rightarrow>
                    (case establish_connection servers os t of
                       (Inl e, t') \<Rightarrow> (Inl (main_end e), t')
                     | (Inr servers, t') \<Rightarrow> (Inr servers, t'))))"

definition reaches :: "gnl_env \<Rightarrow> string list \<Rightarrow> os \<Rightarrow> webserver \<Rightarrow> history \<Rightarrow> bool" where
  "reaches env argv os ws t' \<longleftrightarrow> (\<exists>servers t. main_start env argv os [] = (Inr servers, t)
     \<and> rounds os (run_start servers) t ws t')"

section \<open>The loop does not touch the configuration\<close>

definition config_of :: "server \<Rightarrow> server" where
  "config_of sv = sv\<lparr>sv_clients := [], sv_request_buffer := (\<lambda>_. None)\<rparr>"

definition has_config :: "server \<Rightarrow> loop_state \<Rightarrow> bool" where
  "has_config c s \<longleftrightarrow> config_of (ls_server s) = c"

lemma config_set [intro]:
  "has_config c s \<Longrightarrow> has_config c (set_fds f s)"
  "has_config c s \<Longrightarrow> has_config c (set_check b s)"
  "has_config c s \<Longrightarrow> has_config c (set_client i x s)"
  "has_config c s \<Longrightarrow> has_config c (set_handler i h s)"
  "has_config c s \<Longrightarrow> has_config c (set_clients cs s)"
  by (simp_all add: has_config_def config_of_def set_fds_def set_check_def set_client_def
      set_handler_def set_clients_def)

lemma config_set_server:
  "config_of sv = config_of (ls_server s') \<Longrightarrow> has_config c s' \<Longrightarrow> has_config c (set_server sv s)"
  by (simp add: has_config_def set_server_def)

lemma config_remove_handled:
  "remove_handled_request fd sv = Ret sv' \<Longrightarrow> config_of sv' = config_of sv"
  by (auto simp: remove_handled_request_def config_of_def split: option.splits)

lemma config_update_request:
  "update_request_buffer fd d sv = Ret (v, sv') \<Longrightarrow> config_of sv' = config_of sv"
  by (auto simp: update_request_buffer_def rbind_eq_Inr config_of_def)

lemma start_request_config: "leads (has_config c) (start_request i) (has_config c)"
  unfolding start_request_def Let_def
  by (intro leads_intros; (assumption | simp only: io_of_Inr)?;
      auto intro: config_set_server config_remove_handled)

lemma read_part_config: "leads (has_config c) (read_part i) (has_config c)"
  unfolding read_part_def Let_def
  by (intro leads_intros start_request_config; (assumption | simp only: io_of_Inr)?;
      auto intro: config_set_server config_update_request)

lemma body_part_config: "leads (has_config c) (body_part i) (has_config c)"
  unfolding body_part_def Let_def
  by (intro leads_intros; (assumption | simp only: io_of_Inr)?; auto)

lemma answer_part_config: "leads (has_config c) (answer_part i) (has_config c)"
  unfolding answer_part_def Let_def
  by (intro leads_intros; (assumption | simp only: io_of_Inr)?; auto)

lemma file_update_part_config: "leads (has_config c) (file_update_part i) (has_config c)"
  unfolding file_update_part_def
  by (intro leads_intros; (assumption | simp only: io_of_Inr)?; auto)

lemma file_part_config: "leads (has_config c) (file_part i) (has_config c)"
  unfolding file_part_def
  by (intro leads_intros leads_seq [OF body_part_config leads_seq [OF answer_part_config
      file_update_part_config]]) simp_all

lemma send_part_config: "leads (has_config c) (send_part i) (has_config c)"
  unfolding send_part_def
  by (intro leads_intros; (assumption | simp only: io_of_Inr)?; auto)

lemma time_out_part_config: "leads (has_config c) (time_out_part i) (has_config c)"
  unfolding time_out_part_def
  by (intro leads_intros; (assumption | simp only: io_of_Inr)?; auto)

lemma try_block_config: "leads (has_config c) (try_block i) (has_config c)"
  unfolding try_block_def
  by (intro leads_intros leads_seq [OF read_part_config leads_seq [OF file_part_config
        leads_seq [OF send_part_config time_out_part_config]]]) auto

lemma clean_up_config:
  "clean_up_after_error f sv cl os t = (Ret (f', sv'), t') \<Longrightarrow> config_of sv' = config_of sv"
  by (auto simp: clean_up_after_error_def remove_client_def io_bind_Ret io_base rbind_eq_Inr
      config_of_def split: if_splits)


lemma accept_part_config: "accept_part s os t = (r, s', t') \<Longrightarrow> has_config c s \<Longrightarrow> has_config c s'"
  by (auto simp: accept_part_def get_def act_def modify_def done_with_def
      split: prod.splits sum.splits if_splits)

lemma clean_up_has_config:
  "clean_up_after_error (ls_fd s) (ls_server s) cl os t = (Ret (f, sv), t') \<Longrightarrow> has_config c s \<Longrightarrow>
     has_config c (set_server sv (set_fds f s))"
  by (auto simp: has_config_def set_server_def dest: clean_up_config)

interpretation config: server_invariant "has_config c" for c
  by unfold_locales (auto intro: leadsD [OF try_block_config] accept_part_config clean_up_has_config)

lemma servers_round_config:
  "servers_round f check svs os t = (Ret (svs', f', check'), t') \<Longrightarrow> map config_of svs' = map config_of svs"
proof (induction svs arbitrary: f check t svs')
  case (Cons sv svs)
  let ?s = "\<lparr>ls_fd = f, ls_server = sv, ls_check = check\<rparr>"
  from Cons.prems obtain u s1 t1 svs1 where head: "server_round ?s os t = (Ret u, s1, t1)"
    and tail: "servers_round (ls_fd s1) (ls_check s1) svs os t1 = (Ret (svs1, f', check'), t')"
    and svs': "svs' = ls_server s1 # svs1"
    by (auto split: prod.splits sum.splits)
  from config.server_round_keeps [OF head, of "config_of sv"] Cons.IH [OF tail] show ?case
    by (simp add: svs' has_config_def)
qed simp

lemma run_round_config:
  assumes "run_round ws os t = (Ret ws', t')"
  shows "map config_of (ws_servers ws') = map config_of (ws_servers ws)"
  using assms
proof (cases rule: run_round_cases)
  case 1
  then show ?thesis by simp
next
  case 2
  with servers_round_config [OF 2(2)] show ?thesis by simp
qed

lemma rounds_config:
  "rounds os ws t ws' t' \<Longrightarrow> map config_of (ws_servers ws') = map config_of (ws_servers ws)"
  by (induction rule: rounds.induct) (simp_all add: run_round_config)


section \<open>The servers main starts with\<close>

lemma configure_server_clients:
  "configure_server line sv = Ret sv' \<Longrightarrow> sv_clients sv' = sv_clients sv"
  by (auto simp: configure_server_def configure_port_def configure_host_def configure_server_name_def
      configure_error_page_def configure_time_out_def configure_cgi_file_types_def
      server_invalid_element_def rbind_eq_Inr split: server_value.splits)

lemma create_lines_clients:
  "create_lines env buf ls l sv = Ret (sv', buf') \<Longrightarrow> sv_clients sv' = sv_clients sv"
proof (induction env buf ls l sv rule: create_lines.induct)
  case (2 env buf line rest l sv)
  show ?case
  proof (cases "identify_server_value line = S_location")
    case True
    with 2(3) obtain l1 b1 where c: "configure_location_block env buf (line # rest)
        (location_block_size (line # rest)) l = Ret (l1, b1)"
      and r: "create_lines env b1 rest l1 (sv\<lparr>sv_location_blocks := sv_location_blocks sv @ [l1]\<rparr>)
        = Ret (sv', buf')"
      by (auto simp: rbind_eq_Inr)
    from 2(1) [OF True c refl r] show ?thesis by simp
  next
    case False
    with 2(2) [OF False] 2(3) show ?thesis by (auto simp: rbind_eq_Inr configure_server_clients)
  qed
qed simp

lemma create_new_server_clients:
  "create_new_server env buf ls sv = Ret (sv', buf') \<Longrightarrow> sv_clients sv' = sv_clients sv"
  by (auto simp: create_new_server_def reset_server_def dest: create_lines_clients)

lemma load_loop_clients:
  "load_loop env readable block servers sv buf rest = Ret (block', servers', ret, buf') \<Longrightarrow>
     sv_clients sv = [] \<Longrightarrow> \<forall>s\<in>set servers. sv_clients s = [] \<Longrightarrow> \<forall>s\<in>set servers'. sv_clients s = []"
proof (induction env readable block servers sv buf rest arbitrary: block' servers' ret buf' rule: load_loop.induct)
  case (1 env readable block servers sv buf rest)
  obtain r l b t where g: "get_next_line (ge_malloc env) (ge_past env) readable buf rest = (r, l, b, t)"
    by (metis surj_pair)
  note step = load_loop.simps [of env readable block servers sv buf rest]
  let ?block = "block @ (case l of None \<Rightarrow> [] | Some l \<Rightarrow> [l])"
  consider (stop) "r \<noteq> 1" | (full) "r = 1" "check_server_block ?block"
    | (more) "r = 1" "\<not> check_server_block ?block" by blast
  then show ?case
  proof cases
    case stop
    with 1(3-5) g show ?thesis by (simp add: step split: if_splits)
  next
    case full
    with 1(3) g obtain sv1 b1 where c: "create_new_server env b ?block sv = Ret (sv1, b1)"
      and r: "load_loop env readable [] (servers @ [sv1]) sv1 b1 t = Ret (block', servers', ret, buf')"
      by (auto simp: step rbind_eq_Inr)
    from 1(1) [OF g [symmetric] refl refl full(1) refl full(2) c refl r] 1(4,5)
      create_new_server_clients [OF c] show ?thesis by simp
  next
    case more
    with 1(3) g have "load_loop env readable ?block servers sv b t = Ret (block', servers', ret, buf')"
      by (simp add: step)
    from 1(2) [OF g [symmetric] refl refl more(1) refl more(2) this 1(4,5)] show ?thesis .
  qed
qed

lemma load_configuration_clients:
  "load_configuration env path = Ret (servers, buf) \<Longrightarrow> \<forall>s\<in>set servers. sv_clients s = []"
  by (auto simp: load_configuration_def rbind_eq_Inr server_init_def split: option.splits if_splits
      dest!: load_loop_clients)


lemma map_through:
  assumes "map g xs = map g ys" "\<And>x. f (g x) = f x"
  shows "map f xs = map f ys"
proof -
  have "map f zs = map f (map g zs)" for zs using assms(2) by simp
  with assms(1) show ?thesis by metis
qed

lemma list_all_map: "list_all P (map f xs) \<longleftrightarrow> list_all (\<lambda>x. P (f x)) xs"
  by (induction xs) auto

definition settings :: "server \<Rightarrow> int \<times> int \<times> string" where
  "settings sv = (sv_port sv, sv_time_out sv, sv_error_page sv)"

definition good_settings :: "int \<times> int \<times> string \<Rightarrow> bool" where
  "good_settings s \<longleftrightarrow> (case s of (port, time_out, error_page) \<Rightarrow> 0 < port \<and> 0 < time_out \<and> error_page \<noteq> [])"

lemma settings_good:
  "good_settings (settings sv) \<longleftrightarrow> 0 < sv_port sv \<and> 0 < sv_time_out sv \<and> sv_error_page sv \<noteq> []"
  by (simp add: good_settings_def settings_def)

lemma validate_settings:
  "validate_configuration servers = Ret () \<longleftrightarrow>
     list_all good_settings (map settings servers) \<and> distinct (map sv_port servers)"
  by (simp add: validate_configuration_Ret list_all_map settings_good)

lemma settings_port: "map settings xs = map settings ys \<Longrightarrow> map sv_port xs = map sv_port ys"
proof -
  have "map fst (map settings zs) = map sv_port zs" for zs by (simp add: settings_def)
  then show "map settings xs = map settings ys \<Longrightarrow> ?thesis" by metis
qed

lemma servers_of_settings: "map settings (servers_of sv0 svs) = map settings svs"
  by (induction svs arbitrary: sv0) (simp_all add: server_of_def settings_def)

lemma granted_connections:
  assumes "\<forall>t. os_ok os t \<and> os_fd os t \<noteq> -1"
  shows "\<exists>servers t'. establish_connection svs os t = (Ret servers, t')"
proof (induction svs arbitrary: t)
  case (Cons sv svs)
  then obtain servers t' where "establish_connection svs os (t @ listen_calls (sv\<lparr>sv_tcp_socket :=
      os_fd os (t @ [Sys_Socket])\<rparr>)) = (Ret servers, t')" by blast
  then show ?case
    using assms by (simp add: create_socket_def bind_socket_address_def create_connection_def io_simps
        listen_calls_def)
qed (simp add: io_simps)

lemma rounds_fields:
  assumes "rounds os ws t ws' t'" "\<And>sv. f (config_of sv) = f sv"
  shows "map f (ws_servers ws') = map f (ws_servers ws)"
  using map_through [OF rounds_config [OF assms(1)], where f = f] assms(2) .

lemma main_start_printed:
  assumes "config_printable svs" "ge_malloc env = (\<lambda>_. True)"
    and "ge_files env (c_str path) = Some (Content (config_text svs))"
    and "\<forall>l\<in>set (concat (map server_lines svs)). LF \<notin> set l \<and> NUL \<notin> set l"
    and "validate_configuration svs = Ret ()" "\<forall>t. os_ok os t \<and> os_fd os t \<noteq> -1"
  shows "\<exists>servers. main_start env [prog, path] os [] = (Inr servers, concat (map listen_calls servers))
     \<and> map settings servers = map settings svs"
proof -
  let ?svs = "servers_of server_init svs"
  have v: "validate_configuration ?svs = Ret ()"
    using assms(5) servers_of_settings settings_port unfolding validate_settings by metis
  obtain servers t where e: "establish_connection ?svs os [] = (Ret servers, t)"
    using granted_connections [OF assms(6)] by blast
  with establish_connection_Ret [OF e] have "t = concat (map listen_calls servers)"
    and "map (sv_tcp_socket_update (\<lambda>_. 0)) servers = map (sv_tcp_socket_update (\<lambda>_. 0)) ?svs" by auto
  have "map settings servers = map settings ?svs"
    by (rule map_through [OF \<open>map _ servers = _\<close>]) (simp add: settings_def)
  then have "map settings servers = map settings svs" by (simp only: servers_of_settings)
  with v e \<open>t = _\<close> load_printed [OF assms(1-4)] show ?thesis by (simp add: main_start_def)
qed

lemma sample_start:
  "\<exists>servers. main_start sample_env [''webserv'', ''c''] empty_os [] = (Inr servers, concat (map listen_calls servers))
     \<and> map settings servers = [(80, 5, ''e/'')]"
  using main_start_printed [OF sample_config(1) _ _ sample_config(2), of sample_env "''c''" empty_os "''webserv''"]
  by (simp add: validate_settings good_settings_def settings_def sample_server_def empty_os_def)

section \<open>Properties\<close>

text \<open>
  C3. In every state the event loop reaches from \<^verbatim>\<open>main\<close>, every server has a positive port and
  time out, an error page and a socket, no two servers have the same port, and every connected
  client has a recorded time of its last activity.
\<close>

theorem reachable_states_configured:
  assumes "reaches env argv os ws t"
  shows "list_all (\<lambda>sv. 0 < sv_port sv \<and> 0 < sv_time_out sv \<and> sv_error_page sv \<noteq> []
       \<and> sv_tcp_socket sv \<noteq> -1) (ws_servers ws)
     \<and> distinct (map sv_port (ws_servers ws))
     \<and> client_fds (ws_servers ws) \<subseteq> dom (fd_time_out_monitor (ws_fd ws))"
proof -
  from assms obtain servers t0 where start: "main_start env argv os [] = (Inr servers, t0)"
    and r: "rounds os (run_start servers) t0 ws t" by (auto simp: reaches_def)
  from start obtain svs buf where l: "load_configuration env (argv ! 1) = Ret (svs, buf)"
    and v: "validate_configuration svs = Ret ()" and e: "establish_connection svs os [] = (Ret servers, t0)"
    by (auto simp: main_start_def split: if_splits sum.splits prod.splits)
  let ?sock = "sv_tcp_socket_update (\<lambda>_. 0)"
  from establish_connection_Ret [OF e] have sock: "list_all (\<lambda>sv. sv_tcp_socket sv \<noteq> -1) servers"
    and "map ?sock servers = map ?sock svs" by auto
  note same = map_through [OF this(2)] and kept = rounds_fields [OF r]
  from v have g: "list_all good_settings (map settings svs)" and d: "distinct (map sv_port svs)"
    unfolding validate_settings by simp_all
  have m: "map settings (ws_servers ws) = map settings svs"
    using same [of settings] kept [of settings] by (simp add: run_start_def config_of_def settings_def)
  with g have "list_all good_settings (map settings (ws_servers ws))" by (simp only:)
  then have settings: "list_all (\<lambda>sv. good_settings (settings sv)) (ws_servers ws)"
    by (simp only: list_all_map)
  have "map sv_tcp_socket (ws_servers ws) = map sv_tcp_socket servers"
    using kept [of sv_tcp_socket] by (simp add: run_start_def config_of_def)
  moreover from sock have "list_all (\<lambda>x. x \<noteq> -1) (map sv_tcp_socket servers)" by (simp only: list_all_map)
  ultimately have "list_all (\<lambda>x. x \<noteq> -1) (map sv_tcp_socket (ws_servers ws))" by (simp only:)
  then have sockets: "list_all (\<lambda>sv. sv_tcp_socket sv \<noteq> -1) (ws_servers ws)" by (simp only: list_all_map)
  from d settings_port [OF m] have ports: "distinct (map sv_port (ws_servers ws))" by (simp only:)
  have "map sv_clients servers = map sv_clients svs" using same [of sv_clients] by simp
  moreover from load_configuration_clients [OF l] have "set (map sv_clients svs) \<subseteq> {[]}" by auto
  ultimately have "set (map sv_clients servers) \<subseteq> {[]}" by (simp only:)
  then have "client_fds servers = {}" by (auto simp: client_fds_def)
  from settings sockets ports rounds_covered [OF r this] show ?thesis
    by (auto simp: list_all_iff settings_good)
qed


theorem reachable_states_configured_witness:
  "\<exists>(ws::webserver) t. reaches sample_env [''webserv'', ''c''] empty_os ws t \<and> map sv_port (ws_servers ws) = [80]
     \<and> client_fds (ws_servers ws) \<subseteq> dom (fd_time_out_monitor (ws_fd ws))"
proof -
  obtain servers t where s: "main_start sample_env [''webserv'', ''c''] empty_os [] = (Inr servers, t)"
    and "map settings servers = [(80, 5, ''e/'')]"
    using sample_start by (elim exE conjE) (rule that)
  from settings_port [of servers "[sample_server]"] this(2) have "map sv_port servers = [80]"
    by (simp add: settings_def sample_server_def)
  moreover have r: "reaches sample_env [''webserv'', ''c''] empty_os (run_start servers) t"
    unfolding reaches_def using s rounds.start by blast
  ultimately show ?thesis using reachable_states_configured [OF r]
    by (intro exI [of _ "run_start servers"] exI [of _ t]) (simp add: run_start_def)
qed

text \<open>
  C7. A well-formed configuration file starts the program: when the system grants every call,
  \<^verbatim>\<open>main\<close> reaches its loop with the servers of the file, having made exactly the calls that
  open, bind and listen on a socket for each of them in turn.
\<close>

theorem main_starts_configuration:
  assumes "config_printable svs" "ge_malloc env = (\<lambda>_. True)"
    and "ge_files env (c_str path) = Some (Content (config_text svs))"
    and "\<forall>l\<in>set (concat (map server_lines svs)). LF \<notin> set l \<and> NUL \<notin> set l"
    and "validate_configuration svs = Ret ()" "\<forall>t. os_ok os t \<and> os_fd os t \<noteq> -1"
  shows "\<exists>servers. main_start env [prog, path] os [] = (Inr servers, concat (map listen_calls servers))
     \<and> map settings servers = map settings svs"
  using assms by (rule main_start_printed)

theorem main_starts_configuration_witness:
  "\<exists>servers. main_start sample_env [''webserv'', ''c''] empty_os [] = (Inr servers, concat (map listen_calls servers))
     \<and> map settings servers = [(80, 5, ''e/'')]"
  using main_starts_configuration [OF sample_config(1) _ _ sample_config(2), of sample_env "''c''" empty_os "''webserv''"]
  by (simp add: validate_settings good_settings_def settings_def sample_server_def empty_os_def)

end
