(* ===== verification/AnswerPhases.thy ===== *)
theory AnswerPhases
  imports Program
begin

text \<open>
  The rounds in which one client of the first server is served: its request arrives in pieces, the
  file is read in pieces and the answer leaves in pieces.  The three are instances of the interface
  \<open>phase\<close>, the rule for a number that falls in every round of \<^verbatim>\<open>webserver::run\<close>.
\<close>

section \<open>What reached the client\<close>

text \<open>Of every write to the descriptor, as many bytes as the system took.\<close>

definition taken :: "int \<Rightarrow> os \<Rightarrow> history \<Rightarrow> syscall \<Rightarrow> string" where
  "taken fd os t c = (case c of
     Sys_Write f s \<Rightarrow> if f = fd then take (nat (os_count os (t @ [c]))) s else [] | _ \<Rightarrow> [])"

definition sent_to :: "int \<Rightarrow> os \<Rightarrow> history \<Rightarrow> string" where
  "sent_to fd os t = concat (map (\<lambda>i. taken fd os (take i t) (t ! i)) [0..<length t])"

lemma sent_to_snoc: "sent_to fd os (t @ [c]) = sent_to fd os t @ taken fd os t c"
proof -
  have "map (\<lambda>i. taken fd os (take i (t @ [c])) ((t @ [c]) ! i)) [0..<length t]
      = map (\<lambda>i. taken fd os (take i t) (t ! i)) [0..<length t]"
    by (rule map_cong) (auto simp: nth_append)
  moreover have "[0..<length (t @ [c])] = [0..<length t] @ [length t]" by simp
  ultimately show ?thesis
    unfolding sent_to_def by (simp only: map_append concat_append list.map concat.simps) simp
qed

lemma sent_to_Nil [simp]: "sent_to fd os [] = []"
  by (simp add: sent_to_def)

definition no_write :: "syscall \<Rightarrow> bool" where
  "no_write c \<longleftrightarrow> (case c of Sys_Write f s \<Rightarrow> False | _ \<Rightarrow> True)"

lemma sent_to_no_write: "\<forall>c\<in>set u. no_write c \<Longrightarrow> sent_to fd os (t @ u) = sent_to fd os t"
proof (induction u rule: rev_induct)
  case (snoc c u)
  have "taken fd os (t @ u) c = []" using snoc.prems by (auto simp: taken_def no_write_def split: syscall.splits)
  with snoc show ?case by (simp add: sent_to_snoc flip: append_assoc)
qed simp

lemma no_write_simps [simp]:
  "no_write (Sys_Select n r w)" "no_write (Sys_Read fd)" "no_write Sys_Time" "no_write (Sys_Pread fd k)"
  "no_write Sys_Date" "no_write (Sys_Fstat fd)" "no_write (Sys_Close fd)" "\<not> no_write (Sys_Write fd s)"
  by (simp_all add: no_write_def)

section \<open>One server with one client\<close>

definition lone :: "server \<Rightarrow> client \<Rightarrow> request_buf option \<Rightarrow> server \<Rightarrow> bool" where
  "lone cfg c buf sv \<longleftrightarrow> config_of sv = cfg \<and> sv_clients sv = [c] \<and> sv_request_buffer sv (cl_clientFD c) = buf"

definition waits_for :: "server \<Rightarrow> int set \<Rightarrow> int set \<Rightarrow> file_descriptors \<Rightarrow> bool" where
  "waits_for cfg R W f \<longleftrightarrow> fd_read_buffer f - {sv_tcp_socket cfg} = R \<and> fd_write_buffer f = W"

text \<open>The state between two rounds, the state in which the client is treated, and the one it leaves.\<close>

definition serves ::
  "server \<Rightarrow> client \<Rightarrow> request_buf option \<Rightarrow> int set \<Rightarrow> int set \<Rightarrow> webserver \<Rightarrow> bool" where
  "serves cfg c buf R W ws \<longleftrightarrow>
     (\<exists>sv. ws_servers ws = [sv] \<and> lone cfg c buf sv) \<and> waits_for cfg R W (ws_fd ws)"

definition left ::
  "server \<Rightarrow> client \<Rightarrow> request_buf option \<Rightarrow> int set \<Rightarrow> int set \<Rightarrow> loop_state \<Rightarrow> bool" where
  "left cfg c buf R W s \<longleftrightarrow> lone cfg c buf (ls_server s) \<and> waits_for cfg R W (ls_fd s)"

definition ready ::
  "server \<Rightarrow> client \<Rightarrow> request_buf option \<Rightarrow> int set \<Rightarrow> int set \<Rightarrow> loop_state \<Rightarrow> bool" where
  "ready cfg c buf R W s \<longleftrightarrow> left cfg c buf R W s \<and> fd_read (ls_fd s) = R \<and> fd_write (ls_fd s) = W"

text \<open>
  A system that from the calls \<open>t\<close> on says of every descriptor it is asked about that it is ready,
  except that nobody else connects.
\<close>

definition obliging :: "os \<Rightarrow> int \<Rightarrow> history \<Rightarrow> bool" where
  "obliging os sock t \<longleftrightarrow> valid_fd sock \<and> (\<forall>u n r w. \<exists>r' w'.
     os_ready os (t @ u @ [Sys_Select n r w]) = Some (r', w') \<and> sock \<notin> r' \<and> r - {sock} \<subseteq> r' \<and> w \<subseteq> w')"

lemma obliging_later: "obliging os sock t \<Longrightarrow> obliging os sock (t @ u)"
  unfolding obliging_def by (metis append.assoc)

lemma rounds_first:
  "rounds os ws1 t1 ws2 t2 \<Longrightarrow> run_round ws os t = (Ret ws1, t1) \<Longrightarrow> rounds os ws t ws2 t2"
  by (induction rule: rounds.induct) (blast intro: rounds.intros)+

lemma rounds_trans:
  "rounds os ws1 t1 ws2 t2 \<Longrightarrow> rounds os ws t ws1 t1 \<Longrightarrow> rounds os ws t ws2 t2"
  by (induction rule: rounds.induct) (blast intro: rounds.intros)+

lemma lone_client_loop:
  assumes "sv_clients (ls_server s) = [c]" "try_block 0 s os t = (Inr x, s', t')"
  shows "client_loop (length (sv_clients (ls_server s))) 0 s os t = (Ret (), s', t')"
  using assms by simp

lemma lone_round:
  assumes "serves cfg c buf R W ws" "obliging os (sv_tcp_socket cfg) t"
    and "\<And>s n r w. ready cfg c buf R W s \<Longrightarrow> \<exists>x s' t' c' buf' R' W'.
      try_block 0 s os (t @ [Sys_Select n r w]) = (Inr x, s', t') \<and> left cfg c' buf' R' W' s'
      \<and> Q c' buf' R' W' t'"
  shows "\<exists>ws' t' c' buf' R' W'. run_round ws os t = (Ret ws', t') \<and> serves cfg c' buf' R' W' ws'
    \<and> Q c' buf' R' W' t'"
proof -
  from assms(1) obtain sv where ws: "ws_servers ws = [sv]" and sv: "lone cfg c buf sv"
    and f: "waits_for cfg R W (ws_fd ws)" by (auto simp: serves_def)
  let ?sock = "sv_tcp_socket cfg"
  have sock: "sv_tcp_socket sv = ?sock" using sv by (auto simp: lone_def config_of_def)
  let ?f = "(ws_fd ws)\<lparr>fd_read := insert ?sock (fd_read_buffer (ws_fd ws)), fd_write := W\<rparr>"
  have sync: "synchronize (ws_servers ws) (ws_fd ws) = Ret ?f"
    using assms(2) f by (simp add: ws synchronize_def sock checked_def obliging_def waits_for_def)
  let ?c = "Sys_Select (get_max ?f) (fd_read ?f) W"
  from assms(2) obtain r w where sel: "os_ready os (t @ [?c]) = Some (r, w)" "?sock \<notin> r"
    "fd_read ?f - {?sock} \<subseteq> r" "W \<subseteq> w" unfolding obliging_def by (metis append_Nil)
  define s where "s = \<lparr>ls_fd = ?f\<lparr>fd_read := fd_read ?f \<inter> r, fd_write := W \<inter> w\<rparr>, ls_server = sv,
    ls_check = ws_time_out_check ws\<rparr>"
  have rd: "ready cfg c buf R W s"
    using sv f sel(2-4) by (auto simp: s_def ready_def left_def waits_for_def)
  with assms(3) obtain x s' t' c' buf' R' W' where tried: "try_block 0 s os (t @ [?c]) = (Inr x, s', t')"
    and l: "left cfg c' buf' R' W' s'" and q: "Q c' buf' R' W' t'" by blast
  have "accept_part s os (t @ [?c]) = (Inr Next, s, t @ [?c])"
    using sel(2) assms(2) by (simp add: accept_part_def get_def act_def done_with_def s_def sock
        rdy_for_reading_def checked_def obliging_def io_simps)
  then have "server_round s os (t @ [?c]) = (Ret (), s', t')"
    using lone_client_loop [OF _ tried] rd by (simp add: server_round_def ready_def left_def lone_def)
  then have "run_round ws os t = (Ret \<lparr>ws_servers = [ls_server s'], ws_time_out_check = ls_check s',
      ws_fd = sync_maxFD [ls_server s'] (ls_fd s')\<rparr>, t')"
    using sync sel(1) by (simp add: run_round_def io_simps ws s_def)
  moreover have "serves cfg c' buf' R' W' \<lparr>ws_servers = [ls_server s'], ws_time_out_check = ls_check s',
      ws_fd = sync_maxFD [ls_server s'] (ls_fd s')\<rparr>"
    using l by (simp add: serves_def left_def waits_for_def sync_maxFD_def)
  ultimately show ?thesis using q by blast
qed

section \<open>Phases\<close>

text \<open>
  A phase is a property of the client, its buffer, the descriptors waited for and the calls so
  far, indexed by a number.  Every round with a number above 0 makes it fall.
\<close>

locale phase =
  fixes os :: os and cfg :: server
    and P :: "nat \<Rightarrow> client \<Rightarrow> request_buf option \<Rightarrow> int set \<Rightarrow> int set \<Rightarrow> history \<Rightarrow> bool"
  assumes fair: "P n c buf R W t \<Longrightarrow> obliging os (sv_tcp_socket cfg) t"
    and falls: "P (Suc n) c buf R W t \<Longrightarrow> ready cfg c buf R W s \<Longrightarrow> \<exists>x s' t' c' buf' R' W'.
      try_block 0 s os (t @ [Sys_Select k r w]) = (Inr x, s', t') \<and> left cfg c' buf' R' W' s'
      \<and> (\<exists>m\<le>n. P m c' buf' R' W' t')"
begin

lemma ends:
  "P n c buf R W t \<Longrightarrow> serves cfg c buf R W ws \<Longrightarrow>
     \<exists>ws' t' c' buf' R' W'. rounds os ws t ws' t' \<and> serves cfg c' buf' R' W' ws' \<and> P 0 c' buf' R' W' t'"
proof (induction n arbitrary: c buf R W t ws rule: less_induct)
  case (less n)
  show ?case
  proof (cases n)
    case 0
    with less.prems show ?thesis by (blast intro: rounds.start)
  next
    case (Suc k)
    from less.prems(1) have P: "P (Suc k) c buf R W t" by (simp add: Suc)
    have "\<exists>ws' t' c' buf' R' W'. run_round ws os t = (Ret ws', t') \<and> serves cfg c' buf' R' W' ws'
      \<and> (\<exists>m\<le>k. P m c' buf' R' W' t')"
      using lone_round [OF less.prems(2) fair [OF P], where Q = "\<lambda>c buf R W t. \<exists>m\<le>k. P m c buf R W t"]
        falls [OF P] by simp
    then obtain ws1 t1 c1 buf1 R1 W1 m where r: "run_round ws os t = (Ret ws1, t1)"
      and s: "serves cfg c1 buf1 R1 W1 ws1" and m: "m \<le> k" "P m c1 buf1 R1 W1 t1" by blast
    from m(1) have "m < n" by (simp add: Suc)
    from less.IH [OF this m(2) s] r rounds_first show ?thesis by blast
  qed
qed

end

section \<open>The parts of the try block\<close>

lemma read_part_idle:
  "cl_clientFD (client_at 0 s) \<notin> fd_read (ls_fd s) \<Longrightarrow> valid_fd (cl_clientFD (client_at 0 s)) \<Longrightarrow>
     read_part 0 s os t = (Inr Next, s, t)"
  by (simp add: read_part_def get_def act_def done_with_def rdy_for_reading_def checked_def io_simps)

lemma file_part_idle:
  "cl_fileFD (client_at 0 s) = -1
     \<or> valid_fd (cl_fileFD (client_at 0 s)) \<and> cl_fileFD (client_at 0 s) \<notin> fd_read (ls_fd s) \<Longrightarrow>
     file_part 0 s os t = (Inr Next, s, t)"
  by (auto simp: file_part_def get_def act_def done_with_def rdy_for_reading_def checked_def io_simps)

lemma send_part_idle:
  "cl_clientFD (client_at 0 s) \<notin> fd_write (ls_fd s) \<Longrightarrow> valid_fd (cl_clientFD (client_at 0 s)) \<Longrightarrow>
     send_part 0 s os t = (Inr Next, s, t)"
  by (auto simp: send_part_def get_def act_def done_with_def rdy_for_writing_def checked_def io_simps)

lemma time_out_part_idle: "\<not> ls_check s \<Longrightarrow> time_out_part 0 s os t = (Inr Next, s, t)"
  by (simp add: time_out_part_def get_def done_with_def)

lemma seq_Next [simp]: "a s os t = (Inr Next, s', t') \<Longrightarrow> seq_steps a b s os t = b s' os t'"
  by (simp add: seq_steps_def)

lemma seq_Continue [simp]: "a s os t = (Inr Continue, s', t') \<Longrightarrow> seq_steps a b s os t = (Inr Continue, s', t')"
  by (simp add: seq_steps_def)

lemma try_block_active:
  "cl_active (client_at 0 s) \<Longrightarrow> \<exists>b. try_block 0 s os t
     = seq_steps (read_part 0) (seq_steps (file_part 0) (seq_steps (send_part 0) (time_out_part 0)))
         (set_check b s) os t"
  by (auto simp: try_block_def get_def modify_def)

lemma ready_set_check [simp]: "ready cfg c buf R W (set_check b s) = ready cfg c buf R W s"
  by (simp add: ready_def left_def set_check_def)

lemma ready_client: "ready cfg c buf R W s \<Longrightarrow> client_at 0 s = c"
  by (simp add: ready_def left_def lone_def client_at_def)

lemma ready_sets: "ready cfg c buf R W s \<Longrightarrow> fd_read (ls_fd s) = R \<and> fd_write (ls_fd s) = W"
  by (simp add: ready_def)


section \<open>The request arrives\<close>

text \<open>The reads of the client's descriptor give the pieces, in their order.\<close>

definition arrives :: "os \<Rightarrow> int \<Rightarrow> history \<Rightarrow> string list \<Rightarrow> bool" where
  "arrives os fd t ds \<longleftrightarrow> (\<forall>u. let k = length (filter (\<lambda>c. c = Sys_Read fd) u) in
     k < length ds \<longrightarrow> os_data os (t @ u @ [Sys_Read fd]) = Some (ds ! k))"

definition pieces :: "string list \<Rightarrow> bool" where
  "pieces ds \<longleftrightarrow> (\<forall>d\<in>set ds. d \<noteq> [] \<and> length d < 6000000)"

text \<open>The text of a request that ends with its headers.\<close>

definition request_ends :: "string \<Rightarrow> bool" where
  "request_ends q \<longleftrightarrow> find_sub_idx CRLF2 q \<noteq> None \<and> header_end q = length q
     \<and> \<not> contains q ''Content-Length:'' \<and> \<not> contains q ''chunked''"

text \<open>
  What the handling of the request comes to: the file \<open>fd\<close> is opened, and the handler and the
  authorisation get these values.
\<close>

definition request_handled ::
  "os \<Rightarrow> server \<Rightarrow> client \<Rightarrow> string \<Rightarrow> int \<Rightarrow> header_handler \<Rightarrow> bool \<Rightarrow> bool" where
  "request_handled os cfg c q fd h auth \<longleftrightarrow> (\<forall>r. holds q r \<longrightarrow> (\<exists>h0.
     parse_request r (cl_handler c) = Ret h0 \<and> (\<forall>t. \<exists>u. handle_request (sv_cgi_file_types cfg)
       (sv_location_blocks cfg) (sv_error_page cfg) h0 (cl_authorization_status c) os t
         = (Ret (fd, h, auth), t @ u) \<and> (\<forall>x\<in>set u. no_write x \<and> x \<noteq> Sys_Read (cl_clientFD c)))))"

lemma arrives_next:
  "arrives os fd t (d # ds) \<Longrightarrow> x \<noteq> Sys_Read fd \<Longrightarrow> \<forall>y\<in>set u. y \<noteq> Sys_Read fd \<Longrightarrow>
     os_data os (t @ [x, Sys_Read fd]) = Some d \<and> arrives os fd (t @ x # Sys_Read fd # u) ds"
proof (intro conjI)
  assume a: "arrives os fd t (d # ds)" and x: "x \<noteq> Sys_Read fd" and u: "\<forall>y\<in>set u. y \<noteq> Sys_Read fd"
  from a [unfolded arrives_def, rule_format, of "[x]"] x
  show "os_data os (t @ [x, Sys_Read fd]) = Some d" by (simp add: Let_def)
  have none: "filter (\<lambda>c. c = Sys_Read fd) u = []" using u by (simp add: filter_empty_conv)
  show "arrives os fd (t @ x # Sys_Read fd # u) ds"
    unfolding arrives_def
  proof (intro allI)
    fix v
    show "let k = length (filter (\<lambda>c. c = Sys_Read fd) v) in
        k < length ds \<longrightarrow> os_data os ((t @ x # Sys_Read fd # u) @ v @ [Sys_Read fd]) = Some (ds ! k)"
      using a [unfolded arrives_def, rule_format, of "x # Sys_Read fd # u @ v"] x none by (simp add: Let_def)
  qed
qed

lemma arrives_later:
  assumes "arrives os fd t ds" "\<forall>x\<in>set u. x \<noteq> Sys_Read fd"
  shows "arrives os fd (t @ u) ds"
  unfolding arrives_def
proof (intro allI)
  fix v
  have "filter (\<lambda>c. c = Sys_Read fd) u = []" using assms(2) by (simp add: filter_empty_conv)
  then show "let k = length (filter (\<lambda>c. c = Sys_Read fd) v) in
      k < length ds \<longrightarrow> os_data os ((t @ u) @ v @ [Sys_Read fd]) = Some (ds ! k)"
    using assms(1) [unfolded arrives_def, rule_format, of "u @ v"] by (simp add: Let_def)
qed

lemma receive_piece:
  assumes "holds s r" "request_ends (s @ d @ e)"
  shows "\<exists>r'. receive d r = Ret (if e = [] then valid else invalid, r') \<and> holds (s @ d) r'"
proof -
  obtain r' where r': "(if headers_received r then Ret (add_body_data d r) else add_header_data d r) = Ret r'"
    "holds (s @ d) r'"
    using holds_add_body [OF assms(1), of d] holds_add_header [OF assms(1), of d]
    by (cases "headers_received r") auto
  note hr = headers_received_holds [OF r'(2)]
  have v: "receive d r = (if headers_received r' then rbind (validate_request r') (\<lambda>v. Ret (v, r'))
      else Ret (invalid, r'))"
    using r'(1) by (simp add: receive_def)
  show ?thesis
  proof (cases "e = []")
    case True
    with assms(2) r'(2) have "rb_headers r' = s @ d" by (simp add: request_ends_def holds_def)
    with True assms(2) have "validate_request r' = Ret valid"
      by (simp add: validate_request_def request_ends_def contains_def split: option.splits)
    with v hr True assms(2) r'(2) show ?thesis by (simp add: request_ends_def)
  next
    case False
    have "find_sub_idx CRLF2 (s @ d) = None"
    proof (rule ccontr)
      assume "find_sub_idx CRLF2 (s @ d) \<noteq> None"
      then obtain p where "find_sub_idx CRLF2 (s @ d) = Some p" by blast
      from header_end_append [OF this, of e] header_end_le [of "s @ d"] False assms(2)
      show False by (simp add: request_ends_def)
    qed
    with v hr False r'(2) show ?thesis by simp
  qed
qed

definition opened :: "client \<Rightarrow> int \<Rightarrow> header_handler \<Rightarrow> bool \<Rightarrow> client" where
  "opened c fd h auth = c\<lparr>cl_handler := h, cl_authorization_status := auth, cl_fileFD := fd\<rparr>"

definition no_upload :: "server \<Rightarrow> header_handler \<Rightarrow> bool" where
  "no_upload cfg h \<longleftrightarrow> \<not> is_cgi (sv_cgi_file_types cfg) h \<and> hh_method h \<notin> {''PUT'', ''POST''}"

lemma config_fields:
  "config_of sv = cfg \<Longrightarrow> sv_cgi_file_types sv = sv_cgi_file_types cfg
     \<and> sv_location_blocks sv = sv_location_blocks cfg \<and> sv_error_page sv = sv_error_page cfg
     \<and> sv_server_name sv = sv_server_name cfg \<and> sv_tcp_socket sv = sv_tcp_socket cfg"
  by (auto simp: config_of_def)

lemma start_request_opens:
  assumes "lone cfg c (Some r) (ls_server s)" "waits_for cfg {cl_clientFD c} {} (ls_fd s)"
    and "parse_request r (cl_handler c) = Ret h0"
    and "handle_request (sv_cgi_file_types cfg) (sv_location_blocks cfg) (sv_error_page cfg) h0
      (cl_authorization_status c) os t = (Ret (fd, h, auth), t')"
    and "no_upload cfg h" "valid_fd (cl_clientFD c)" "valid_fd fd" "fd \<noteq> sv_tcp_socket cfg"
  shows "\<exists>s'. start_request 0 s os t = (Inr Next, s', t') \<and> left cfg (opened c fd h auth) None {fd} {} s'
    \<and> fd_read (ls_fd s') = fd_read (ls_fd s) \<and> fd_write (ls_fd s') = fd_write (ls_fd s) \<and> ls_check s' = ls_check s"
proof -
  note sv = config_fields [of "ls_server s" cfg]
  have u: "fd \<noteq> -1" using assms(7) by (simp add: valid_fd_def)
  show ?thesis
    using assms sv u
    by (auto simp: start_request_def get_def act_def modify_def done_with_def io_simps client_at_def lone_def
        set_handler_def set_client_def remove_handled_request_def set_server_def handled_request_update_def
        clr_from_read_buffer_def set_read_buffer_def checked_def update_max_def no_upload_def is_cgi_def
        set_fds_def left_def waits_for_def opened_def config_of_def)
qed

text \<open>One piece: it is stored, and \<open>start_request\<close> follows when it was the last one.\<close>

lemma read_part_piece:
  assumes "ready cfg c buf {cl_clientFD c} {} s" "valid_fd (cl_clientFD c)"
    and "os_data os (t @ [Sys_Read (cl_clientFD c)]) = Some d" "d \<noteq> []" "length d < 6000000"
    and "receive d (case buf of None \<Rightarrow> request_buf_init | Some r \<Rightarrow> r) = Ret (v, r')"
  shows "\<exists>s'. read_part 0 s os t = (if v = valid then start_request 0 s' os (t @ [Sys_Read (cl_clientFD c), Sys_Time])
       else (Inr Next, s', t @ [Sys_Read (cl_clientFD c), Sys_Time]))
     \<and> ready cfg c (Some r') {cl_clientFD c} {} s' \<and> \<not> ls_check s'"
proof -
  have "sv_request_buffer (ls_server s) (cl_clientFD c) = buf" using assms(1)
    by (simp add: ready_def left_def lone_def)
  with assms have upd: "\<exists>sv. update_request_buffer (cl_clientFD c) d (ls_server s) = Ret (v, sv)
      \<and> lone cfg c (Some r') sv"
    by (simp add: update_request_buffer_def ready_def left_def lone_def config_of_def)
  then obtain sv where sv: "update_request_buffer (cl_clientFD c) d (ls_server s) = Ret (v, sv)"
    "lone cfg c (Some r') sv" by blast
  have ne: "cl_clientFD c \<noteq> -1" using assms(2) by (auto simp: valid_fd_def)
  let ?t2 = "t @ [Sys_Read (cl_clientFD c), Sys_Time]"
  define f where "f = (ls_fd s)\<lparr>fd_time_out_monitor := (fd_time_out_monitor (ls_fd s))
    (cl_clientFD c := Some (os_time os ?t2))\<rparr>"
  define s2 where "s2 = set_server sv (set_fds f (set_check False s))"
  have "read_part 0 s os t = (if v = valid then start_request 0 s2 os ?t2 else (Inr Next, s2, ?t2))"
    using assms(2-5) sv(1) ne ready_client [OF assms(1)] ready_sets [OF assms(1)]
    by (simp add: read_part_def get_def act_def modify_def done_with_def io_simps rdy_for_reading_def
        checked_def accept_request_data_def read_browser_request_def set_time_out_def s2_def f_def
        set_check_def set_fds_def set_server_def)
  moreover have "ready cfg c (Some r') {cl_clientFD c} {} s2 \<and> \<not> ls_check s2"
    using assms(1) sv(2)
    by (simp add: s2_def f_def ready_def left_def waits_for_def set_check_def set_fds_def set_server_def)
  ultimately show ?thesis by blast
qed

definition site :: "os \<Rightarrow> server \<Rightarrow> int \<Rightarrow> int \<Rightarrow> history \<Rightarrow> bool" where
  "site os cfg cfd fd t \<longleftrightarrow> obliging os (sv_tcp_socket cfg) t \<and> valid_fd cfd \<and> valid_fd fd
     \<and> distinct [sv_tcp_socket cfg, cfd, fd]"

lemma site_later: "site os cfg cfd fd t \<Longrightarrow> site os cfg cfd fd (t @ u)"
  by (simp add: site_def obliging_later)

definition arriving ::
  "os \<Rightarrow> server \<Rightarrow> client \<Rightarrow> string list \<Rightarrow> string \<Rightarrow> int \<Rightarrow> header_handler \<Rightarrow> bool \<Rightarrow> string \<Rightarrow>
     nat \<Rightarrow> client \<Rightarrow> request_buf option \<Rightarrow> int set \<Rightarrow> int set \<Rightarrow> history \<Rightarrow> bool" where
  "arriving os cfg c0 pending q fd h auth w n c buf R W t \<longleftrightarrow>
     site os cfg (cl_clientFD c0) fd t \<and> no_upload cfg h \<and> sent_to (cl_clientFD c0) os t = w \<and>
     (if n = 0 then c = opened c0 fd h auth \<and> buf = None \<and> R = {fd} \<and> W = {} \<and> arrives os (cl_clientFD c0) t pending
      else c = c0 \<and> R = {cl_clientFD c0} \<and> W = {} \<and> cl_active c0 \<and> cl_fileFD c0 = -1
        \<and> request_ends q \<and> request_handled os cfg c0 q fd h auth
        \<and> (\<exists>s ds. length ds = n \<and> q = s @ concat ds \<and> pieces ds \<and> arrives os (cl_clientFD c0) t (ds @ pending)
             \<and> holds s (case buf of None \<Rightarrow> request_buf_init | Some r \<Rightarrow> r)))"

text \<open>After the last piece the request is handled, and the other parts of the round have nothing to do.\<close>

lemma last_piece:
  assumes s: "ready cfg c (Some r) {cl_clientFD c} {} s" "\<not> ls_check s" and q: "holds q r" "request_handled os cfg c q fd h auth"
    and site: "no_upload cfg h" "site os cfg (cl_clientFD c) fd t0"
  shows "\<exists>s' u. seq_steps (start_request 0) (seq_steps (file_part 0) (seq_steps (send_part 0) (time_out_part 0))) s os t
      = (Inr Next, s', t @ u)
    \<and> left cfg (opened c fd h auth) None {fd} {} s' \<and> (\<forall>x\<in>set u. no_write x \<and> x \<noteq> Sys_Read (cl_clientFD c))"
proof -
  from q obtain h0 where h0: "parse_request r (cl_handler c) = Ret h0" and all: "\<forall>t. \<exists>u. handle_request
      (sv_cgi_file_types cfg) (sv_location_blocks cfg) (sv_error_page cfg) h0 (cl_authorization_status c) os t
        = (Ret (fd, h, auth), t @ u) \<and> (\<forall>x\<in>set u. no_write x \<and> x \<noteq> Sys_Read (cl_clientFD c))"
    unfolding request_handled_def by blast
  from all obtain u where u: "handle_request (sv_cgi_file_types cfg) (sv_location_blocks cfg)
      (sv_error_page cfg) h0 (cl_authorization_status c) os t = (Ret (fd, h, auth), t @ u)"
    "\<forall>x\<in>set u. no_write x \<and> x \<noteq> Sys_Read (cl_clientFD c)" by blast
  have l: "lone cfg c (Some r) (ls_server s)" "waits_for cfg {cl_clientFD c} {} (ls_fd s)"
    using s by (simp_all add: ready_def left_def)
  from start_request_opens [OF l h0 u(1) site(1)] site(2) obtain s' where
    s': "start_request 0 s os t = (Inr Next, s', t @ u)" "left cfg (opened c fd h auth) None {fd} {} s'"
      "fd_read (ls_fd s') = {cl_clientFD c}" "fd_write (ls_fd s') = {}" "\<not> ls_check s'"
    using s ready_sets [OF s(1)] by (auto simp: site_def)
  have "client_at 0 s' = opened c fd h auth" using s'(2) by (simp add: left_def lone_def client_at_def)
  with s' site(2) have "seq_steps (start_request 0) (seq_steps (file_part 0) (seq_steps (send_part 0) (time_out_part 0))) s os t
      = (Inr Next, s', t @ u)"
    by (simp add: file_part_idle send_part_idle time_out_part_idle site_def opened_def)
  with s'(2) u(2) show ?thesis by blast
qed

lemma arriving_falls:
  assumes P: "arriving os cfg c0 pending q fd h auth w (Suc n) c buf R W t" and s: "ready cfg c buf R W s"
  shows "\<exists>x s' t' c' buf' R' W'. try_block 0 s os (t @ [Sys_Select k r w']) = (Inr x, s', t')
    \<and> left cfg c' buf' R' W' s' \<and> (\<exists>m\<le>n. arriving os cfg c0 pending q fd h auth w m c' buf' R' W' t')"
proof -
  let ?fd = "cl_clientFD c0" let ?t = "t @ [Sys_Select k r w']"
  let ?b = "case buf of None \<Rightarrow> request_buf_init | Some r \<Rightarrow> r"
  from P have c: "c = c0" "R = {?fd}" "W = {}" and w: "sent_to ?fd os t = w" and up: "no_upload cfg h"
    and fds: "site os cfg ?fd fd t" and act: "cl_active c0" "cl_fileFD c0 = -1"
    and q: "request_ends q" and hd: "request_handled os cfg c0 q fd h auth"
    by (simp_all add: arriving_def)
  from P obtain z ds where ds: "length ds = Suc n" "q = z @ concat ds" "pieces ds" "arrives os ?fd t (ds @ pending)"
    "holds z ?b" by (auto simp: arriving_def)
  from ds(1) obtain d es where d: "ds = d # es" by (cases ds) auto
  from ds d have piece: "d \<noteq> []" "length d < 6000000" "pieces es" and len: "length es = n"
    by (simp_all add: pieces_def)
  have empty: "concat es = [] \<longleftrightarrow> n = 0" using piece(3) len by (cases es) (auto simp: pieces_def)
  have "request_ends (z @ d @ concat es)" using q ds(2) d by simp
  from receive_piece [OF ds(5) this] obtain r1
    where r1: "receive d ?b = Ret (if n = 0 then valid else invalid, r1)" "holds (z @ d) r1"
    unfolding empty by blast
  from arrives_next [OF ds(4) [unfolded d append_Cons], of "Sys_Select k r w'" "[]"]
  have data: "os_data os (?t @ [Sys_Read ?fd]) = Some d" by simp
  let ?t2 = "?t @ [Sys_Read ?fd, Sys_Time]"
  obtain b where tb: "try_block 0 s os ?t = seq_steps (read_part 0) (seq_steps (file_part 0)
      (seq_steps (send_part 0) (time_out_part 0))) (set_check b s) os ?t"
    using try_block_active act(1) ready_client [OF s] c(1) by metis
  have "ready cfg c0 buf {?fd} {} (set_check b s)" using s c by simp
  from read_part_piece [OF this _ data piece(1,2) r1(1)] fds obtain s2 where
    rp: "read_part 0 (set_check b s) os ?t = (if n = 0 then start_request 0 s2 os ?t2 else (Inr Next, s2, ?t2))"
    and s2: "ready cfg c0 (Some r1) {?fd} {} s2" "\<not> ls_check s2"
    by (cases "n = 0") (auto simp: site_def)
  have w2: "sent_to ?fd os ?t2 = w" using w sent_to_no_write [of "[Sys_Select k r w', Sys_Read ?fd, Sys_Time]"]
    by simp
  show ?thesis
  proof (cases "n = 0")
    case False
    have "arrives os ?fd ?t2 (es @ pending)"
      using arrives_next [OF ds(4) [unfolded d append_Cons], of "Sys_Select k r w'" "[Sys_Time]"] by simp
    with False site_later [OF fds] up w2 act q hd len piece(3) ds(2) d r1(2)
    have "arriving os cfg c0 pending q fd h auth w n c0 (Some r1) {?fd} {} ?t2"
      unfolding arriving_def by (auto intro!: exI [of _ "z @ d"] exI [of _ es])
    moreover have "try_block 0 s os ?t = (Inr Next, s2, ?t2)"
      using False rp s2 act(2) fds ready_client [OF s2(1)] ready_sets [OF s2(1)]
      by (simp add: tb file_part_idle send_part_idle time_out_part_idle site_def)
    moreover have "left cfg c0 (Some r1) {?fd} {} s2" using s2(1) by (simp add: ready_def)
    ultimately show ?thesis by blast
  next
    case True
    with ds d len have "holds q r1" using r1(2) by simp
    from last_piece [OF s2 this hd up fds, of ?t2] obtain s3 u where
      s3: "seq_steps (start_request 0) (seq_steps (file_part 0) (seq_steps (send_part 0) (time_out_part 0))) s2 os ?t2
        = (Inr Next, s3, ?t2 @ u)" "left cfg (opened c0 fd h auth) None {fd} {} s3"
      and u: "\<forall>x\<in>set u. no_write x" "\<forall>x\<in>set u. x \<noteq> Sys_Read ?fd" by blast
    have "arrives os ?fd (?t2 @ u) pending"
      using arrives_next [OF ds(4) [unfolded d append_Cons], of "Sys_Select k r w'" "Sys_Time # u"] True len u(2) by simp
    then have "arriving os cfg c0 pending q fd h auth w 0 (opened c0 fd h auth) None {fd} {} (?t2 @ u)"
      using site_later [OF fds] up w2 sent_to_no_write [OF u(1), of ?fd os ?t2] by (simp add: arriving_def)
    moreover have "try_block 0 s os ?t = (Inr Next, s3, ?t2 @ u)"
      using True rp s3(1) by (simp add: tb seq_steps_def)
    ultimately show ?thesis using s3(2) by blast
  qed
qed

interpretation arrival: phase os cfg "arriving os cfg c0 pending q fd h auth w" for os cfg c0 pending q fd h auth w
proof
  show "arriving os cfg c0 pending q fd h auth w n c buf R W t \<Longrightarrow> obliging os (sv_tcp_socket cfg) t" for n c buf R W t
    by (simp add: arriving_def site_def)
qed (rule arriving_falls)


section \<open>The file is read\<close>

text \<open>The reads of the file at an offset give some of the bytes there, at least one before its end.\<close>

definition file_gives :: "os \<Rightarrow> int \<Rightarrow> string \<Rightarrow> bool" where
  "file_gives os fd content \<longleftrightarrow> (\<forall>t k. k \<le> length content \<longrightarrow> (\<exists>n.
     os_data os (t @ [Sys_Pread fd (int k)]) = Some (take n (drop k content)) \<and> (k < length content \<longrightarrow> 0 < n)))"

definition file_read :: "nat \<Rightarrow> bool \<Rightarrow> string \<Rightarrow> client \<Rightarrow> client" where
  "file_read k done content c = c\<lparr>cl_handler := (cl_handler c)\<lparr>hh_response_file := take k content,
     hh_bytes_read := (if done then 0 else int k), hh_read_from_file := done\<rparr>\<rparr>"

definition reads_on :: "server \<Rightarrow> client \<Rightarrow> bool" where
  "reads_on cfg c \<longleftrightarrow> cl_active c \<and> cl_cgi_inputFD c = -1 \<and> no_upload cfg (cl_handler c)
     \<and> hh_status (cl_handler c) \<noteq> 204 \<and> \<not> hh_read_from_file (cl_handler c)"

definition reading ::
  "os \<Rightarrow> server \<Rightarrow> client \<Rightarrow> string list \<Rightarrow> string \<Rightarrow> string \<Rightarrow>
     nat \<Rightarrow> client \<Rightarrow> request_buf option \<Rightarrow> int set \<Rightarrow> int set \<Rightarrow> history \<Rightarrow> bool" where
  "reading os cfg c1 pending content w n c buf R W t \<longleftrightarrow>
     site os cfg (cl_clientFD c1) (cl_fileFD c1) t \<and> reads_on cfg c1 \<and> file_gives os (cl_fileFD c1) content
     \<and> sent_to (cl_clientFD c1) os t = w \<and> arrives os (cl_clientFD c1) t pending \<and> buf = None \<and>
     (if n = 0 then c = file_read (length content) True content c1 \<and> R = {} \<and> W = {cl_clientFD c1}
      else R = {cl_fileFD c1} \<and> W = {} \<and> (\<exists>k \<le> length content. n = Suc (length content - k)
        \<and> c = file_read k False content c1))"

lemma body_part_idle:
  "valid_fd (cl_fileFD (client_at 0 s)) \<Longrightarrow> cl_fileFD (client_at 0 s) \<notin> fd_write (ls_fd s) \<Longrightarrow>
     body_part 0 s os t = (Inr Next, s, t)"
  by (auto simp: body_part_def get_def act_def done_with_def rdy_for_writing_def checked_def Let_def io_simps)

lemma handler_updates:
  "h\<lparr>hh_response_file := a, hh_bytes_read := b, hh_read_from_file := x\<rparr>
     = h\<lparr>hh_read_from_file := x, hh_response_file := a, hh_bytes_read := b\<rparr>"
  by simp

text \<open>A read that gives bytes ends the treatment of the client for this round.\<close>

lemma answer_part_bytes:
  assumes "ready cfg (file_read k False content c) None R W s" "reads_on cfg c"
    and "os_data os (t @ [Sys_Pread (cl_fileFD c) (int k)]) = Some (take n (drop k content))"
    and "0 < n" "k < length content"
  shows "\<exists>s'. answer_part 0 s os t = (Inr Continue, s', t @ [Sys_Pread (cl_fileFD c) (int k)])
     \<and> left cfg (file_read (min (length content) (k + n)) False content c) None R W s'"
proof -
  let ?c = "file_read k False content c" let ?k = "min (length content) (k + n)"
  define h where "h = cl_handler (file_read ?k False content c)"
  have m: "hh_method (cl_handler c) \<noteq> ''POST''" using assms(2) by (simp add: reads_on_def no_upload_def)
  have "take ?k content = take k content @ take n (drop k content)"
    by (simp add: take_add flip: take_take)
  moreover have "length (take n (drop k content)) = ?k - k" using assms(5) by simp
  moreover have "take n (drop k content) \<noteq> []" "?k \<noteq> k" using assms(4,5) by auto
  ultimately have "answer_part 0 s os t = (Inr Continue, set_handler 0 h s, t @ [Sys_Pread (cl_fileFD c) (int k)])"
    using assms m ready_client [OF assms(1)]
    by (simp add: answer_part_def get_def act_def modify_def done_with_def read_requested_file_def io_simps
        reads_on_def file_read_def Let_def h_def handler_updates)
  moreover have "left cfg (file_read ?k False content c) None R W (set_handler 0 h s)"
    using assms(1) by (simp add: ready_def left_def lone_def set_handler_def set_client_def client_at_def
        h_def file_read_def config_of_def)
  ultimately show ?thesis by blast
qed


text \<open>The read at the end hands the descriptor of the client over for the answer.\<close>

lemma answer_part_end:
  assumes "ready cfg (file_read (length content) False content c) None {cl_fileFD c} {} s" "reads_on cfg c"
    and "os_data os (t @ [Sys_Pread (cl_fileFD c) (int (length content))]) = Some []"
    and "site os cfg (cl_clientFD c) (cl_fileFD c) t"
  shows "\<exists>s'. seq_steps (answer_part 0) (file_update_part 0) s os t
      = (Inr Next, s', t @ [Sys_Pread (cl_fileFD c) (int (length content))])
     \<and> left cfg (file_read (length content) True content c) None {} {cl_clientFD c} s'
     \<and> fd_read (ls_fd s') = {cl_fileFD c} \<and> fd_write (ls_fd s') = {} \<and> \<not> ls_check s'"
proof -
  let ?t = "t @ [Sys_Pread (cl_fileFD c) (int (length content))]"
  define h where "h = cl_handler (file_read (length content) True content c)"
  define s1 where "s1 = set_check False (set_handler 0 h s)"
  define f where "f = (ls_fd s)\<lparr>fd_read_buffer := fd_read_buffer (ls_fd s) - {cl_fileFD c},
    fd_write_buffer := {cl_clientFD c}\<rparr>"
  have m: "hh_method (cl_handler c) \<noteq> ''POST''" using assms(2) by (simp add: reads_on_def no_upload_def)
  have "answer_part 0 s os t = (Inr Next, s1, ?t)"
    using assms m ready_client [OF assms(1)]
    by (simp add: answer_part_def get_def act_def modify_def done_with_def read_requested_file_def io_simps
        reads_on_def file_read_def Let_def h_def s1_def)
  moreover have "client_at 0 s1 = file_read (length content) True content c"
    using assms(1) by (simp add: s1_def h_def ready_def left_def lone_def set_handler_def set_client_def
        client_at_def file_read_def set_check_def)
  moreover have "ls_fd s1 = ls_fd s" by (simp add: s1_def set_check_def set_handler_def set_client_def)
  moreover have "cl_fileFD c \<noteq> -1" using assms(4) by (auto simp: site_def valid_fd_def)
  ultimately have "seq_steps (answer_part 0) (file_update_part 0) s os t = (Inr Next, set_fds f s1, ?t)"
    using assms(1,2,4) by (simp add: file_update_part_def get_def act_def modify_def done_with_def io_simps
        read_request_update_def rdy_for_writing_def checked_def clr_from_read_buffer_def set_write_buffer_def
        ready_def left_def waits_for_def site_def file_read_def reads_on_def f_def)
  moreover have "left cfg (file_read (length content) True content c) None {} {cl_clientFD c} (set_fds f s1)
     \<and> fd_read (ls_fd (set_fds f s1)) = {cl_fileFD c} \<and> fd_write (ls_fd (set_fds f s1)) = {}
     \<and> \<not> ls_check (set_fds f s1)"
    using assms(1) by (auto simp: ready_def left_def lone_def set_handler_def set_client_def client_at_def
        set_check_def set_fds_def h_def s1_def f_def file_read_def config_of_def waits_for_def)
  ultimately show ?thesis by blast
qed

text \<open>While the file is read, the other parts of the round have nothing to do.\<close>

lemma reading_parts:
  assumes "ready cfg c None {cl_fileFD c} {} s" "cl_active c" "site os cfg (cl_clientFD c) (cl_fileFD c) t0"
  shows "\<exists>b. ready cfg c None {cl_fileFD c} {} (set_check b s) \<and> try_block 0 s os t
    = seq_steps (\<lambda>s. seq_steps (answer_part 0) (file_update_part 0) s) (seq_steps (send_part 0) (time_out_part 0)) (set_check b s) os t"
proof -
  obtain b where tb: "try_block 0 s os t = seq_steps (read_part 0) (seq_steps (file_part 0)
      (seq_steps (send_part 0) (time_out_part 0))) (set_check b s) os t"
    using try_block_active assms(2) ready_client [OF assms(1)] by metis
  have s: "ready cfg c None {cl_fileFD c} {} (set_check b s)" using assms(1) by simp
  have "cl_fileFD c \<noteq> -1" using assms(3) by (auto simp: site_def valid_fd_def)
  then have "file_part 0 (set_check b s) os t = seq_steps (answer_part 0) (file_update_part 0) (set_check b s) os t"
    using assms(3) ready_client [OF s] ready_sets [OF s] body_part_idle [of "set_check b s" os t]
    by (simp add: file_part_def get_def act_def io_simps rdy_for_reading_def checked_def site_def)
  then have "try_block 0 s os t = seq_steps (\<lambda>s. seq_steps (answer_part 0) (file_update_part 0) s)
      (seq_steps (send_part 0) (time_out_part 0)) (set_check b s) os t"
    using assms(3) ready_client [OF s] ready_sets [OF s]
    by (simp add: tb read_part_idle site_def) (simp add: seq_steps_def)
  with s show ?thesis by blast
qed

lemma reading_falls:
  assumes P: "reading os cfg c1 pending content w (Suc n) c buf R W t" and s: "ready cfg c buf R W s"
  shows "\<exists>x s' t' c' buf' R' W'. try_block 0 s os (t @ [Sys_Select k r w']) = (Inr x, s', t')
    \<and> left cfg c' buf' R' W' s' \<and> (\<exists>m\<le>n. reading os cfg c1 pending content w m c' buf' R' W' t')"
proof -
  let ?fd = "cl_fileFD c1" and ?cfd = "cl_clientFD c1" let ?t = "t @ [Sys_Select k r w']"
  from P have fds: "site os cfg ?cfd ?fd t" and on: "reads_on cfg c1" and fg: "file_gives os ?fd content"
    and w: "sent_to ?cfd os t = w" and came: "arrives os ?cfd t pending" and st: "buf = None" "R = {?fd}" "W = {}" by (auto simp: reading_def)
  from P obtain j where j: "j \<le> length content" "n = length content - j" "c = file_read j False content c1"
    by (auto simp: reading_def)
  let ?p = "Sys_Pread ?fd (int j)"
  from fg j(1) obtain i where i: "os_data os (?t @ [?p]) = Some (take i (drop j content))"
    "j < length content \<longrightarrow> 0 < i" unfolding file_gives_def by blast
  have w2: "sent_to ?cfd os (?t @ [?p]) = w" using w sent_to_no_write [of "[Sys_Select k r w', ?p]"] by simp
  have came2: "arrives os ?cfd (?t @ [?p]) pending" using arrives_later [OF came, of "[Sys_Select k r w', ?p]"] by simp
  have c: "cl_active c" "cl_fileFD c = ?fd" "cl_clientFD c = ?cfd" using on j(3) by (simp_all add: reads_on_def file_read_def)
  have "ready cfg c None {cl_fileFD c} {} s" "site os cfg (cl_clientFD c) (cl_fileFD c) t" using s st fds c by simp_all
  from reading_parts [OF this(1) c(1) this(2)] c obtain b where s1: "ready cfg c None {?fd} {} (set_check b s)"
    and parts: "try_block 0 s os ?t = seq_steps (\<lambda>s. seq_steps (answer_part 0) (file_update_part 0) s)
      (seq_steps (send_part 0) (time_out_part 0)) (set_check b s) os ?t" by metis
  show ?thesis
  proof (cases "j < length content")
    case True
    let ?j = "min (length content) (j + i)"
    from answer_part_bytes [OF s1 [unfolded j(3)] on i(1)] i(2) True obtain s2 where
      s2: "answer_part 0 (set_check b s) os ?t = (Inr Continue, s2, ?t @ [?p])"
        "left cfg (file_read ?j False content c1) None {?fd} {} s2" by blast
    have "reading os cfg c1 pending content w (Suc (length content - ?j)) (file_read ?j False content c1) None {?fd} {} (?t @ [?p])"
      using came2 site_later [OF fds] on fg w2 by (auto simp: reading_def intro: exI [of _ ?j])
    moreover have "Suc (length content - ?j) \<le> n" using j(2) True i(2) by auto
    ultimately show ?thesis using s2 parts by (simp only: seq_Continue) blast
  next
    case False
    with j have j': "j = length content" "c = file_read (length content) False content c1" by simp_all
    have "os_data os (?t @ [Sys_Pread ?fd (int (length content))]) = Some []" using i(1) j' by simp
    from answer_part_end [OF s1 [unfolded j'(2)] on this site_later [OF fds]] obtain s2 where
      s2: "seq_steps (answer_part 0) (file_update_part 0) (set_check b s) os ?t = (Inr Next, s2, ?t @ [?p])"
        "left cfg (file_read (length content) True content c1) None {} {?cfd} s2"
        "fd_write (ls_fd s2) = {}" "\<not> ls_check s2" using j'(1) by blast
    have "client_at 0 s2 = file_read (length content) True content c1"
      using s2(2) by (simp add: left_def lone_def client_at_def)
    then have "try_block 0 s os ?t = (Inr Next, s2, ?t @ [?p])"
      using s2 fds by (simp add: parts send_part_idle time_out_part_idle site_def file_read_def)
    moreover have "reading os cfg c1 pending content w 0 (file_read (length content) True content c1) None {} {?cfd} (?t @ [?p])"
      using came2 site_later [OF fds] on fg w2 by (simp add: reading_def)
    ultimately show ?thesis using s2(2) by blast
  qed
qed

interpretation delivery_of_file: phase os cfg "reading os cfg c1 pending content w" for os cfg c1 pending content w
proof
  show "reading os cfg c1 pending content w n c buf R W t \<Longrightarrow> obliging os (sv_tcp_socket cfg) t" for n c buf R W t
    by (simp add: reading_def site_def)
qed (rule reading_falls)


section \<open>The answer leaves\<close>

definition answer_out :: "string \<Rightarrow> nat \<Rightarrow> client \<Rightarrow> client" where
  "answer_out resp j c = c\<lparr>cl_handler := (cl_handler c)\<lparr>hh_response := resp,
     hh_response_size := int (length resp), hh_bytes_written := int j\<rparr>\<rparr>"

text \<open>The client after its answer: the handler reset, the file closed, active again.\<close>

definition released :: "client \<Rightarrow> client" where
  "released c = c\<lparr>cl_handler := reset_handler (cl_handler c), cl_cgi_inputFD := -1, cl_fileFD := -1,
     cl_active := True\<rparr>"

lemma reset_answer_out: "reset_handler (cl_handler (answer_out resp j c)) = reset_handler (cl_handler c)"
  by (simp add: answer_out_def reset_handler_def)

lemma reset_written [simp]:
  "reset_handler (h\<lparr>hh_bytes_written := x\<rparr>) = reset_handler h"
  "(reset_handler h)\<lparr>hh_bytes_written := 0\<rparr> = reset_handler h"
  "hh_bytes_written (reset_handler h) = 0" "hh_response_size (reset_handler h) = 0"
  by (simp_all add: reset_handler_def)

lemma lone_rotation:
  "update_active_client [c] (cl_clientFD c) = Ret [c\<lparr>cl_active := True\<rparr>]"
  by (simp add: update_active_client_def)

lemma act_Inr: "m os t = (Inr x, t') \<Longrightarrow> act m k s os t = k x s os t'"
  by (simp add: act_def)

lemma send_part_starts:
  assumes "client_at 0 s = c" "ls_server s = sv" "valid_fd (cl_clientFD c)" "cl_clientFD c \<in> fd_write (ls_fd s)"
    and "(if hh_bytes_written (cl_handler c) = 0 then create_response (cl_fileFD c) (sv_server_name sv) (cl_handler c)
       else io_return (cl_handler c)) os t = (Ret h, t1)"
    and "send_response (cl_clientFD c) h os t1 = (Ret h', t2)"
  shows "send_part 0 s os t = (if hh_bytes_written h' < hh_response_size h' then done_with Continue
     else modify (set_handler 0 (h'\<lparr>hh_bytes_written := 0\<rparr>)) (
          get (client_at 0) (\<lambda>c. act (send_response_update c (ls_fd s)) (\<lambda>(c, f).
          modify (set_client 0 c) (modify (set_fds f) (get ls_server (\<lambda>sv.
          act (io_of (update_active_client (sv_clients sv) (cl_clientFD c))) (\<lambda>cs.
          modify (set_clients cs) (done_with Next)))))))))
       (set_handler 0 h' (set_handler 0 h (set_check False s))) os t2"
proof -
  have "cl_clientFD c \<noteq> -1" using assms(3) by (auto simp: valid_fd_def)
  then have rdy: "io_of (rdy_for_writing (cl_clientFD c) (ls_fd s)) os t = (Inr True, t)"
    using assms(3,4) by (simp add: rdy_for_writing_def checked_def io_simps)
  let ?mk = "if hh_bytes_written (cl_handler c) = 0
    then create_response (cl_fileFD c) (sv_server_name sv) (cl_handler c) else io_return (cl_handler c)"
  show ?thesis
    unfolding send_part_def get_def assms(1,2)
    by (simp add: act_Inr [of "io_of (rdy_for_writing (cl_clientFD c) (ls_fd s))", OF rdy] modify_def act_Inr [of ?mk, OF assms(5)]
        act_Inr [of "send_response (cl_clientFD c) h", OF assms(6)] split del: if_split)
qed

lemma send_response_part:
  assumes "j < length resp" "os_count os (t @ [Sys_Write fd (drop j resp)]) = int m" "0 < m" "m \<le> length resp - j"
  shows "send_response fd (cl_handler (answer_out resp j c)) os t
    = (Ret (if j + m < length resp then cl_handler (answer_out resp (j + m) c) else reset_handler (cl_handler (answer_out resp j c))),
       t @ [Sys_Write fd (drop j resp)])"
proof (cases "j + m < length resp")
  case True
  then have "int j + int m \<noteq> int (length resp)" by linarith
  with True assms show ?thesis by (simp add: send_response_def io_simps answer_out_def Let_def)
next
  case False
  with assms have "int j + int m = int (length resp)" by linarith
  with False assms show ?thesis by (simp add: send_response_def io_simps answer_out_def Let_def)
qed

text \<open>After the last byte the file is closed and the client waits for its next request.\<close>

lemma response_update:
  assumes "waits_for cfg {} {cl_clientFD c} f" "cl_cgi_inputFD c = -1" "valid_fd (cl_clientFD c)"
  shows "\<exists>f'. send_response_update c f os t = (Ret (c\<lparr>cl_cgi_inputFD := -1, cl_fileFD := -1\<rparr>, f'), t @ [Sys_Close (cl_fileFD c)])
    \<and> (cl_clientFD c \<noteq> sv_tcp_socket cfg \<longrightarrow> waits_for cfg {cl_clientFD c} {} f')"
  using assms by (auto simp: send_response_update_def io_simps clr_from_write_buffer_def set_read_buffer_def
      checked_def waits_for_def)

lemma send_part_round:
  assumes s: "ready cfg c None {} {cl_clientFD c} s" and site: "site os cfg (cl_clientFD c) (cl_fileFD c) t"
    and cgi: "cl_cgi_inputFD c = -1"
    and h: "(if hh_bytes_written (cl_handler c) = 0 then create_response (cl_fileFD c) (sv_server_name cfg) (cl_handler c)
       else io_return (cl_handler c)) os t = (Ret (cl_handler (answer_out resp j c)), t1)"
    and j: "j < length resp" and m: "os_count os (t1 @ [Sys_Write (cl_clientFD c) (drop j resp)]) = int m"
      "0 < m" "m \<le> length resp - j"
  shows "\<exists>s'. (if j + m < length resp
     then send_part 0 s os t = (Inr Continue, s', t1 @ [Sys_Write (cl_clientFD c) (drop j resp)])
       \<and> left cfg (answer_out resp (j + m) c) None {} {cl_clientFD c} s'
     else send_part 0 s os t = (Inr Next, s', t1 @ [Sys_Write (cl_clientFD c) (drop j resp), Sys_Close (cl_fileFD c)])
       \<and> left cfg (released c) None {cl_clientFD c} {} s' \<and> \<not> ls_check s')"
proof -
  let ?cfd = "cl_clientFD c" let ?w = "Sys_Write ?cfd (drop j resp)"
  let ?h = "cl_handler (answer_out resp j c)" let ?h' = "cl_handler (answer_out resp (j + m) c)"
  have ne: "?cfd \<noteq> -1" using site by (auto simp: site_def valid_fd_def)
  have name: "sv_server_name (ls_server s) = sv_server_name cfg"
    using s by (auto simp: ready_def left_def lone_def config_of_def)
  have sent: "send_response ?cfd ?h os t1 = (Ret (if j + m < length resp then ?h' else reset_handler ?h), t1 @ [?w])"
    using j m by (rule send_response_part)
  note start = send_part_starts [OF ready_client [OF s] refl _ _ h [folded name]]
  show ?thesis
  proof (cases "j + m < length resp")
    case True
    then have "hh_bytes_written ?h' < hh_response_size ?h'" by (simp add: answer_out_def)
    with True have "send_part 0 s os t = (Inr Continue, set_handler 0 ?h' (set_handler 0 ?h (set_check False s)), t1 @ [?w])"
      using start [OF _ _ sent] site ready_sets [OF s] by (simp add: site_def done_with_def)
    moreover have "left cfg (answer_out resp (j + m) c) None {} {?cfd}
        (set_handler 0 ?h' (set_handler 0 ?h (set_check False s)))"
      using s by (simp add: ready_def left_def lone_def set_handler_def set_client_def client_at_def
          set_check_def answer_out_def config_of_def)
    ultimately show ?thesis using True by simp
  next
    case False
    define s1 where "s1 = set_handler 0 (reset_handler ?h) (set_handler 0 (reset_handler ?h)
      (set_handler 0 ?h (set_check False s)))"
    let ?c1 = "c\<lparr>cl_handler := reset_handler (cl_handler c)\<rparr>"
    define c2 where "c2 = ?c1\<lparr>cl_cgi_inputFD := -1, cl_fileFD := -1\<rparr>"
    have c: "client_at 0 s1 = ?c1"
      using s reset_answer_out [of resp j c] by (simp add: s1_def ready_def left_def lone_def set_handler_def
          set_client_def client_at_def set_check_def)
    have "waits_for cfg {} {cl_clientFD ?c1} (ls_fd s)" "cl_cgi_inputFD ?c1 = -1" "valid_fd (cl_clientFD ?c1)"
      using s site cgi by (simp_all add: ready_def left_def site_def)
    from response_update [OF this, of os "t1 @ [?w]"] site obtain f where
      upd: "send_response_update ?c1 (ls_fd s) os (t1 @ [?w]) = (Ret (c2, f), t1 @ [?w, Sys_Close (cl_fileFD c)])"
        "waits_for cfg {?cfd} {} f" by (auto simp: site_def c2_def)
    define s2 where "s2 = set_clients [c2\<lparr>cl_active := True\<rparr>] (set_fds f (set_client 0 c2 s1))"
    have cs: "sv_clients (ls_server (set_fds f (set_client 0 c2 s1))) = [c2]"
      using s by (simp add: set_fds_def set_client_def s1_def set_handler_def ready_def left_def lone_def
          set_check_def)
    have rot: "update_active_client [c2] ?cfd = Ret [c2\<lparr>cl_active := True\<rparr>]" "cl_clientFD c2 = ?cfd"
      using lone_rotation [of c2] by (simp_all add: c2_def)
    have "send_part 0 s os t = (Inr Next, s2, t1 @ [?w, Sys_Close (cl_fileFD c)])"
      using False start [OF _ _ sent] c upd(1) cs rot site ready_sets [OF s]
      by (simp add: get_def act_def modify_def done_with_def io_simps site_def s1_def s2_def)
    moreover have "left cfg (released c) None {?cfd} {} s2 \<and> \<not> ls_check s2"
      using s upd(2) by (simp add: ready_def left_def lone_def s2_def s1_def c2_def set_handler_def set_client_def
          set_fds_def set_clients_def client_at_def set_check_def released_def config_of_def)
    ultimately show ?thesis using False by simp
  qed
qed


definition leaving ::
  "os \<Rightarrow> server \<Rightarrow> client \<Rightarrow> string list \<Rightarrow> string \<Rightarrow> string \<Rightarrow>
     nat \<Rightarrow> client \<Rightarrow> request_buf option \<Rightarrow> int set \<Rightarrow> int set \<Rightarrow> history \<Rightarrow> bool" where
  "leaving os cfg c2 pending resp w n c buf R W t \<longleftrightarrow>
     site os cfg (cl_clientFD c2) (cl_fileFD c2) t \<and> cl_active c2 \<and> cl_cgi_inputFD c2 = -1 \<and> sound_write os
     \<and> arrives os (cl_clientFD c2) t pending \<and> buf = None \<and>
     (if n = 0 then c = released c2 \<and> R = {cl_clientFD c2} \<and> W = {} \<and> sent_to (cl_clientFD c2) os t = w @ resp
      else R = {} \<and> W = {cl_clientFD c2} \<and> (\<exists>j. 0 < j \<and> j < length resp \<and> n = length resp - j
        \<and> c = answer_out resp j c2 \<and> sent_to (cl_clientFD c2) os t = w @ take j resp))"

text \<open>One round of sending, for the first one, which builds the answer, and for the others.\<close>

lemma leaving_round:
  assumes s: "ready cfg c None {} {cl_clientFD c2} s"
    and c: "cl_clientFD c = cl_clientFD c2" "cl_fileFD c = cl_fileFD c2" "cl_cgi_inputFD c = cl_cgi_inputFD c2" "cl_active c"
      "released c = released c2" "\<And>j. answer_out resp j c = answer_out resp j c2"
    and site: "site os cfg (cl_clientFD c2) (cl_fileFD c2) t" "cl_active c2" "cl_cgi_inputFD c2 = -1" "sound_write os"
    and h: "(if hh_bytes_written (cl_handler c) = 0 then create_response (cl_fileFD c) (sv_server_name cfg) (cl_handler c)
       else io_return (cl_handler c)) os t = (Ret (cl_handler (answer_out resp j c)), t1)" "t1 = t @ u"
    and came: "arrives os (cl_clientFD c2) t1 pending" and j: "j < length resp" and w: "sent_to (cl_clientFD c2) os t1 = w @ take j resp"
  shows "\<exists>x s' t' c' buf' R' W'. try_block 0 s os t = (Inr x, s', t') \<and> left cfg c' buf' R' W' s'
    \<and> (\<exists>m<length resp - j. leaving os cfg c2 pending resp w m c' buf' R' W' t')"
proof -
  let ?fd = "cl_clientFD c2" let ?w = "Sys_Write ?fd (drop j resp)"
  from site(4) j have m: "1 \<le> os_count os (t1 @ [?w])" "os_count os (t1 @ [?w]) \<le> int (length (drop j resp))"
    unfolding sound_write_def by (metis drop_eq_Nil leD)+
  define m where "m = nat (os_count os (t1 @ [?w]))"
  have mm: "os_count os (t1 @ [?w]) = int m" "0 < m" "m \<le> length resp - j" using m j by (auto simp: m_def)
  have sent: "sent_to ?fd os (t1 @ [?w]) = w @ take (j + m) resp"
    using w mm by (simp add: sent_to_snoc taken_def take_add)
  obtain b where tb: "try_block 0 s os t = seq_steps (read_part 0) (seq_steps (file_part 0)
      (seq_steps (send_part 0) (time_out_part 0))) (set_check b s) os t"
    using try_block_active c(4) ready_client [OF s] by metis
  have s1: "ready cfg c None {} {cl_clientFD c} (set_check b s)" using s c(1) by simp
  have tb: "try_block 0 s os t = seq_steps (send_part 0) (time_out_part 0) (set_check b s) os t"
    using site(1) c ready_client [OF s1] ready_sets [OF s1]
    by (simp add: tb read_part_idle file_part_idle site_def)
  have "site os cfg (cl_clientFD c) (cl_fileFD c) t" "cl_cgi_inputFD c = -1" using site c by simp_all
  from send_part_round [OF s1 this h(1) j, unfolded c(1,2), OF mm] obtain s2 where
    s2: "if j + m < length resp
      then send_part 0 (set_check b s) os t = (Inr Continue, s2, t1 @ [?w]) \<and> left cfg (answer_out resp (j + m) c) None {} {?fd} s2
      else send_part 0 (set_check b s) os t = (Inr Next, s2, t1 @ [?w, Sys_Close (cl_fileFD c2)])
        \<and> left cfg (released c) None {?fd} {} s2 \<and> \<not> ls_check s2" by blast
  show ?thesis
  proof (cases "j + m < length resp")
    case True
    then have "leaving os cfg c2 pending resp w (length resp - (j + m)) (answer_out resp (j + m) c2) None {} {?fd} (t1 @ [?w])"
      using arrives_later [OF came, of "[?w]"] site site_later [OF site(1)] h(2) sent mm by (auto simp: leaving_def intro!: exI [of _ "j + m"])
    moreover have "length resp - (j + m) < length resp - j" using True mm by simp
    moreover have "try_block 0 s os t = (Inr Continue, s2, t1 @ [?w])" using s2 True by (simp add: tb)
    moreover have "left cfg (answer_out resp (j + m) c2) None {} {?fd} s2" using s2 True c(6) by simp
    ultimately show ?thesis by blast
  next
    case False
    have "sent_to ?fd os (t1 @ [?w, Sys_Close (cl_fileFD c2)]) = w @ resp"
      using False sent sent_to_no_write [of "[Sys_Close (cl_fileFD c2)]" ?fd os "t1 @ [?w]"] by simp
    then have "leaving os cfg c2 pending resp w 0 (released c2) None {?fd} {} (t1 @ [?w, Sys_Close (cl_fileFD c2)])"
      using arrives_later [OF came, of "[?w, Sys_Close (cl_fileFD c2)]"] site site_later [OF site(1)] h(2)
      by (simp add: leaving_def)
    moreover have "try_block 0 s os t = (Inr Next, s2, t1 @ [?w, Sys_Close (cl_fileFD c2)])"
      using s2 False by (simp add: tb time_out_part_idle)
    moreover have "left cfg (released c2) None {?fd} {} s2" using s2 False c(5) by simp
    moreover have "0 < length resp - j" using j by simp
    ultimately show ?thesis by blast
  qed
qed

lemma released_answer_out [simp]: "released (answer_out resp j c) = released c"
  by (simp add: released_def reset_answer_out) (simp add: answer_out_def)

lemma answer_out_twice [simp]: "answer_out resp i (answer_out resp j c) = answer_out resp i c"
  by (simp add: answer_out_def)

lemma answer_out_fields [simp]:
  "cl_clientFD (answer_out resp j c) = cl_clientFD c" "cl_fileFD (answer_out resp j c) = cl_fileFD c"
  "cl_cgi_inputFD (answer_out resp j c) = cl_cgi_inputFD c" "cl_active (answer_out resp j c) = cl_active c"
  "hh_bytes_written (cl_handler (answer_out resp j c)) = int j"
  by (simp_all add: answer_out_def)

lemma leaving_falls:
  assumes P: "leaving os cfg c2 pending resp w (Suc n) c buf R W t" and s: "ready cfg c buf R W s"
  shows "\<exists>x s' t' c' buf' R' W'. try_block 0 s os (t @ [Sys_Select k r w']) = (Inr x, s', t')
    \<and> left cfg c' buf' R' W' s' \<and> (\<exists>m\<le>n. leaving os cfg c2 pending resp w m c' buf' R' W' t')"
proof -
  let ?t = "t @ [Sys_Select k r w']"
  from P obtain j where j: "0 < j" "j < length resp" "Suc n = length resp - j" "c = answer_out resp j c2"
    "sent_to (cl_clientFD c2) os t = w @ take j resp" by (auto simp: leaving_def)
  from P have st: "buf = None" "R = {}" "W = {cl_clientFD c2}" and a: "cl_active c2" "cl_cgi_inputFD c2 = -1"
    and site: "site os cfg (cl_clientFD c2) (cl_fileFD c2) t" "sound_write os"
    and came: "arrives os (cl_clientFD c2) t pending" by (auto simp: leaving_def)
  have "sent_to (cl_clientFD c2) os ?t = w @ take j resp" using j(5) sent_to_no_write [of "[Sys_Select k r w']"] by simp
  moreover have "(if hh_bytes_written (cl_handler c) = 0 then create_response (cl_fileFD c) (sv_server_name cfg) (cl_handler c)
       else io_return (cl_handler c)) os ?t = (Ret (cl_handler (answer_out resp j c)), ?t)"
    using j(1,4) by (simp add: io_simps)
  ultimately have "\<exists>x s' t' c' buf' R' W'. try_block 0 s os ?t = (Inr x, s', t') \<and> left cfg c' buf' R' W' s'
    \<and> (\<exists>m<length resp - j. leaving os cfg c2 pending resp w m c' buf' R' W' t')"
    using s st a site site_later [OF site(1)] arrives_later [OF came, of "[Sys_Select k r w']"] j(2,4) by (intro leaving_round [where c = c and u = "[]"]) simp_all
  with j(3) show ?thesis by (metis less_Suc_eq_le)
qed

interpretation departure: phase os cfg "leaving os cfg c2 pending resp w" for os cfg c2 pending resp w
proof
  show "leaving os cfg c2 pending resp w n c buf R W t \<Longrightarrow> obliging os (sv_tcp_socket cfg) t" for n c buf R W t
    by (simp add: leaving_def site_def)
qed (rule leaving_falls)


definition body_of :: "header_handler \<Rightarrow> string" where
  "body_of h = (if hh_method h = ''HEAD'' then [] else hh_response_file h)"

text \<open>The answer is no longer than an \<^verbatim>\<open>int\<close> can count.\<close>

definition answer_fits :: "os \<Rightarrow> string \<Rightarrow> header_handler \<Rightarrow> bool" where
  "answer_fits os name h \<longleftrightarrow> (\<forall>t1 t2 r. response_head (os_text os t1) (os_text os t2) name h = Ret r \<longrightarrow>
     length r + length (hh_response_file h) < 2147483648)"

lemma response_head_returns:
  assumes "\<not> has_location h"
  shows "\<exists>r. response_head date modified name h = Ret r \<and> r \<noteq> []"
  using assms by (simp add: response_head_def Let_def close_header_section_def)

lemma create_response_whole:
  assumes "hh_response h = []" "hh_bytes_written h = 0" "\<not> has_location h" "answer_fits os name h"
  shows "\<exists>r. response_head (os_text os (t @ [Sys_Date])) (os_text os (t @ [Sys_Date, Sys_Fstat fd])) name h = Ret r
    \<and> r \<noteq> [] \<and> create_response fd name h os t
      = (Ret (h\<lparr>hh_response := r @ body_of h, hh_response_size := int (length (r @ body_of h)), hh_bytes_written := 0\<rparr>),
         t @ [Sys_Date, Sys_Fstat fd])"
proof -
  let ?d = "os_text os (t @ [Sys_Date])" and ?m = "os_text os (t @ [Sys_Date, Sys_Fstat fd])"
  obtain r where r: "response_head ?d ?m name h = Ret r" "r \<noteq> []" using response_head_returns [OF assms(3)] by blast
  with assms(4) have "length r + length (hh_response_file h) < 2147483648" unfolding answer_fits_def by blast
  then have w: "wrap32 (int (length (r @ body_of h))) = int (length (r @ body_of h))"
    by (intro wrap32_id) (auto simp: int32_def body_of_def)
  have "hh_status h \<noteq> 301" "hh_status h \<noteq> 307" using assms(3) by (auto simp: has_location_def)
  then have "create_response fd name h os t = (Ret (h\<lparr>hh_response := r @ body_of h,
      hh_response_size := wrap32 (int (length (r @ body_of h)))\<rparr>), t @ [Sys_Date, Sys_Fstat fd])"
    using r(1) assms(1) by (simp add: create_response_def io_simps body_of_def Let_def)
  moreover have "h\<lparr>hh_response := x, hh_response_size := y\<rparr>
      = h\<lparr>hh_response := x, hh_response_size := y, hh_bytes_written := 0\<rparr>" for x y
    using assms(2) by (cases h) simp
  ultimately show ?thesis using r unfolding w by metis
qed

lemma first_departure:
  assumes s: "serves cfg c None {} {cl_clientFD c} ws" and site: "site os cfg (cl_clientFD c) (cl_fileFD c) t"
    "cl_active c" "cl_cgi_inputFD c = -1" "sound_write os" and came: "arrives os (cl_clientFD c) t pending"
    and h: "hh_response (cl_handler c) = []" "hh_bytes_written (cl_handler c) = 0" "\<not> has_location (cl_handler c)"
      "answer_fits os (sv_server_name cfg) (cl_handler c)"
  shows "\<exists>ws' t' date modified r. rounds os ws t ws' t' \<and> serves cfg (released c) None {cl_clientFD c} {} ws'
    \<and> response_head date modified (sv_server_name cfg) (cl_handler c) = Ret r
    \<and> sent_to (cl_clientFD c) os t' = sent_to (cl_clientFD c) os t @ r @ body_of (cl_handler c)
    \<and> obliging os (sv_tcp_socket cfg) t' \<and> arrives os (cl_clientFD c) t' pending"
proof -
  let ?w = "sent_to (cl_clientFD c) os t" let ?head = "\<lambda>d m. response_head d m (sv_server_name cfg) (cl_handler c)"
  define Q where "Q = (\<lambda>c' buf' R' W' t'. \<exists>r d m n. ?head d m = Ret r
    \<and> leaving os cfg c pending (r @ body_of (cl_handler c)) ?w n c' buf' R' W' t')"
  have "obliging os (sv_tcp_socket cfg) t" using site(1) by (simp add: site_def)
  moreover have "\<exists>x s' t' c' buf' R' W'. try_block 0 s os (t @ [Sys_Select n r w]) = (Inr x, s', t')
      \<and> left cfg c' buf' R' W' s' \<and> Q c' buf' R' W' t'" if rd: "ready cfg c None {} {cl_clientFD c} s" for s n r w
  proof -
    let ?t = "t @ [Sys_Select n r w]" let ?t1 = "?t @ [Sys_Date, Sys_Fstat (cl_fileFD c)]"
    from create_response_whole [OF h, of ?t "cl_fileFD c"] obtain q where
      q: "?head (os_text os (?t @ [Sys_Date])) (os_text os ?t1) = Ret q" "q \<noteq> []"
      and cr: "create_response (cl_fileFD c) (sv_server_name cfg) (cl_handler c) os ?t
        = (Ret (cl_handler (answer_out (q @ body_of (cl_handler c)) 0 c)), ?t1)"
      by (auto simp: answer_out_def)
    have came1: "arrives os (cl_clientFD c) ?t1 pending"
      using arrives_later [OF came, of "[Sys_Select n r w, Sys_Date, Sys_Fstat (cl_fileFD c)]"] by simp
    have "sent_to (cl_clientFD c) os ?t1 = ?w @ take 0 (q @ body_of (cl_handler c))"
      using sent_to_no_write [of "[Sys_Select n r w, Sys_Date, Sys_Fstat (cl_fileFD c)]"] by simp
    from leaving_round [OF rd refl refl refl site(2) refl refl site_later [OF site(1)] site(2-) _ refl came1 _ this] cr q(2) h(2)
    show ?thesis using q(1) unfolding Q_def by fastforce
  qed
  ultimately obtain ws1 t1 c1 buf1 R1 W1 where r1: "run_round ws os t = (Ret ws1, t1)"
    and s1: "serves cfg c1 buf1 R1 W1 ws1" and Q: "Q c1 buf1 R1 W1 t1"
    using lone_round [OF s, where Q = Q] by blast
  from Q obtain r d m n where hd: "?head d m = Ret r"
    and P: "leaving os cfg c pending (r @ body_of (cl_handler c)) ?w n c1 buf1 R1 W1 t1" unfolding Q_def by blast
  from departure.ends [OF P s1] obtain ws2 t2 c2 buf2 R2 W2 where r2: "rounds os ws1 t1 ws2 t2"
    and s2: "serves cfg c2 buf2 R2 W2 ws2" and P2: "leaving os cfg c pending (r @ body_of (cl_handler c)) ?w 0 c2 buf2 R2 W2 t2"
    by blast
  have "rounds os ws t ws2 t2" using rounds_first [OF r2 r1] .
  moreover from P2 have "serves cfg (released c) None {cl_clientFD c} {} ws2"
    "sent_to (cl_clientFD c) os t2 = ?w @ r @ body_of (cl_handler c)"
    "obliging os (sv_tcp_socket cfg) t2" "arrives os (cl_clientFD c) t2 pending" using s2 by (auto simp: leaving_def site_def)
  ultimately show ?thesis using hd by blast
qed

end
