(* ===== verification/Delivery.thy ===== *)
theory Delivery
  imports AnswerPhases
begin

text \<open>
  From the first byte of a request to the last byte of its answer: what handling a request leaves
  alone, the requests without a body, the three phases of theory \<open>AnswerPhases\<close> put together for one request, and
  any number of requests one after the other.
\<close>

section \<open>What handling a request leaves alone\<close>

text \<open>The handler without what the resolution of a request changes.\<close>

definition untouched :: "header_handler \<Rightarrow> header_handler" where
  "untouched h = h\<lparr>hh_status := 0, hh_max_file_size := 0, hh_allow := [], hh_location_block_root := [],
     hh_location_index := 0, hh_file_location := [], hh_auth_basic := []\<rparr>"

lemma untouched_updates [simp]:
  "untouched (h\<lparr>hh_status := a\<rparr>) = untouched h" "untouched (h\<lparr>hh_allow := b\<rparr>) = untouched h"
  "untouched (h\<lparr>hh_file_location := p\<rparr>) = untouched h" "untouched (h\<lparr>hh_location_index := i\<rparr>) = untouched h"
  "untouched (h\<lparr>hh_auth_basic := q\<rparr>) = untouched h"
  "untouched (take_settings i block h) = untouched h" "untouched (verify_method h) = untouched h"
  by (simp_all add: untouched_def take_settings_def verify_method_def)

lemma match_blocks_untouched:
  "match_blocks fs ext ref uri i blocks h = Ret (result, h') \<Longrightarrow> untouched h' = untouched h"
proof (induction fs ext ref uri i blocks h rule: match_blocks.induct)
  case (2 fs ext ref uri i block blocks h)
  let ?h = "take_settings i block h"
  show ?case
  proof (cases "hh_uri_location h = loc_context block \<and> loc_return block \<noteq> []")
    case True
    with 2(2) show ?thesis by auto
  next
    case False
    with 2(2) obtain r where r: "try_location fs ?h block ext ref uri = Ret r"
      "(if r \<noteq> ''not found'' then Ret (r, ?h)
        else match_blocks fs ext ref uri (i + 1) blocks ?h) = Ret (result, h')"
      unfolding match_blocks.simps(2) Let_def if_not_P [OF False] rbind_eq_Inr by metis
    with 2(1) [OF False refl r(1)] show ?thesis by (cases "r = ''not found''") auto
  qed
qed auto

lemma verify_file_location_untouched:
  assumes "verify_file_location fs blocks err h = Ret h'"
  shows "untouched h' = untouched h"
proof -
  from assms obtain result h1 where
    m: "match_location_block fs blocks (hh_uri_location h) h = Ret (result, h1)"
    and r: "(if result = ''not found''
        then rbind (generate_error_page_location h1 err) (\<lambda>l.
          Ret (h1\<lparr>hh_file_location := remove_duplicate_forward_slashes l, hh_location_index := -1\<rparr>))
        else if result = ''http redirect'' then Ret h1
        else Ret (h1\<lparr>hh_file_location := remove_duplicate_forward_slashes result\<rparr>)) = Ret h'"
    unfolding verify_file_location_def rbind_eq_Inr by auto
  from m have "untouched h1 = untouched h"
    by (auto simp: match_location_block_def rbind_eq_Inr dest: match_blocks_untouched)
  moreover from r have "untouched h' = untouched h1" by (auto simp: rbind_eq_Inr split: if_splits)
  ultimately show ?thesis by simp
qed

lemma verify_authorization_untouched:
  "verify_authorization b h a = Ret (h', a') \<Longrightarrow> untouched h' = untouched h"
  by (auto simp: verify_authorization_def rbind_eq_Inr split: if_splits)

lemma authorise_untouched: "authorise bs h a = Ret (h', a') \<Longrightarrow> untouched h' = untouched h"
  by (auto simp: authorise_def dest: verify_authorization_untouched split: if_splits)

lemma decide_untouched: "decide fs blocks err h a = Ret (h', a') \<Longrightarrow> untouched h' = untouched h"
  by (auto simp: decide_def rbind_eq_Inr dest!: verify_file_location_untouched authorise_untouched)

lemma serve_untouched:
  "serve cgi h os t = (Ret (done, fd, h'), t') \<Longrightarrow> untouched h' = untouched h"
  by (auto simp: serve_def put_request_def post_request_def remove_file_def io_bind_Ret io_base Let_def
      split: if_splits option.splits)

lemma finish_untouched:
  "finish_request err fd h os t = (Ret (fd', h'), t') \<Longrightarrow> untouched h' = untouched h"
  by (auto simp: finish_request_def io_bind_Ret io_base split: if_splits)

lemma handle_request_untouched:
  "handle_request cgi blocks err h a os t = (Ret (fd, h', a'), t') \<Longrightarrow> untouched h' = untouched h"
  by (auto simp: handle_request_def io_bind_Ret io_base dest!: decide_untouched serve_untouched finish_untouched
      split: if_splits)

lemma untouched_fields:
  assumes "untouched h' = untouched h"
  shows "hh_method h' = hh_method h" "hh_response h' = hh_response h" "hh_bytes_written h' = hh_bytes_written h"
    "hh_bytes_read h' = hh_bytes_read h" "hh_response_file h' = hh_response_file h"
    "hh_read_from_file h' = hh_read_from_file h" "hh_protocol h' = hh_protocol h"
    "hh_status_phrases h' = hh_status_phrases h"
proof -
  note f = assms [unfolded untouched_def]
  show "hh_method h' = hh_method h" using arg_cong [OF f, of hh_method] by simp
  show "hh_response h' = hh_response h" using arg_cong [OF f, of hh_response] by simp
  show "hh_bytes_written h' = hh_bytes_written h" using arg_cong [OF f, of hh_bytes_written] by simp
  show "hh_bytes_read h' = hh_bytes_read h" using arg_cong [OF f, of hh_bytes_read] by simp
  show "hh_response_file h' = hh_response_file h" using arg_cong [OF f, of hh_response_file] by simp
  show "hh_read_from_file h' = hh_read_from_file h" using arg_cong [OF f, of hh_read_from_file] by simp
  show "hh_protocol h' = hh_protocol h" using arg_cong [OF f, of hh_protocol] by simp
  show "hh_status_phrases h' = hh_status_phrases h" using arg_cong [OF f, of hh_status_phrases] by simp
qed


section \<open>Requests without a body\<close>

text \<open>
  A request line and headers of one line each, none of them announcing a body, and the handler
  \<open>parse_request\<close> makes of them.
\<close>

definition plain_request :: "string \<Rightarrow> string \<Rightarrow> string \<Rightarrow> (request_value \<times> string) list \<Rightarrow> bool" where
  "plain_request m u p hs \<longleftrightarrow> plain_text (m @ u @ p) \<and> m \<noteq> [] \<and> SP \<notin> set (m @ u) \<and> CHR ''?'' \<notin> set (u @ p)
     \<and> plain_header (m @ SP # u @ SP # p) \<and> (\<forall>(k, v)\<in>set hs. plain_header v \<and> plain_text v)
     \<and> R_content_length \<notin> fst ` set hs \<and> \<not> contains (request_text (m @ SP # u @ SP # p) hs) ''chunked''"

definition parsed_request ::
  "string \<Rightarrow> string \<Rightarrow> string \<Rightarrow> (request_value \<times> string) list \<Rightarrow> header_handler \<Rightarrow> header_handler" where
  "parsed_request m u p hs h =
     set_headers hs ((reset_handler h)\<lparr>hh_method := m, hh_uri_location := u, hh_protocol := p\<rparr>)"

lemma join_lines: "join CRLF (ls @ [[], []]) = concat (map (\<lambda>l. l @ CRLF) ls) @ CRLF"
proof (induction ls)
  case (Cons l ls)
  have "join CRLF (l # ls @ [[], []]) = l @ CRLF @ join CRLF (ls @ [[], []])" by (cases ls) simp_all
  with Cons show ?case by simp
qed simp

lemma contains_CRLF:
  assumes "CR \<notin> set key" "LF \<notin> set key" "key \<noteq> []"
  shows "contains (xs @ CRLF @ ys) key \<longleftrightarrow> contains xs key \<or> contains ys key"
  using assms contains_sep [of CR key xs "LF # ys"] contains_sep [of LF key "[]" ys]
  by (simp add: contains_find)

lemma contains_lines:
  assumes "CR \<notin> set key" "LF \<notin> set key" "key \<noteq> []"
  shows "contains (concat (map (\<lambda>l. l @ CRLF) ls) @ CRLF) key \<longleftrightarrow> (\<exists>l\<in>set ls. contains l key)"
proof (induction ls)
  case Nil
  show ?case using contains_CRLF [OF assms, of "[]" "[]"] assms(3) by (simp add: contains_find)
next
  case (Cons l ls)
  then show ?case using contains_CRLF [OF assms, of l "concat (map (\<lambda>l. l @ CRLF) ls) @ CRLF"] by simp
qed

lemma header_text_line:
  assumes "plain_header v" "plain_text v"
  shows "header_line (header_text (k, v))" and "contains (header_text (k, v)) ''Content-Length:'' \<longleftrightarrow> k = R_content_length"
proof -
  show "header_line (header_text (k, v))"
    using assms(2) by (cases k) (auto simp: header_line_def header_text_def plain_text_def)
  have "contains (header_text (k, v)) ''Content-Length:'' \<longleftrightarrow> contains (header_name k) ''Content-Length:''"
    unfolding header_text_def fst_conv snd_conv by (rule contains_header [OF assms(1)]) (simp add: request_keys_def)
  also have "\<dots> \<longleftrightarrow> k = R_content_length" by (cases k) (simp_all add: contains_find)
  finally show "contains (header_text (k, v)) ''Content-Length:'' \<longleftrightarrow> k = R_content_length" .
qed

lemma plain_request_ends:
  assumes "plain_request m u p hs"
  shows "request_ends (request_text (m @ SP # u @ SP # p) hs)"
proof -
  let ?l = "m @ SP # u @ SP # p" let ?ls = "?l # map header_text hs"
  let ?k = "concat (map (\<lambda>l. l @ CRLF) ?ls)"
  from assms have hs: "\<forall>(k, v)\<in>set hs. plain_header v \<and> plain_text v" "R_content_length \<notin> fst ` set hs"
    and l: "header_line ?l" "\<not> contains ?l ''Content-Length:''"
    by (auto simp: plain_request_def plain_text_def header_line_def plain_header_def request_keys_def)
  have whole: "request_text ?l hs = ?k @ CRLF" using join_lines [of ?ls] by (simp add: request_text_def)
  from hs(1) l(1) have "\<forall>l\<in>set ?ls. header_line l" by (auto intro: header_text_line)
  then have k: "is_head ?k" unfolding is_head_def by blast
  have key: "CR \<notin> set ''Content-Length:''" "LF \<notin> set ''Content-Length:''" "''Content-Length:'' \<noteq> []" by simp_all
  have "\<not> contains (header_text kv) ''Content-Length:''" if "kv \<in> set hs" for kv
  proof -
    obtain a b where "kv = (a, b)" by (cases kv)
    with that hs header_text_line(2) [of b a] show ?thesis by force
  qed
  with l(2) have "\<not> contains (request_text ?l hs) ''Content-Length:''"
    unfolding whole contains_lines [OF key] by auto
  moreover have "find_sub_idx CRLF2 (request_text ?l hs) \<noteq> None" "header_end (request_text ?l hs) = length (request_text ?l hs)"
    using head_end [OF k, of "[]"] head_end_length [OF k, of "[]"] unfolding whole by simp_all
  ultimately show ?thesis using assms by (simp add: request_ends_def plain_request_def)
qed

lemma set_header_fields:
  "hh_method (set_header k v h) = hh_method h" "hh_response (set_header k v h) = hh_response h"
  "hh_bytes_written (set_header k v h) = hh_bytes_written h" "hh_bytes_read (set_header k v h) = hh_bytes_read h"
  "hh_response_file (set_header k v h) = hh_response_file h" "hh_read_from_file (set_header k v h) = hh_read_from_file h"
  "hh_protocol (set_header k v h) = hh_protocol h" "hh_status_phrases (set_header k v h) = hh_status_phrases h"
  "hh_status (set_header k v h) = hh_status h"
  "k \<noteq> R_content_length \<Longrightarrow> hh_content_length (set_header k v h) = hh_content_length h"
  by (cases k; simp)+

lemma set_headers_field:
  assumes "\<And>k v h. k \<in> fst ` set hs \<Longrightarrow> f (set_header k v h) = f h"
  shows "f (set_headers hs h) = f h"
  using assms
proof (induction hs arbitrary: h)
  case (Cons x hs)
  then show ?case by (cases x) (simp add: set_headers_def)
qed (simp add: set_headers_def)

lemma parsed_request_fields:
  "hh_method (parsed_request m u p hs h) = m" "hh_response (parsed_request m u p hs h) = []"
  "hh_bytes_written (parsed_request m u p hs h) = 0" "hh_bytes_read (parsed_request m u p hs h) = hh_bytes_read h"
  "hh_response_file (parsed_request m u p hs h) = []" "\<not> hh_read_from_file (parsed_request m u p hs h)"
  "hh_protocol (parsed_request m u p hs h) = p" "hh_status_phrases (parsed_request m u p hs h) = hh_status_phrases h"
  "hh_status (parsed_request m u p hs h) = 200"
  by (simp_all add: parsed_request_def set_headers_field set_header_fields reset_handler_def)

lemma reset_set_headers: "reset_handler (set_headers hs h) = reset_handler h"
proof (rule set_headers_field)
  show "reset_handler (set_header k v h) = reset_handler h" for k v h
    by (cases k) (simp_all add: reset_handler_def)
qed

lemma reset_untouched: "untouched h' = untouched h \<Longrightarrow> reset_handler h' = reset_handler h"
proof -
  have "reset_handler h = reset_handler (untouched h)" for h by (simp add: reset_handler_def untouched_def)
  then show "untouched h' = untouched h \<Longrightarrow> ?thesis" by metis
qed

text \<open>A handler that handled a request does so for the next one as it did for the first.\<close>

lemma parsed_request_again:
  assumes "untouched h' = untouched (parsed_request m u p hs h)"
  shows "parsed_request m' u' p' hs' (reset_handler h') = parsed_request m' u' p' hs' h"
proof -
  have "reset_handler h' = reset_handler h"
    using reset_untouched [OF assms] by (simp add: parsed_request_def reset_set_headers) (simp add: reset_handler_def)
  then show ?thesis by (simp add: parsed_request_def) (simp add: reset_handler_def)
qed

lemma parse_plain_request:
  assumes "plain_request m u p hs" "holds (request_text (m @ SP # u @ SP # p) hs) r"
  shows "parse_request r h = Ret (parsed_request m u p hs h)"
proof -
  let ?l = "m @ SP # u @ SP # p" let ?q = "request_text ?l hs" let ?h = "parsed_request m u p hs h"
  from plain_request_ends [OF assms(1)] assms(2) have r: "rb_headers r = ?q" "concat (rb_body r) = []"
    by (simp_all add: request_ends_def holds_def)
  from assms(1) have ok: "?l \<noteq> []" "CR \<notin> set ?l" "plain_header ?l" "header_values_ok hs"
    and line: "SP \<notin> set m" "take 1 m \<noteq> [LF]" "SP \<notin> set u" "CHR ''?'' \<notin> set (u @ p)"
    by (auto simp: plain_request_def header_values_ok_def plain_text_def) (cases m; simp)+
  have "parse_request r h = parse_body r ?h"
    unfolding parsed_request_def by (rule parse_request_text [OF r(1) ok parse_first_line_text [OF line]])
  moreover have n: "R_content_length \<notin> fst ` set hs" using assms(1) unfolding plain_request_def by blast
  have "hh_content_length (set_headers hs g) = hh_content_length g" for g
    using n by (intro set_headers_field set_header_fields(10)) blast
  then have "hh_content_length ?h = 0" by (simp add: parsed_request_def reset_handler_def)
  moreover have "chunk_round [] 0 = Ret None"
    by (simp add: chunk_round_def Let_def pos_of_int_def find_sub_def wrap32_def)
  ultimately show ?thesis using r(2) by (simp add: parse_body_def numeral_2_eq_2)
qed


section \<open>From the first byte to the last\<close>

text \<open>A client between two requests.\<close>

definition waiting_client :: "client \<Rightarrow> bool" where
  "waiting_client c \<longleftrightarrow> cl_active c \<and> cl_fileFD c = -1 \<and> cl_cgi_inputFD c = -1 \<and> hh_bytes_read (cl_handler c) = 0"

definition answered_client :: "client \<Rightarrow> header_handler \<Rightarrow> bool \<Rightarrow> client" where
  "answered_client c h auth = c\<lparr>cl_handler := reset_handler h, cl_authorization_status := auth\<rparr>"

lemma request_call_no_write: "request_call m c \<Longrightarrow> no_write c \<and> c \<noteq> Sys_Read fd"
  by (auto simp: request_call_def no_write_def split: syscall.splits)

lemma handle_request_handled:
  assumes "plain_request m u p hs" "h0 = parsed_request m u p hs (cl_handler c)"
    and "\<forall>t. \<exists>v. handle_request (sv_cgi_file_types cfg) (sv_location_blocks cfg) (sv_error_page cfg) h0
      (cl_authorization_status c) os t = (Ret (fd, h, auth), t @ v)"
  shows "request_handled os cfg c (request_text (m @ SP # u @ SP # p) hs) fd h auth"
  unfolding request_handled_def
proof (intro allI impI)
  fix r assume "holds (request_text (m @ SP # u @ SP # p) hs) r"
  from parse_plain_request [OF assms(1) this] have "parse_request r (cl_handler c) = Ret h0" by (simp add: assms(2))
  moreover have "\<exists>v. handle_request (sv_cgi_file_types cfg) (sv_location_blocks cfg) (sv_error_page cfg) h0
      (cl_authorization_status c) os t = (Ret (fd, h, auth), t @ v)
      \<and> (\<forall>x\<in>set v. no_write x \<and> x \<noteq> Sys_Read (cl_clientFD c))" for t
  proof -
    obtain v where v: "handle_request (sv_cgi_file_types cfg) (sv_location_blocks cfg) (sv_error_page cfg) h0
      (cl_authorization_status c) os t = (Ret (fd, h, auth), t @ v)" using assms(3) by blast
    from makesD [OF makes_handle_request v] have "\<forall>x\<in>set v. request_call (hh_method h0) x" by simp
    with v request_call_no_write show ?thesis by blast
  qed
  ultimately show "\<exists>h0. parse_request r (cl_handler c) = Ret h0 \<and> (\<forall>t. \<exists>u. handle_request (sv_cgi_file_types cfg)
       (sv_location_blocks cfg) (sv_error_page cfg) h0 (cl_authorization_status c) os t
         = (Ret (fd, h, auth), t @ u) \<and> (\<forall>x\<in>set u. no_write x \<and> x \<noteq> Sys_Read (cl_clientFD c)))" by blast
qed

lemma response_head_reading:
  "response_head d e name (cl_handler (file_read k b content c))
     = response_head d e name ((cl_handler c)\<lparr>hh_response_file := take k content\<rparr>)"
  by (simp add: response_head_def file_read_def has_location_def verify_content_type_def cong: if_cong)

lemma answered_rounds:
  assumes st: "serves cfg c None {cl_clientFD c} {} ws" "waiting_client c"
    and env: "site os cfg (cl_clientFD c) fd t" "sound_write os" "file_gives os fd content"
    and came: "arrives os (cl_clientFD c) t (ds @ pending)" "pieces ds"
      "concat ds = request_text (m @ SP # u @ SP # p) hs" "plain_request m u p hs" "m \<notin> {''PUT'', ''POST''}"
    and handled: "\<forall>t. \<exists>v. handle_request (sv_cgi_file_types cfg) (sv_location_blocks cfg) (sv_error_page cfg)
      (parsed_request m u p hs (cl_handler c)) (cl_authorization_status c) os t = (Ret (fd, h, auth), t @ v)"
    and h: "\<not> is_cgi (sv_cgi_file_types cfg) h" "hh_status h \<notin> {201, 204, 301, 307}"
      "answer_fits os (sv_server_name cfg) (h\<lparr>hh_response_file := content\<rparr>)"
  shows "\<exists>ws' t' date modified head. rounds os ws t ws' t'
    \<and> serves cfg (answered_client c h auth) None {cl_clientFD c} {} ws'
    \<and> waiting_client (answered_client c h auth)
    \<and> response_head date modified (sv_server_name cfg) (h\<lparr>hh_response_file := content\<rparr>) = Ret head
    \<and> sent_to (cl_clientFD c) os t' = sent_to (cl_clientFD c) os t @ head @ (if m = ''HEAD'' then [] else content)
    \<and> obliging os (sv_tcp_socket cfg) t' \<and> arrives os (cl_clientFD c) t' pending"
proof -
  let ?q = "request_text (m @ SP # u @ SP # p) hs" and ?w = "sent_to (cl_clientFD c) os t"
  let ?h0 = "parsed_request m u p hs (cl_handler c)" and ?c1 = "opened c fd h auth"
  let ?c2 = "file_read (length content) True content ?c1"
  from handled obtain v where "handle_request (sv_cgi_file_types cfg) (sv_location_blocks cfg) (sv_error_page cfg)
      ?h0 (cl_authorization_status c) os t = (Ret (fd, h, auth), t @ v)" by blast
  note f = untouched_fields [OF handle_request_untouched [OF this], unfolded parsed_request_fields]
  have up: "no_upload cfg h" using h(1) came(5) f(1) by (simp add: no_upload_def)
  have ends: "request_ends ?q" using plain_request_ends [OF came(4)] .
  then have "ds \<noteq> []" using came(3) by (auto simp: request_ends_def)
  then have "arriving os cfg c pending ?q fd h auth ?w (length ds) c None {cl_clientFD c} {} t"
    using env st(2) up came(1-3) ends handle_request_handled [OF came(4) refl handled] holds_init
    by (auto simp: arriving_def waiting_client_def intro!: exI [of _ "[]"] exI [of _ ds])
  from arrival.ends [OF this st(1)] obtain ws1 t1 where r1: "rounds os ws t ws1 t1"
    and s1: "serves cfg ?c1 None {fd} {} ws1" and w1: "sent_to (cl_clientFD c) os t1 = ?w"
    and e1: "site os cfg (cl_clientFD c) fd t1" "arrives os (cl_clientFD c) t1 pending" by (auto simp: arriving_def)
  have fields: "cl_clientFD ?c1 = cl_clientFD c" "cl_fileFD ?c1 = fd" "cl_handler ?c1 = h" "cl_active ?c1"
    "cl_cgi_inputFD ?c1 = -1" using st(2) by (simp_all add: opened_def waiting_client_def)
  have fresh: "\<not> hh_read_from_file h" using f(6) parsed_request_fields(6) by simp
  have "h\<lparr>hh_response_file := [], hh_bytes_read := 0, hh_read_from_file := False\<rparr> = h"
    using f(4,5) fresh st(2) by (cases h) (simp add: waiting_client_def)
  then have c1: "file_read 0 False content ?c1 = ?c1"
    using handler_updates [where h = h and a = "[]" and b = 0 and x = False] by (simp add: file_read_def opened_def)
  have "reading os cfg ?c1 pending content ?w (Suc (length content)) ?c1 None {fd} {} t1"
    using env(2,3) e1 up h(2) fresh w1 fields c1 by (auto simp: reading_def reads_on_def intro!: exI [of _ 0])
  from delivery_of_file.ends [OF this s1] obtain ws2 t2 where r2: "rounds os ws1 t1 ws2 t2"
    and s2: "serves cfg ?c2 None {} {cl_clientFD c} ws2" and w2: "sent_to (cl_clientFD c) os t2 = ?w"
    and e2: "site os cfg (cl_clientFD c) fd t2" "arrives os (cl_clientFD c) t2 pending" using fields by (auto simp: reading_def)
  have fields2: "cl_clientFD ?c2 = cl_clientFD c" "cl_fileFD ?c2 = fd" "cl_active ?c2" "cl_cgi_inputFD ?c2 = -1"
    using fields by (simp_all add: file_read_def)
  have h2: "hh_response (cl_handler ?c2) = []" "hh_bytes_written (cl_handler ?c2) = 0"
    "\<not> has_location (cl_handler ?c2)" "answer_fits os (sv_server_name cfg) (cl_handler ?c2)"
    "body_of (cl_handler ?c2) = (if m = ''HEAD'' then [] else content)"
    using f came(5) h(2,3) fields(3) response_head_reading [of _ _ _ "length content" True content ?c1]
    by (auto simp: answer_fits_def has_location_def body_of_def file_read_def)
  from first_departure [of cfg ?c2 ws2 os t2 pending] s2 e2 env(2) fields2 h2(1-4) obtain ws3 t3 date modified head where
    r3: "rounds os ws2 t2 ws3 t3" and s3: "serves cfg (released ?c2) None {cl_clientFD c} {} ws3"
    and hd: "response_head date modified (sv_server_name cfg) (cl_handler ?c2) = Ret head"
    and w3: "sent_to (cl_clientFD c) os t3 = sent_to (cl_clientFD c) os t2 @ head @ body_of (cl_handler ?c2)"
    and e3: "obliging os (sv_tcp_socket cfg) t3" "arrives os (cl_clientFD c) t3 pending" by auto
  have rel: "released ?c2 = answered_client c h auth"
    using st(2) f(4) fields(3) by (simp add: released_def answered_client_def waiting_client_def file_read_def
        opened_def reset_handler_def)
  have "waiting_client (answered_client c h auth)"
    using st(2) f(4) by (simp add: waiting_client_def answered_client_def reset_handler_def)
  moreover have "rounds os ws t ws3 t3" using rounds_trans [OF r3 rounds_trans [OF r2 r1]] .
  moreover have "response_head date modified (sv_server_name cfg) (h\<lparr>hh_response_file := content\<rparr>) = Ret head"
    using hd response_head_reading fields(3) by simp
  ultimately show ?thesis using s3 w2 w3 e3 unfolding rel h2(5) by metis
qed


section \<open>One request after the other\<close>

text \<open>
  A request with the pieces in which it arrives, and what handling it comes to: the file that is opened
  and its content, the handler and the authorisation afterwards.
\<close>

record exchange =
  ex_pieces :: "string list"
  ex_method :: string
  ex_uri :: string
  ex_protocol :: string
  ex_headers :: "(request_value \<times> string) list"
  ex_fd :: int
  ex_content :: string
  ex_handler :: header_handler
  ex_auth :: bool

definition answerable :: "os \<Rightarrow> server \<Rightarrow> int \<Rightarrow> header_handler \<Rightarrow> bool \<Rightarrow> exchange \<Rightarrow> bool" where
  "answerable os cfg cfd h auth x \<longleftrightarrow>
     pieces (ex_pieces x) \<and> concat (ex_pieces x) = request_text (ex_method x @ SP # ex_uri x @ SP # ex_protocol x) (ex_headers x)
     \<and> plain_request (ex_method x) (ex_uri x) (ex_protocol x) (ex_headers x) \<and> ex_method x \<notin> {''PUT'', ''POST''}
     \<and> valid_fd (ex_fd x) \<and> distinct [sv_tcp_socket cfg, cfd, ex_fd x] \<and> file_gives os (ex_fd x) (ex_content x)
     \<and> (\<forall>t. \<exists>v. handle_request (sv_cgi_file_types cfg) (sv_location_blocks cfg) (sv_error_page cfg)
         (parsed_request (ex_method x) (ex_uri x) (ex_protocol x) (ex_headers x) h) auth os t
           = (Ret (ex_fd x, ex_handler x, ex_auth x), t @ v))
     \<and> \<not> is_cgi (sv_cgi_file_types cfg) (ex_handler x) \<and> hh_status (ex_handler x) \<notin> {201, 204, 301, 307}
     \<and> answer_fits os (sv_server_name cfg) ((ex_handler x)\<lparr>hh_response_file := ex_content x\<rparr>)"

text \<open>Each request is handled with the authorisation the one before left.\<close>

fun all_answerable :: "os \<Rightarrow> server \<Rightarrow> int \<Rightarrow> header_handler \<Rightarrow> bool \<Rightarrow> exchange list \<Rightarrow> bool" where
  "all_answerable os cfg cfd h auth [] \<longleftrightarrow> True"
| "all_answerable os cfg cfd h auth (x # xs) \<longleftrightarrow>
     answerable os cfg cfd h auth x \<and> all_answerable os cfg cfd h (ex_auth x) xs"

definition answered_with :: "server \<Rightarrow> exchange \<Rightarrow> string \<Rightarrow> bool" where
  "answered_with cfg x s \<longleftrightarrow> (\<exists>date modified head. response_head date modified (sv_server_name cfg)
       ((ex_handler x)\<lparr>hh_response_file := ex_content x\<rparr>) = Ret head
     \<and> s = head @ (if ex_method x = ''HEAD'' then [] else ex_content x))"

lemma all_answerable_again:
  assumes "\<And>m u p hs. parsed_request m u p hs h' = parsed_request m u p hs h"
  shows "all_answerable os cfg cfd h' auth xs = all_answerable os cfg cfd h auth xs"
  by (induction xs arbitrary: auth) (simp_all add: answerable_def assms)

lemma exchange_rounds:
  assumes "serves cfg c None {cl_clientFD c} {} ws" "waiting_client c" "valid_fd (cl_clientFD c)"
    and "obliging os (sv_tcp_socket cfg) t" "sound_write os" "arrives os (cl_clientFD c) t (ex_pieces x @ pending)"
    and x: "answerable os cfg (cl_clientFD c) (cl_handler c) (cl_authorization_status c) x"
  shows "\<exists>ws' t' c' s. rounds os ws t ws' t' \<and> answered_with cfg x s
    \<and> sent_to (cl_clientFD c) os t' = sent_to (cl_clientFD c) os t @ s
    \<and> obliging os (sv_tcp_socket cfg) t' \<and> arrives os (cl_clientFD c) t' pending
    \<and> serves cfg c' None {cl_clientFD c} {} ws' \<and> waiting_client c' \<and> cl_clientFD c' = cl_clientFD c
    \<and> cl_authorization_status c' = ex_auth x
    \<and> (\<forall>m u p hs. parsed_request m u p hs (cl_handler c') = parsed_request m u p hs (cl_handler c))"
proof -
  let ?h = "ex_handler x" and ?c = "answered_client c (ex_handler x) (ex_auth x)"
  note x = x [unfolded answerable_def]
  have "site os cfg (cl_clientFD c) (ex_fd x) t" using assms(3,4) x by (simp add: site_def)
  then obtain ws' t' date modified head where r: "rounds os ws t ws' t'"
    "serves cfg ?c None {cl_clientFD c} {} ws'" "waiting_client ?c"
    "obliging os (sv_tcp_socket cfg) t'" "arrives os (cl_clientFD c) t' pending"
    and a: "response_head date modified (sv_server_name cfg) (?h\<lparr>hh_response_file := ex_content x\<rparr>) = Ret head"
    "sent_to (cl_clientFD c) os t' = sent_to (cl_clientFD c) os t @ head @ (if ex_method x = ''HEAD'' then [] else ex_content x)"
    using answered_rounds [OF assms(1,2) _ assms(5) _ assms(6), where h = ?h and auth = "ex_auth x" and fd = "ex_fd x"
      and content = "ex_content x" and m = "ex_method x" and u = "ex_uri x" and p = "ex_protocol x" and hs = "ex_headers x"] x
    by blast
  have "answered_with cfg x (head @ (if ex_method x = ''HEAD'' then [] else ex_content x))" using a(1) by (auto simp: answered_with_def)
  moreover from x obtain v where "handle_request (sv_cgi_file_types cfg) (sv_location_blocks cfg) (sv_error_page cfg)
      (parsed_request (ex_method x) (ex_uri x) (ex_protocol x) (ex_headers x) (cl_handler c)) (cl_authorization_status c) os t
      = (Ret (ex_fd x, ?h, ex_auth x), t @ v)" by blast
  then have "parsed_request m u p hs (cl_handler ?c) = parsed_request m u p hs (cl_handler c)" for m u p hs
    using parsed_request_again [OF handle_request_untouched] by (simp add: answered_client_def)
  moreover have "cl_clientFD ?c = cl_clientFD c" "cl_authorization_status ?c = ex_auth x" by (simp_all add: answered_client_def)
  ultimately show ?thesis using r a(2) by metis
qed

lemma exchanges_rounds:
  assumes "serves cfg c None {cl_clientFD c} {} ws" "waiting_client c" "valid_fd (cl_clientFD c)"
    and "obliging os (sv_tcp_socket cfg) t" "sound_write os" "arrives os (cl_clientFD c) t (concat (map ex_pieces xs))"
    and "all_answerable os cfg (cl_clientFD c) (cl_handler c) (cl_authorization_status c) xs"
  shows "\<exists>ws' t' ss. rounds os ws t ws' t' \<and> list_all2 (answered_with cfg) xs ss
    \<and> sent_to (cl_clientFD c) os t' = sent_to (cl_clientFD c) os t @ concat ss"
  using assms
proof (induction xs arbitrary: c ws t)
  case Nil
  then show ?case by (intro exI [of _ ws] exI [of _ t] exI [of _ "[]"]) (simp add: rounds.start)
next
  case (Cons x xs)
  from Cons.prems(6,7) have "arrives os (cl_clientFD c) t (ex_pieces x @ concat (map ex_pieces xs))"
    "answerable os cfg (cl_clientFD c) (cl_handler c) (cl_authorization_status c) x"
    and rest: "all_answerable os cfg (cl_clientFD c) (cl_handler c) (ex_auth x) xs" by simp_all
  from exchange_rounds [OF Cons.prems(1-5) this(1,2)] obtain ws1 t1 c1 s where r: "rounds os ws t ws1 t1"
    "answered_with cfg x s" "sent_to (cl_clientFD c) os t1 = sent_to (cl_clientFD c) os t @ s"
    and o: "obliging os (sv_tcp_socket cfg) t1" "arrives os (cl_clientFD c) t1 (concat (map ex_pieces xs))"
    and s: "serves cfg c1 None {cl_clientFD c} {} ws1" "waiting_client c1" "cl_clientFD c1 = cl_clientFD c"
    and k: "cl_authorization_status c1 = ex_auth x"
      "\<forall>m u p hs. parsed_request m u p hs (cl_handler c1) = parsed_request m u p hs (cl_handler c)" by blast
  from k(2) rest have "all_answerable os cfg (cl_clientFD c) (cl_handler c1) (ex_auth x) xs"
    using all_answerable_again [of "cl_handler c1" "cl_handler c"] by blast
  with Cons.IH [of c1 ws1 t1] Cons.prems(3,5) o s k(1) obtain ws2 t2 ss where
    "rounds os ws1 t1 ws2 t2" "list_all2 (answered_with cfg) xs ss"
    "sent_to (cl_clientFD c) os t2 = sent_to (cl_clientFD c) os t1 @ concat ss" by auto
  with r rounds_trans show ?case by (intro exI [of _ ws2] exI [of _ t2] exI [of _ "s # ss"]) auto
qed

section \<open>A file that is there\<close>

lemma handle_request_opens:
  assumes "decide (os_fs os t) blocks err h0 auth = Ret (h, auth')" "hh_status h = 200"
    and "hh_method h \<notin> {''PUT'', ''POST'', ''DELETE''}" "\<not> is_cgi cgi h"
    and "fs_stat (os_fs os t) (c_str (hh_file_location h)) = Some mode" "mode_has mode S_IRUSR"
    and "os_fd os (t @ [Sys_Open (c_str (hh_file_location h)) O_RDONLY]) = fd" "fd \<noteq> -1"
    and "os_ok os (t @ [Sys_Open (c_str (hh_file_location h)) O_RDONLY, Sys_Fcntl fd])"
  shows "handle_request cgi blocks err h0 auth os t
    = (Ret (fd, h, auth'), t @ [Sys_Open (c_str (hh_file_location h)) O_RDONLY, Sys_Fcntl fd])"
  using assms by (simp add: handle_request_def serve_def finish_request_def open_checked_def set_nonblock_def io_simps)

text \<open>
  A GET request for a file that is there, is readable and may be read: the client gets a head that begins
  with the protocol of the request and \<^verbatim>\<open>200 OK\<close> and announces the length of the file, and then the file.
\<close>

lemma readable_file_served:
  assumes "serves cfg c None {cl_clientFD c} {} ws" "waiting_client c" "hh_status_phrases (cl_handler c) = status_phrases"
    and "site os cfg (cl_clientFD c) fd t" "sound_write os" "file_gives os fd content"
    and "arrives os (cl_clientFD c) t ds" "pieces ds"
    and "concat ds = request_text (''GET'' @ SP # u @ SP # p) hs" "plain_request ''GET'' u p hs"
    and "\<forall>t. decide (os_fs os t) (sv_location_blocks cfg) (sv_error_page cfg)
      (parsed_request ''GET'' u p hs (cl_handler c)) (cl_authorization_status c) = Ret (h, auth)"
    and "hh_status h = 200" "\<not> is_cgi (sv_cgi_file_types cfg) h"
    and "\<forall>t. \<exists>mode. fs_stat (os_fs os t) (c_str (hh_file_location h)) = Some mode \<and> mode_has mode S_IRUSR"
    and "\<forall>t. os_fd os (t @ [Sys_Open (c_str (hh_file_location h)) O_RDONLY]) = fd \<and> os_ok os (t @ [Sys_Fcntl fd])"
    and "answer_fits os (sv_server_name cfg) (h\<lparr>hh_response_file := content\<rparr>)"
  shows "\<exists>ws' t' head. rounds os ws t ws' t'
    \<and> sent_to (cl_clientFD c) os t' = sent_to (cl_clientFD c) os t @ head @ content
    \<and> prefix (p @ '' 200 OK'' @ CRLF) head
    \<and> sublist (''Content-Length: '' @ itoa_str (wrap32 (int (length content))) @ CRLF) head"
proof -
  let ?h0 = "parsed_request ''GET'' u p hs (cl_handler c)"
  have "untouched h = untouched ?h0" using assms(11) by (auto intro: decide_untouched)
  note f = untouched_fields [OF this, unfolded parsed_request_fields]
  have "fd \<noteq> -1" using assms(4) by (auto simp: site_def valid_fd_def)
  have "\<exists>v. handle_request (sv_cgi_file_types cfg) (sv_location_blocks cfg) (sv_error_page cfg) ?h0
      (cl_authorization_status c) os t = (Ret (fd, h, auth), t @ v)" for t
  proof -
    obtain mode where "fs_stat (os_fs os t) (c_str (hh_file_location h)) = Some mode" "mode_has mode S_IRUSR"
      using assms(14) by blast
    moreover have "os_ok os (t @ [Sys_Open (c_str (hh_file_location h)) O_RDONLY, Sys_Fcntl fd])"
      using assms(15) [rule_format, of "t @ [Sys_Open (c_str (hh_file_location h)) O_RDONLY]"] by simp
    moreover have "hh_method h \<notin> {''PUT'', ''POST'', ''DELETE''}" using f(1) by simp
    moreover note assms(15) \<open>fd \<noteq> -1\<close>
    ultimately show ?thesis
      using handle_request_opens [OF assms(11) [rule_format] assms(12) _ assms(13)] by blast
  qed
  with assms obtain ws' t' date modified head where r: "rounds os ws t ws' t'"
    and hd: "response_head date modified (sv_server_name cfg) (h\<lparr>hh_response_file := content\<rparr>) = Ret head"
    and sent: "sent_to (cl_clientFD c) os t' = sent_to (cl_clientFD c) os t @ head @ content"
    using answered_rounds [OF assms(1,2,4-6) _ assms(8-10), where pending = "[]" and h = h and auth = auth] by auto
  have "itoa_str 200 = ''200''" by code_simp
  then have "status_line p 200 status_phrases = p @ '' 200 OK'' @ CRLF"
    by (simp add: status_line_def status_phrases_def)
  with head_status [OF hd] f(7,8) assms(3,12) r sent show ?thesis by auto
qed

section \<open>A system for examples\<close>

text \<open>
  The request comes in one piece, the file is read and the answer taken in one call each, and somebody
  connects when the calls have the given number.
\<close>

definition sample_system :: "nat \<Rightarrow> string \<Rightarrow> stat_fn \<Rightarrow> string \<Rightarrow> os" where
  "sample_system n request stat content = empty_os\<lparr>os_fs := (\<lambda>_. \<lparr>fs_stat = stat, fs_uninit = 0\<rparr>),
     os_fd := (\<lambda>t. case last t of Sys_Socket \<Rightarrow> 3 | Sys_Accept fd \<Rightarrow> 4 | _ \<Rightarrow> 5),
     os_data := (\<lambda>t. case last t of Sys_Read fd \<Rightarrow> Some request | Sys_Pread fd k \<Rightarrow> Some (drop (nat k) content)
       | _ \<Rightarrow> Some []),
     os_count := (\<lambda>t. case last t of Sys_Write fd s \<Rightarrow> int (length s) | _ \<Rightarrow> 0),
     os_ready := (\<lambda>t. case last t of Sys_Select m r w \<Rightarrow> Some (if length t = n then r else r - {3}, w) | _ \<Rightarrow> None)\<rparr>"

definition sample_headers :: "(request_value \<times> string) list" where
  "sample_headers = [(R_requested_host, ''a'')]"

definition sample_handler :: header_handler where
  "sample_handler = parsed_request ''GET'' ''/x'' ''HTTP/1.1'' sample_headers header_handler_init"

definition sample_text :: string where
  "sample_text = request_text ''GET /x HTTP/1.1'' sample_headers"

definition fresh_client :: "int \<Rightarrow> client" where
  "fresh_client cfd = (new_client cfd)\<lparr>cl_active := True\<rparr>"

definition sample_site :: server where
  "sample_site = server_init\<lparr>sv_error_page := ''e/'', sv_tcp_socket := 3\<rparr>"

definition sample_state :: webserver where
  "sample_state = \<lparr>ws_servers = [sample_site\<lparr>sv_clients := [fresh_client 4]\<rparr>],
     ws_time_out_check = False, ws_fd = file_descriptors_init\<lparr>fd_read_buffer := {4}\<rparr>\<rparr>"

lemma fresh_client_fields:
  "cl_clientFD (fresh_client fd) = fd" "cl_handler (fresh_client fd) = header_handler_init"
  "cl_authorization_status (fresh_client fd) = False" "waiting_client (fresh_client fd)"
  by (simp_all add: fresh_client_def new_client_def waiting_client_def header_handler_init_def)

lemma sample_site_fields:
  "sv_cgi_file_types sample_site = []" "sv_location_blocks sample_site = []"
  "sv_error_page sample_site = ''e/''" "sv_server_name sample_site = []"
  by (simp_all add: sample_site_def server_init_def)

lemma sample_serves: "serves sample_site (fresh_client 4) None {4} {} sample_state"
  by (simp add: serves_def sample_state_def lone_def waits_for_def sample_site_def fresh_client_def
      new_client_def config_of_def server_init_def file_descriptors_init_def)

lemma sample_environment:
  "sv_tcp_socket cfg = 3 \<Longrightarrow> n \<le> length t \<Longrightarrow> site (sample_system n q stat content) cfg 4 5 t"
  "sound_write (sample_system n q stat content)" "file_gives (sample_system n q stat content) 5 content"
  "arrives (sample_system n q stat content) 4 t [q]"
proof -
  let ?os = "sample_system n q stat content"
  show "sv_tcp_socket cfg = 3 \<Longrightarrow> n \<le> length t \<Longrightarrow> site ?os cfg 4 5 t"
    by (auto simp: site_def obliging_def valid_fd_def sample_system_def)
  show "sound_write ?os" by (auto simp: sound_write_def sample_system_def Suc_le_eq)
  show "file_gives ?os 5 content" unfolding file_gives_def
    by (auto simp: sample_system_def intro!: exI [of _ "length content"])
  show "arrives ?os 4 t [q]" by (auto simp: arrives_def sample_system_def Let_def)
qed

lemma sample_request:
  "plain_request ''GET'' ''/x'' ''HTTP/1.1'' sample_headers"
  "request_text (''GET'' @ SP # ''/x'' @ SP # ''HTTP/1.1'') sample_headers = sample_text"
  by code_simp+

lemma sample_pieces: "pieces [sample_text]"
  by (simp add: pieces_def sample_text_def request_text_def sample_headers_def header_text_def)

lemma sample_fits:
  assumes "(case response_head [] [] name (h\<lparr>hh_response_file := content\<rparr>) of Inr r \<Rightarrow> length r < 1000 | _ \<Rightarrow> True)"
    "length content < 1000"
  shows "answer_fits (sample_system n q stat content) name (h\<lparr>hh_response_file := content\<rparr>)"
  using assms by (auto simp: answer_fits_def sample_system_def empty_os_def)

definition sample_missing :: header_handler where
  "sample_missing = sample_handler\<lparr>hh_allow := [''GET''], hh_location_index := -1, hh_status := 404,
     hh_file_location := ''e/404.html''\<rparr>"

lemma sample_decision:
  "decide \<lparr>fs_stat = (\<lambda>_. None), fs_uninit = 0\<rparr> [] ''e/'' sample_handler False
    = Ret (sample_handler\<lparr>hh_allow := [''GET''], hh_location_index := -1, hh_file_location := ''e/x''\<rparr>, False)"
  by code_simp

lemma sample_answers:
  "case response_head [] [] [] (sample_missing\<lparr>hh_response_file := ''no''\<rparr>) of Inr r \<Rightarrow> length r < 1000 | _ \<Rightarrow> True"
  "\<not> is_cgi [] sample_missing" "hh_status sample_handler = 200" "hh_method sample_handler = ''GET''"
  "error_file ''e/'' 404 = ''e/404.html''"
  by code_simp+

lemma sample_missing_handled:
  "\<exists>v. handle_request [] [] ''e/'' sample_handler False (sample_system n q (\<lambda>_. None) content) t
    = (Ret (5, sample_missing, False), t @ v)"
proof -
  have "\<not> is_cgi [] (sample_handler\<lparr>hh_allow := [''GET''], hh_location_index := -1, hh_file_location := ''e/x''\<rparr>)"
    by code_simp
  then show ?thesis
    using sample_decision sample_answers(3-5)
    by (simp add: handle_request_def sample_system_def empty_os_def serve_def finish_request_def open_checked_def
        set_nonblock_def io_simps sample_missing_def)
qed

definition sample_exchange :: exchange where
  "sample_exchange = \<lparr>ex_pieces = [sample_text], ex_method = ''GET'', ex_uri = ''/x'', ex_protocol = ''HTTP/1.1'',
     ex_headers = sample_headers, ex_fd = 5, ex_content = ''no'', ex_handler = sample_missing, ex_auth = False\<rparr>"

lemma sample_answerable:
  "answerable (sample_system n q (\<lambda>_. None) ''no'') sample_site 4 header_handler_init False sample_exchange"
  using sample_missing_handled sample_request sample_pieces sample_environment(3) sample_answers(2) sample_fits [OF sample_answers(1)]
  by (simp add: answerable_def sample_exchange_def sample_site_fields valid_fd_def sample_handler_def)
    (simp add: sample_site_def sample_missing_def)

section \<open>Properties\<close>

text \<open>
  C2. From the first byte of a request to the last byte of its answer, for any number of requests over one
  connection.  One client is connected, the system reports the descriptors it is asked about, and the
  bytes of requests without a body arrive in any pieces.  When handling each of them opens a
  file (the one asked for, or an error page), then after some rounds of the loop the client has received,
  in their order and nothing else, the answers to all of them: the head and, unless the method is HEAD, the
  content of the file, however the files are read and the connection takes the bytes.
\<close>

theorem requests_answered:
  assumes "serves cfg c None {cl_clientFD c} {} ws" "waiting_client c" "valid_fd (cl_clientFD c)"
    and "obliging os (sv_tcp_socket cfg) t" "sound_write os" "arrives os (cl_clientFD c) t (concat (map ex_pieces xs))"
    and "all_answerable os cfg (cl_clientFD c) (cl_handler c) (cl_authorization_status c) xs"
  shows "\<exists>ws' t' ss. rounds os ws t ws' t' \<and> list_all2 (answered_with cfg) xs ss
    \<and> sent_to (cl_clientFD c) os t' = sent_to (cl_clientFD c) os t @ concat ss"
  using assms by (rule exchanges_rounds)

theorem requests_answered_witness:
  "\<exists>ws' t' s s'. rounds (sample_system 0 sample_text (\<lambda>_. None) ''no'') sample_state [] ws' t'
    \<and> answered_with sample_site sample_exchange s \<and> answered_with sample_site sample_exchange s'
    \<and> sent_to 4 (sample_system 0 sample_text (\<lambda>_. None) ''no'') t' = s @ s'"
proof -
  let ?os = "sample_system 0 sample_text (\<lambda>_. None) ''no''"
  have here: "site ?os sample_site 4 5 []" by (rule sample_environment(1)) (simp_all add: sample_site_def)
  have "obliging ?os (sv_tcp_socket sample_site) []" "valid_fd 4" using here by (simp_all add: site_def)
  moreover have "arrives ?os 4 [] (concat (map ex_pieces [sample_exchange, sample_exchange]))"
    by (auto simp: arrives_def sample_system_def sample_exchange_def Let_def less_Suc_eq numeral_2_eq_2)
  moreover have "all_answerable ?os sample_site 4 header_handler_init False [sample_exchange, sample_exchange]"
    using sample_answerable by (simp add: sample_exchange_def)
  ultimately obtain ws' t' ss where "rounds ?os sample_state [] ws' t'"
    "list_all2 (answered_with sample_site) [sample_exchange, sample_exchange] ss" "sent_to 4 ?os t' = concat ss"
    using requests_answered [where c = "fresh_client 4" and cfg = sample_site and t = "[]" and os = ?os
      and xs = "[sample_exchange, sample_exchange]" and ws = sample_state, unfolded fresh_client_fields(1-3),
      OF sample_serves fresh_client_fields(4)] sample_environment(2) by (auto simp del: all_answerable.simps)
  moreover from this(2) obtain s s' where "ss = [s, s']" "answered_with sample_site sample_exchange s"
    "answered_with sample_site sample_exchange s'" by (auto simp: list_all2_Cons1)
  ultimately show ?thesis by (intro exI [of _ ws'] exI [of _ t'] exI [of _ s] exI [of _ s']) simp
qed

end
