(* ===== verification/FirstVisit.thy ===== *)
theory FirstVisit
  imports Delivery
begin

text \<open>
  The program from its start to the end of its first answer: \<^verbatim>\<open>main\<close> reads the configuration file and opens
  the socket, the first round of the loop accepts a connection, and the rounds of theory \<open>Delivery\<close> follow.
\<close>

section \<open>The start with one server\<close>

text \<open>The server that the printed one becomes, with the socket it got.\<close>

definition listening :: "server \<Rightarrow> int \<Rightarrow> server" where
  "listening sv sock = (server_of sv server_init)\<lparr>sv_tcp_socket := sock\<rparr>"

lemma listening_fields [simp]:
  "sv_clients (listening sv sock) = []" "sv_request_buffer (listening sv sock) = (\<lambda>_. None)"
  "sv_tcp_socket (listening sv sock) = sock" "sv_server_name (listening sv sock) = sv_server_name sv"
  "sv_error_page (listening sv sock) = sv_error_page sv" "sv_time_out (listening sv sock) = sv_time_out sv"
  "sv_cgi_file_types (listening sv sock) = sv_cgi_file_types sv"
  "sv_location_blocks (listening sv sock) = with_returns [] (sv_location_blocks sv)"
  by (simp_all add: listening_def server_of_def reset_server_def server_init_def)

lemma main_start_lone:
  assumes "config_printable [sv]" "ge_malloc env = (\<lambda>_. True)"
    and "ge_files env (c_str path) = Some (Content (config_text [sv]))"
    and "\<forall>l\<in>set (server_lines sv). LF \<notin> set l \<and> NUL \<notin> set l" "validate_configuration [sv] = Ret ()"
    and "\<forall>t. os_ok os t" "os_fd os [Sys_Socket] = sock" "sock \<noteq> -1"
  shows "main_start env [prog, path] os [] = (Inr [listening sv sock], listen_calls (listening sv sock))"
proof -
  have "load_configuration env path = Ret ([server_of sv server_init], None)"
    using load_printed [OF assms(1-3)] assms(4) by simp
  moreover have "validate_configuration [server_of sv server_init] = Ret ()"
    using assms(5) servers_of_settings [of server_init "[sv]"] by (simp add: validate_settings)
  ultimately show ?thesis
    using assms(6-8) by (simp add: main_start_def create_socket_def bind_socket_address_def
        create_connection_def io_simps listen_calls_def listening_def)
qed

section \<open>The first connection\<close>

definition connection_calls :: "int \<Rightarrow> int \<Rightarrow> syscall list" where
  "connection_calls sock cfd = [Sys_Select (sock + 1) {sock} {}, Sys_Accept sock, Sys_Fcntl cfd, Sys_Time, Sys_Time]"

text \<open>The next calls report a connection and accept it as \<open>cfd\<close>, within the time out of the server.\<close>

definition connects :: "os \<Rightarrow> server \<Rightarrow> int \<Rightarrow> history \<Rightarrow> bool" where
  "connects os sv cfd t \<longleftrightarrow> (let calls = (\<lambda>n. t @ take n (connection_calls (sv_tcp_socket sv) cfd)) in
     (\<exists>r w. os_ready os (calls 1) = Some (r, w) \<and> sv_tcp_socket sv \<in> r)
     \<and> os_fd os (calls 2) = cfd \<and> os_ok os (calls 3) \<and> os_time os (calls 5) - os_time os (calls 4) < sv_time_out sv)"

text \<open>A client just accepted has nothing to do in its round but to have its time checked.\<close>

lemma fresh_client_round:
  assumes s: "sv_clients (ls_server s) = [fresh_client cfd]" "sv_request_buffer (ls_server s) cfd = None"
    and fds: "valid_fd cfd" "cfd \<notin> fd_read (ls_fd s)" "cfd \<notin> fd_write (ls_fd s)"
    and clock: "fd_time_out_monitor (ls_fd s) cfd = Some since"
      "os_time os (t @ [Sys_Time]) - since < sv_time_out (ls_server s)"
  shows "try_block 0 s os t = (Inr Next, set_check True s, t @ [Sys_Time])"
proof -
  let ?c = "fresh_client cfd" and ?s = "set_check True s"
  have c: "cl_clientFD ?c = cfd" "cl_fileFD ?c = -1" "cl_active ?c" "hh_bytes_written (cl_handler ?c) = 0"
    and same: "?c\<lparr>cl_active := True\<rparr> = ?c"
    by (simp_all add: fresh_client_def new_client_def header_handler_init_def)
  have at: "client_at 0 s = ?c" "client_at 0 ?s = ?c" using s(1) by (simp_all add: client_at_def set_check_def)
  have kept: "set_clients [?c] ?s = ?s" "set_fds (ls_fd s) ?s = ?s" "ls_fd ?s = ls_fd s" "ls_check ?s"
    using s(1) by (simp_all add: set_clients_def set_fds_def set_check_def)
  have upd: "io_of (update_active_client (sv_clients (ls_server ?s)) cfd) os t = (Inr [?c], t)"
    using lone_rotation [of ?c, unfolded c(1) same] s(1) by (simp add: io_simps set_check_def)
  have "check_time_out [?c] cfd (sv_time_out (ls_server ?s)) (ls_fd s) os t = (Inr ([?c], ls_fd s), t @ [Sys_Time])"
    using clock c(1) by (simp add: check_time_out_def io_simps set_check_def)
  then have "time_out_part 0 ?s os t = (Inr Next, ?s, t @ [Sys_Time])"
    by (simp add: time_out_part_def get_def at(2) c(1) modify_def kept done_with_def act_Inr
        act_Inr [where m = "io_of (update_active_client (sv_clients (ls_server ?s)) cfd)", OF upd])
  moreover have "set_time_out_check (ls_server s) ?c" using s(2) c by (simp add: set_time_out_check_def)
  ultimately show ?thesis
    using c fds by (simp add: try_block_def get_def modify_def at read_part_idle file_part_idle send_part_idle kept(3))
qed

lemma connection_round:
  assumes "connects os sv cfd t" "sv_clients sv = []" "sv_request_buffer sv = (\<lambda>_. None)"
    and "valid_fd (sv_tcp_socket sv)" "valid_fd cfd" "cfd \<noteq> sv_tcp_socket sv"
  shows "\<exists>ws'. run_round (run_start [sv]) os t = (Ret ws', t @ connection_calls (sv_tcp_socket sv) cfd)
     \<and> serves sv (fresh_client cfd) None {cfd} {} ws'"
proof -
  let ?sock = "sv_tcp_socket sv" and ?c = "fresh_client cfd"
  let ?sel = "Sys_Select (?sock + 1) {?sock} {}" let ?t1 = "t @ [?sel]"
  let ?t4 = "t @ [?sel, Sys_Accept ?sock, Sys_Fcntl cfd, Sys_Time]"
  from assms(1) obtain r w where ready: "os_ready os ?t1 = Some (r, w)" "?sock \<in> r"
    and conn: "os_fd os (?t1 @ [Sys_Accept ?sock]) = cfd" "os_ok os (?t1 @ [Sys_Accept ?sock, Sys_Fcntl cfd])"
    and clock: "os_time os (?t4 @ [Sys_Time]) - os_time os ?t4 < sv_time_out sv"
    by (auto simp: connects_def connection_calls_def Let_def)
  define f where "f = (initialize_max [sv] file_descriptors_init)\<lparr>fd_read := {?sock}, fd_write := {}\<rparr>"
  have start: "synchronize [sv] (initialize_max [sv] file_descriptors_init) = Ret f" "get_max f = ?sock + 1"
    using assms(4) by (simp_all add: f_def synchronize_def initialize_max_def file_descriptors_init_def
        checked_def get_max_def valid_fd_def)
  define s where "s = \<lparr>ls_fd = f, ls_server = sv, ls_check = False\<rparr>"
  define g where "g = f\<lparr>fd_time_out_monitor := [cfd \<mapsto> os_time os ?t4], fd_read_buffer := {cfd},
    fd_max := max ?sock cfd\<rparr>"
  define s1 where "s1 = \<lparr>ls_fd = g, ls_server = sv\<lparr>sv_clients := [?c]\<rparr>, ls_check = False\<rparr>"
  have ne: "cfd \<noteq> -1" "-1 < ?sock" "?sock \<noteq> -1" using assms(4,5) by (auto simp: valid_fd_def)
  have acc: "accept_part s os ?t1 = (Inr Next, s1, ?t4)"
    using conn ne assms(2,4,5)
    by (simp add: accept_part_def get_def act_def modify_def done_with_def io_simps rdy_for_reading_def checked_def
        set_time_out_def accepted_request_update_def set_read_buffer_def update_max_def set_fds_def set_clients_def
        add_client_def Let_def s_def s1_def f_def g_def initialize_max_def file_descriptors_init_def
        fresh_client_def max_def)
  have "try_block 0 s1 os ?t4 = (Inr Next, set_check True s1, ?t4 @ [Sys_Time])"
    by (rule fresh_client_round [where since = "os_time os ?t4" and cfd = cfd])
      (use assms(3,5,6) clock in \<open>simp_all add: s1_def g_def f_def\<close>)
  note tried = this
  have "sv_clients (ls_server s1) = [?c]" by (simp add: s1_def)
  from lone_client_loop [OF this tried]
  have sr: "server_round s os ?t1 = (Ret (), set_check True s1, ?t4 @ [Sys_Time])" by (simp add: server_round_def acc)
  define ws where "ws = \<lparr>ws_servers = [sv\<lparr>sv_clients := [?c]\<rparr>], ws_time_out_check = True,
    ws_fd = sync_maxFD [sv\<lparr>sv_clients := [?c]\<rparr>] g\<rparr>"
  have "servers_round f False [sv] os ?t1 = (Ret ([sv\<lparr>sv_clients := [?c]\<rparr>], g, True), ?t4 @ [Sys_Time])"
    using sr by (simp add: s_def) (simp add: s1_def set_check_def)
  moreover have "f\<lparr>fd_read := {?sock} \<inter> r, fd_write := {}\<rparr> = f" "fd_read f = {?sock}" "fd_write f = {}"
    using ready(2) by (simp_all add: f_def)
  ultimately have "run_round (run_start [sv]) os t = (Ret ws, ?t4 @ [Sys_Time])"
    using start ready(1) by (simp add: run_round_def run_start_def io_simps ws_def)
  moreover have "serves sv ?c None {cfd} {} ws"
    using assms(2,3,6) fresh_client_fields(1) by (auto simp: serves_def ws_def lone_def waits_for_def config_of_def sync_maxFD_def
        g_def f_def initialize_max_def file_descriptors_init_def)
  ultimately show ?thesis by (auto simp: connection_calls_def)
qed

section \<open>The first answer\<close>

lemma no_write_start:
  "\<forall>c\<in>set (listen_calls sv @ connection_calls sock cfd). no_write c"
  by (simp add: listen_calls_def connection_calls_def no_write_def)

lemma status_phrases_init: "hh_status_phrases header_handler_init = status_phrases"
  by (simp add: header_handler_init_def)

lemma first_visit:
  assumes start: "main_start env argv os [] = (Inr [sv], t0)" "connects os sv cfd t0"
    and sv: "sv_clients sv = []" "sv_request_buffer sv = (\<lambda>_. None)"
    and site: "site os sv cfd fd (t0 @ connection_calls (sv_tcp_socket sv) cfd)"
  shows "\<exists>ws. reaches env argv os ws (t0 @ connection_calls (sv_tcp_socket sv) cfd)
    \<and> serves sv (fresh_client cfd) None {cfd} {} ws"
proof -
  have "valid_fd (sv_tcp_socket sv)" "valid_fd cfd" "cfd \<noteq> sv_tcp_socket sv"
    using site by (auto simp: site_def obliging_def)
  from connection_round [OF start(2) sv this] start(1) show ?thesis
    unfolding reaches_def by (blast intro: rounds.intros)
qed

lemma reaches_rounds: "reaches env argv os ws t \<Longrightarrow> rounds os ws t ws' t' \<Longrightarrow> reaches env argv os ws' t'"
  unfolding reaches_def using rounds_trans by blast

section \<open>An example\<close>

definition sample_stat :: stat_fn where
  "sample_stat p = (if p = ''/w/x'' then Some 0x8100 else None)"

definition sample_found :: header_handler where
  "sample_found = sample_handler\<lparr>hh_allow := [''GET''], hh_location_block_root := ''/w'',
     hh_location_index := 0, hh_file_location := ''/w/x''\<rparr>"

lemma sample_found_decided:
  "decide \<lparr>fs_stat = sample_stat, fs_uninit = 0\<rparr> (with_returns [] (sv_location_blocks sample_server)) ''e/''
    sample_handler False = Ret (sample_found, False)"
  by code_simp

lemma sample_found_fields:
  "case response_head [] [] ''s'' (sample_found\<lparr>hh_response_file := ''hello''\<rparr>) of Inr r \<Rightarrow> length r < 1000 | _ \<Rightarrow> True"
  "\<not> is_cgi ''.php'' sample_found" "hh_status sample_found = 200"
  "c_str (hh_file_location sample_found) = ''/w/x''" "mode_has 0x8100 S_IRUSR"
  by code_simp+

section \<open>Properties\<close>

text \<open>
  C1. From the configuration file to the last byte of the first answer.  The program is started on a
  configuration file that describes one server; the system grants the calls; somebody connects, within
  the time out of the server; the bytes of a GET request arrive in any pieces, and nobody else connects.
  When the request resolves to a file that is there, is readable and may be read, then the loop reaches a
  state in which everything that was sent to the client is a head and the file: the head begins with the
  protocol of the request and \<^verbatim>\<open>200 OK\<close> and announces the length of the file.
\<close>

theorem program_serves_file:
  assumes "config_printable [sv]" "ge_malloc env = (\<lambda>_. True)"
    and "ge_files env (c_str path) = Some (Content (config_text [sv]))"
    and "\<forall>l\<in>set (server_lines sv). LF \<notin> set l \<and> NUL \<notin> set l" "validate_configuration [sv] = Ret ()"
    and "\<forall>t. os_ok os t" "os_fd os [Sys_Socket] = sock"
    and "connects os (listening sv sock) cfd (listen_calls (listening sv sock))"
    and "t = listen_calls (listening sv sock) @ connection_calls sock cfd"
    and "site os (listening sv sock) cfd fd t" "sound_write os" "file_gives os fd content"
    and "arrives os cfd t ds" "pieces ds"
    and "concat ds = request_text (''GET'' @ SP # u @ SP # p) hs" "plain_request ''GET'' u p hs"
    and "\<forall>t. decide (os_fs os t) (with_returns [] (sv_location_blocks sv)) (sv_error_page sv)
      (parsed_request ''GET'' u p hs header_handler_init) False = Ret (h, auth)"
    and "hh_status h = 200" "\<not> is_cgi (sv_cgi_file_types sv) h"
    and "\<forall>t. \<exists>mode. fs_stat (os_fs os t) (c_str (hh_file_location h)) = Some mode \<and> mode_has mode S_IRUSR"
    and "\<forall>t. os_fd os (t @ [Sys_Open (c_str (hh_file_location h)) O_RDONLY]) = fd"
    and "answer_fits os (sv_server_name sv) (h\<lparr>hh_response_file := content\<rparr>)"
  shows "\<exists>ws t' head. reaches env [prog, path] os ws t' \<and> sent_to cfd os t' = head @ content
     \<and> prefix (p @ '' 200 OK'' @ CRLF) head
     \<and> sublist (''Content-Length: '' @ itoa_str (wrap32 (int (length content))) @ CRLF) head"
proof -
  let ?cfg = "listening sv sock"
  have "sock \<noteq> -1" using assms(10) by (auto simp: site_def obliging_def valid_fd_def)
  from main_start_lone [OF assms(1-7) this, of prog] assms(8-10) obtain ws where
    r: "reaches env [prog, path] os ws t" and s: "serves ?cfg (fresh_client cfd) None {cfd} {} ws"
    using first_visit [of env "[prog, path]" os ?cfg "listen_calls ?cfg" cfd fd] by auto
  have granted: "\<forall>t. os_fd os (t @ [Sys_Open (c_str (hh_file_location h)) O_RDONLY]) = fd
      \<and> os_ok os (t @ [Sys_Fcntl fd])" using assms(6,21) by simp
  from readable_file_served [where c = "fresh_client cfd" and cfg = ?cfg, unfolded fresh_client_fields(1-3) listening_fields,
      OF s fresh_client_fields(4) status_phrases_init assms(10-20) granted assms(22)]
  obtain ws' t' head where r': "rounds os ws t ws' t'" and "sent_to cfd os t' = sent_to cfd os t @ head @ content"
    "prefix (p @ '' 200 OK'' @ CRLF) head"
    "sublist (''Content-Length: '' @ itoa_str (wrap32 (int (length content))) @ CRLF) head" by blast
  moreover have "sent_to cfd os t = []"
    using sent_to_no_write [OF no_write_start, of cfd os "[]" ?cfg sock cfd] assms(9) by simp
  ultimately show ?thesis using reaches_rounds [OF r r'] by auto
qed

theorem program_serves_file_witness:
  "\<exists>ws t' head. reaches sample_env [''webserv'', ''c''] (sample_system 5 sample_text sample_stat ''hello'') ws t'
     \<and> sent_to 4 (sample_system 5 sample_text sample_stat ''hello'') t' = head @ ''hello''
     \<and> prefix (''HTTP/1.1'' @ '' 200 OK'' @ CRLF) head"
proof -
  let ?os = "sample_system 5 sample_text sample_stat ''hello''" and ?cfg = "listening sample_server 3"
  have os: "os_fs ?os t = \<lparr>fs_stat = sample_stat, fs_uninit = 0\<rparr>" "os_ok ?os t" "os_time ?os t = 0" for t
    by (simp_all add: sample_system_def empty_os_def)
  have fields: "sv_error_page sample_server = ''e/''" "sv_cgi_file_types sample_server = ''.php''"
    "sv_server_name sample_server = ''s''" "sv_time_out sample_server = 5" by (simp_all add: sample_server_def)
  have printed: "\<forall>l\<in>set (server_lines sample_server). LF \<notin> set l \<and> NUL \<notin> set l" using sample_config(2) by simp
  have valid: "validate_configuration [sample_server] = Ret ()"
    by (simp add: validate_settings good_settings_def settings_def sample_server_def)
  have granted: "\<forall>t. os_ok ?os t" "os_fd ?os [Sys_Socket] = 3"
    "\<forall>t. os_fd ?os (t @ [Sys_Open (c_str (hh_file_location sample_found)) O_RDONLY]) = 5"
    by (simp_all add: os) (simp_all add: sample_system_def)
  have conn: "connects ?os ?cfg 4 (listen_calls ?cfg)"
    by (simp add: connects_def connection_calls_def listen_calls_def os fields) (simp add: sample_system_def)
  have here: "site ?os ?cfg 4 5 (listen_calls ?cfg @ connection_calls 3 4)"
    by (rule sample_environment(1)) (simp_all add: listen_calls_def connection_calls_def)
  have whole: "concat [sample_text] = request_text (''GET'' @ SP # ''/x'' @ SP # ''HTTP/1.1'') sample_headers"
    using sample_request(2) by simp
  have decided: "\<forall>t. decide (os_fs ?os t) (with_returns [] (sv_location_blocks sample_server)) (sv_error_page sample_server)
      (parsed_request ''GET'' ''/x'' ''HTTP/1.1'' sample_headers header_handler_init) False = Ret (sample_found, False)"
    using sample_found_decided os(1) fields(1) unfolding sample_handler_def by simp
  have there: "\<forall>t. \<exists>mode. fs_stat (os_fs ?os t) (c_str (hh_file_location sample_found)) = Some mode \<and> mode_has mode S_IRUSR"
    using sample_found_fields(4,5) by (simp add: os(1) sample_stat_def)
  from program_serves_file [where path = "''c''" and prog = "''webserv''", OF sample_config(1) sample_env_select(1)
      sample_env_select(2) printed valid granted(1,2) conn refl here sample_environment(2-4) sample_pieces whole
      sample_request(1) decided sample_found_fields(3) sample_found_fields(2) [folded fields(2)] there granted(3)
      sample_fits [OF sample_found_fields(1) [folded fields(3)]]]
  show ?thesis by auto
qed

end
