(* ===== verification/ConfigChecker.thy ===== *)
theory ConfigChecker
  imports StdString
begin

text \<open>
  \<^verbatim>\<open>ATwebserv/config_checker.cpp/.hpp\<close> and the structures of
  \<^verbatim>\<open>ATwebserv/struct_webserv.hpp\<close>: the second server's reader of its configuration file.
  The file is read with \<^verbatim>\<open>ifs >> word\<close> only, so a stream is the list of the words left.
  The loops of the reader may run for ever at the end of the file; they are
  \<open>partial_function (option)\<close>, \<open>None\<close> for a call that does not return.
\<close>

section \<open>Words of a stream\<close>

definition isspace :: "char \<Rightarrow> bool" where
  "isspace c \<longleftrightarrow> c \<in> {CHR 0x20, CHR 0x09, CHR 0x0A, CHR 0x0B, CHR 0x0C, CHR 0x0D}"

fun words_from :: "string \<Rightarrow> string \<Rightarrow> string list" where
  "words_from w [] = (if w = [] then [] else [w])"
| "words_from w (c # cs) =
     (if isspace c then (if w = [] then words_from [] cs else w # words_from [] cs)
      else words_from (w @ [c]) cs)"

definition words_of :: "string \<Rightarrow> string list" where
  "words_of s = words_from [] s"

text \<open>\<^verbatim>\<open>ifs >> word\<close>: whether it succeeded, the word, the stream; a failure leaves the word.\<close>

fun next_word :: "string list \<Rightarrow> string \<Rightarrow> bool \<times> string \<times> string list" where
  "next_word [] word = (False, word, [])"
| "next_word (w # ws) word = (True, w, ws)"

section \<open>The structures\<close>

record locati_info =
  li_location :: string
  li_auth_basic :: string
  li_auth_user_file :: string
  li_autoindex :: string
  li_index :: string
  li_max_file_size :: string
  li_return_directive :: string
  li_root :: string
  li_allowed_method :: "string list"
  li_retour :: "string list"

record server_info =
  si_socket :: int
  si_port :: string
  si_host :: string
  si_server_name :: string
  si_error_page :: string
  si_max_file_size :: string
  si_time_out :: string
  si_cgi_file_types :: "string list"
  si_location :: "locati_info list"

definition locati_info_init :: locati_info where
  "locati_info_init = \<lparr>li_location = [], li_auth_basic = [], li_auth_user_file = [],
     li_autoindex = [], li_index = [], li_max_file_size = [], li_return_directive = [],
     li_root = [], li_allowed_method = [], li_retour = []\<rparr>"

definition server_info_init :: server_info where
  "server_info_init = \<lparr>si_socket = 0, si_port = [], si_host = [], si_server_name = [],
     si_error_page = [], si_max_file_size = [], si_time_out = [], si_cgi_file_types = [],
     si_location = []\<rparr>"

text \<open>\<^verbatim>\<open>configException\<close> is a \<^verbatim>\<open>std::exception\<close> with the text of its \<^verbatim>\<open>what()\<close>.\<close>

definition configException :: "string \<Rightarrow> exn" where
  "configException str = Runtime_Error (str @ [LF] @ ''Config File : error.'')"

section \<open>One value\<close>

abbreviation SEMI :: char where "SEMI \<equiv> CHR '';''"

definition stops :: "string \<Rightarrow> bool" where
  "stops word \<longleftrightarrow> SEMI \<in> set word"

text \<open>The test on a word with a semicolon: one, and at the end.\<close>

definition bad_stop :: "string \<Rightarrow> bool" where
  "bad_stop word \<longleftrightarrow> length (filter (\<lambda>c. c = SEMI) word) \<noteq> 1 \<or> last word \<noteq> SEMI"

definition extract_to_string :: "string list \<Rightarrow> (string \<times> string list) res" where
  "extract_to_string ifs =
     (case next_word ifs [] of
        (False, _, _) \<Rightarrow> Throw (configException ''bad formating(3) EOF reached'')
      | (True, word, ifs) \<Rightarrow>
          if stops word
          then if bad_stop word then Throw (configException (''bad formating(1) around : '' @ word))
               else Ret (butlast word, ifs)
          else (case next_word ifs word of
                  (got, word', ifs) \<Rightarrow>
                    if got \<and> word' \<noteq> [SEMI]
                    then Throw (configException (''bad formating(2) around : '' @ word'))
                    else Ret (word, ifs)))"

partial_function (option) vector_words ::
  "string \<Rightarrow> string list \<Rightarrow> string list \<Rightarrow> (string list \<times> string list) res option" where
  "vector_words word ifs v =
     (if \<not> stops word
      then (case next_word ifs word of (_, word', ifs) \<Rightarrow> vector_words word' ifs (v @ [word]))
      else if bad_stop word
      then Some (Throw (configException (''bad formating (location_part vector) around : '' @ word)))
      else Some (Ret (v @ [butlast word], ifs)))"

definition extract_to_vector :: "string list \<Rightarrow> string list \<Rightarrow> (string list \<times> string list) res option" where
  "extract_to_vector ifs v = (case next_word ifs [] of (_, word, ifs) \<Rightarrow> vector_words word ifs v)"

text \<open>\<^verbatim>\<open>std::atoi\<close> on a word of digits and semicolons; out of range it is undefined.\<close>

definition digit_value :: "char \<Rightarrow> int" where
  "digit_value c = int (of_char c) - 48"

definition isdigit :: "char \<Rightarrow> bool" where
  "isdigit c \<longleftrightarrow> 0 \<le> digit_value c \<and> digit_value c \<le> 9"

definition port_number :: "string \<Rightarrow> int" where
  "port_number word = foldl (\<lambda>n c. n * 10 + digit_value c) 0 (takeWhile isdigit word)"

definition atoi_port :: "string \<Rightarrow> int res" where
  "atoi_port word = (if int32 (port_number word) then Ret (port_number word) else Throw (Undef ''atoi''))"

definition valid_port :: "string list \<Rightarrow> server_info \<Rightarrow> (server_info \<times> string list) res" where
  "valid_port ifs si =
     (case next_word ifs [] of
        (got, word, ifs) \<Rightarrow>
          if \<not> got \<or> (\<exists>c\<in>set word. \<not> isdigit c \<and> c \<noteq> SEMI) then Throw (configException ''bad port'')
          else rbind (atoi_port word) (\<lambda>port.
            if 65535 < port \<or> port < 80 then Throw (configException ''bad port'')
            else if \<not> stops word
            then (case next_word ifs word of
                    (got, word', ifs) \<Rightarrow>
                      if got \<and> word' \<noteq> [SEMI]
                      then Throw (configException (''bad formating(2) around : '' @ word'))
                      else Ret (si\<lparr>si_port := word\<rparr>, ifs))
            else if bad_stop word then Throw (configException (''bad formating(1) around : '' @ word))
            else Ret (si\<lparr>si_port := butlast word\<rparr>, ifs)))"

section \<open>The blocks\<close>

text \<open>A directive with one value: extract it and store it with \<open>put\<close>.\<close>

definition store_string ::
  "(string \<Rightarrow> 'a \<Rightarrow> 'a) \<Rightarrow> string list \<Rightarrow> 'a \<Rightarrow> ('a \<times> string list) res option" where
  "store_string put ifs x = Some (rbind (extract_to_string ifs) (\<lambda>(v, ifs). Ret (put v x, ifs)))"

definition store_vector ::
  "(string list \<Rightarrow> 'a \<Rightarrow> 'a) \<Rightarrow> string list \<Rightarrow> string list \<Rightarrow> 'a \<Rightarrow> ('a \<times> string list) res option" where
  "store_vector put old ifs x = Option.bind (extract_to_vector ifs old) (\<lambda>r.
     Some (rbind r (\<lambda>(v, ifs). Ret (put v x, ifs))))"

definition loca_directive ::
  "string \<Rightarrow> string list \<Rightarrow> locati_info \<Rightarrow> (locati_info \<times> string list) res option" where
  "loca_directive word ifs l =
     (if word = ''allowed_method''
      then store_vector (\<lambda>v. li_allowed_method_update (\<lambda>_. v)) (li_allowed_method l) ifs l
      else if word = ''auth_basic'' then store_string (\<lambda>v. li_auth_basic_update (\<lambda>_. v)) ifs l
      else if word = ''auth_user_file'' then store_string (\<lambda>v. li_auth_user_file_update (\<lambda>_. v)) ifs l
      else if word = ''autoindex'' then store_string (\<lambda>v. li_autoindex_update (\<lambda>_. v)) ifs l
      else if word = ''index'' then store_string (\<lambda>v. li_index_update (\<lambda>_. v)) ifs l
      else if word = ''max_file_size'' then store_string (\<lambda>v. li_max_file_size_update (\<lambda>_. v)) ifs l
      else if word = ''return_directive'' then store_string (\<lambda>v. li_return_directive_update (\<lambda>_. v)) ifs l
      else if word = ''return'' then store_vector (\<lambda>v. li_retour_update (\<lambda>_. v)) (li_retour l) ifs l
      else if word = ''root'' then store_string (\<lambda>v. li_root_update (\<lambda>_. v)) ifs l
      else if word = ''{'' then Some (Ret (l, ifs))
      else Some (Throw (configException (''bad formating (location_part3) around : '' @ word))))"

text \<open>
  The \<^verbatim>\<open>int\<close> that counts opening brackets; the loops end at a closing bracket before it could be counted.
  At the end of the file the last word stays, so a file that ends with an opening bracket is counted on until
  the \<^verbatim>\<open>int\<close> overflows.
\<close>

definition count_bracket :: "string \<Rightarrow> int \<Rightarrow> int res" where
  "count_bracket word bracket =
     (if word \<noteq> ''{'' then Ret bracket
      else if bracket = 2147483647 then Throw (Undef ''++bracket'') else Ret (bracket + 1))"

lemma count_bracket_word [simp]: "word \<noteq> ''{'' \<Longrightarrow> count_bracket word bracket = Ret bracket"
  by (simp add: count_bracket_def)

partial_function (option) loca_loop ::
  "string \<Rightarrow> int \<Rightarrow> string list \<Rightarrow> locati_info \<Rightarrow> (locati_info \<times> string list) res option" where
  "loca_loop word bracket ifs l =
     (if word = ''}'' then Some (Ret (l, ifs))
      else Option.bind (loca_directive word ifs l) (\<lambda>r. case r of
             Inl e \<Rightarrow> Some (Inl e)
           | Inr p \<Rightarrow> (case count_bracket word bracket of
               Inl e \<Rightarrow> Some (Inl e)
             | Inr b \<Rightarrow> (case next_word (snd p) word of (_, word, ifs) \<Rightarrow> loca_loop word b ifs (fst p)))))"

definition check_loca_part :: "string list \<Rightarrow> server_info \<Rightarrow> (server_info \<times> string list) res option" where
  "check_loca_part ifs si =
     (case next_word ifs [] of (_, name, ifs) \<Rightarrow>
      case next_word ifs name of (got, word, ifs) \<Rightarrow>
        if \<not> got \<or> word \<noteq> ''{''
        then Some (Throw (configException (''bad formating (location_part1) around : '' @ word)))
        else (case next_word ifs word of (_, word, ifs) \<Rightarrow>
              Option.bind (loca_loop word 1 ifs (locati_info_init\<lparr>li_location := name\<rparr>)) (\<lambda>r.
              Some (rbind r (\<lambda>(l, ifs). Ret (si\<lparr>si_location := si_location si @ [l]\<rparr>, ifs))))))"

definition serv_directive ::
  "string \<Rightarrow> string list \<Rightarrow> server_info \<Rightarrow> (server_info \<times> string list) res option" where
  "serv_directive word ifs si =
     (if word = ''port'' then Some (valid_port ifs si)
      else if word = ''server_name'' then store_string (\<lambda>v. si_server_name_update (\<lambda>_. v)) ifs si
      else if word = ''max_file_size'' then store_string (\<lambda>v. si_max_file_size_update (\<lambda>_. v)) ifs si
      else if word = ''error_page'' then store_string (\<lambda>v. si_error_page_update (\<lambda>_. v)) ifs si
      else if word = ''host'' then store_string (\<lambda>v. si_host_update (\<lambda>_. v)) ifs si
      else if word = ''time_out'' then store_string (\<lambda>v. si_time_out_update (\<lambda>_. v)) ifs si
      else if word = ''cgi_file_types''
      then store_vector (\<lambda>v. si_cgi_file_types_update (\<lambda>_. v)) (si_cgi_file_types si) ifs si
      else if word = ''location'' then check_loca_part ifs si
      else if word = ''{'' then Some (Ret (si, ifs))
      else Some (Throw (configException (''bad formating around : '' @ word))))"

partial_function (option) serv_loop ::
  "string \<Rightarrow> int \<Rightarrow> string list \<Rightarrow> server_info \<Rightarrow> (server_info \<times> string list) res option" where
  "serv_loop word bracket ifs si =
     (if word = ''}'' \<or> bracket = 0 then Some (Ret (si, ifs))
      else Option.bind (serv_directive word ifs si) (\<lambda>r. case r of
             Inl e \<Rightarrow> Some (Inl e)
           | Inr p \<Rightarrow> (case count_bracket word bracket of
               Inl e \<Rightarrow> Some (Inl e)
             | Inr b \<Rightarrow> (case next_word (snd p) word of (_, word, ifs) \<Rightarrow> serv_loop word b ifs (fst p)))))"

definition check_serv_part :: "string list \<Rightarrow> server_info \<Rightarrow> (server_info \<times> string list) res option" where
  "check_serv_part ifs si =
     (case next_word ifs [] of (_, word, ifs) \<Rightarrow>
        if word \<noteq> ''{'' then Some (Throw (configException word))
        else (case next_word ifs word of (_, word, ifs) \<Rightarrow> serv_loop word 1 ifs si))"

text \<open>
  The loop over the file.  \<open>allocated\<close> says whether the constructor reached the allocation of
  the vector of servers, which every round uses.
\<close>

partial_function (option) file_loop :: "bool \<Rightarrow> string list \<Rightarrow> server_info list \<Rightarrow> server_info list res option" where
  "file_loop allocated ifs si =
     (case next_word ifs [] of (got, word, ifs) \<Rightarrow>
        if \<not> got then Some (Ret si)
        else if \<not> allocated then Some (Throw (Undef ''_si''))
        else if word \<noteq> ''server'' then file_loop allocated ifs si
        else Option.bind (check_serv_part ifs server_info_init) (\<lambda>r. case r of
               Inl e \<Rightarrow> Some (Inl e) | Inr p \<Rightarrow> file_loop allocated (snd p) (si @ [fst p])))"

definition config_checker_init :: "(string \<Rightarrow> string option) \<Rightarrow> bool" where
  "config_checker_init files \<longleftrightarrow> files ''./configuration_files/webserv_config.txt'' \<noteq> None"

definition check_conFile :: "(string \<Rightarrow> string option) \<Rightarrow> bool \<Rightarrow> string \<Rightarrow> server_info list res option" where
  "check_conFile files allocated str =
     (case files (c_str str) of
        None \<Rightarrow> Some (Throw (configException ''Unfound''))
      | Some text \<Rightarrow> file_loop allocated (words_of text) [])"


section \<open>Printing\<close>

definition plain_word :: "string \<Rightarrow> bool" where
  "plain_word w \<longleftrightarrow> w \<noteq> [] \<and> SEMI \<notin> set w \<and> (\<forall>c\<in>set w. \<not> isspace c)"

definition string_words :: "string \<Rightarrow> string \<Rightarrow> string list" where
  "string_words key v = (if v = [] then [] else [key, v @ [SEMI]])"

definition list_words :: "string \<Rightarrow> string list \<Rightarrow> string list" where
  "list_words key vs = (if vs = [] then [] else key # butlast vs @ [last vs @ [SEMI]])"

definition location_words :: "locati_info \<Rightarrow> string list" where
  "location_words l = [''location'', li_location l, ''{'']
     @ list_words ''allowed_method'' (li_allowed_method l) @ string_words ''auth_basic'' (li_auth_basic l)
     @ string_words ''auth_user_file'' (li_auth_user_file l) @ string_words ''autoindex'' (li_autoindex l)
     @ string_words ''index'' (li_index l) @ string_words ''max_file_size'' (li_max_file_size l)
     @ string_words ''return_directive'' (li_return_directive l) @ list_words ''return'' (li_retour l)
     @ string_words ''root'' (li_root l) @ [''}'']"

definition server_words :: "server_info \<Rightarrow> string list" where
  "server_words si = [''server'', ''{''] @ string_words ''port'' (si_port si)
     @ string_words ''server_name'' (si_server_name si) @ string_words ''max_file_size'' (si_max_file_size si)
     @ string_words ''error_page'' (si_error_page si) @ string_words ''host'' (si_host si)
     @ string_words ''time_out'' (si_time_out si) @ list_words ''cgi_file_types'' (si_cgi_file_types si)
     @ concat (map location_words (si_location si)) @ [''}'']"

definition good_string :: "string \<Rightarrow> bool" where
  "good_string v \<longleftrightarrow> v = [] \<or> plain_word v"

definition location_printable :: "locati_info \<Rightarrow> bool" where
  "location_printable l \<longleftrightarrow> plain_word (li_location l)
     \<and> list_all good_string [li_auth_basic l, li_auth_user_file l, li_autoindex l, li_index l,
          li_max_file_size l, li_return_directive l, li_root l]
     \<and> list_all plain_word (li_allowed_method l) \<and> list_all plain_word (li_retour l)"

definition good_port :: "string \<Rightarrow> bool" where
  "good_port v \<longleftrightarrow> list_all isdigit v \<and> 80 \<le> port_number v \<and> port_number v \<le> 65535"

definition server_printable :: "server_info \<Rightarrow> bool" where
  "server_printable si \<longleftrightarrow> si_socket si = 0 \<and> (si_port si = [] \<or> good_port (si_port si))
     \<and> list_all good_string [si_server_name si, si_max_file_size si, si_error_page si, si_host si,
          si_time_out si]
     \<and> list_all plain_word (si_cgi_file_types si) \<and> list_all location_printable (si_location si)"

section \<open>Reading what is printed\<close>

lemma extract_printed:
  "SEMI \<notin> set v \<Longrightarrow> extract_to_string ((v @ [SEMI]) # ifs) = Ret (v, ifs)"
  by (auto simp: extract_to_string_def stops_def bad_stop_def filter_empty_conv)

lemma vector_words_printed:
  "list_all plain_word ws \<Longrightarrow> ws \<noteq> [] \<Longrightarrow>
     vector_words (hd (butlast ws @ [last ws @ [SEMI]])) (tl (butlast ws @ [last ws @ [SEMI]]) @ ifs) v
       = Some (Ret (v @ ws, ifs))"
proof (induction ws arbitrary: v)
  case (Cons w ws)
  show ?case
  proof (cases ws)
    case Nil
    with Cons.prems show ?thesis
      by (auto simp: vector_words.simps [of "w @ [SEMI]"] stops_def bad_stop_def plain_word_def
          filter_empty_conv)
  next
    case (Cons w' ws')
    with Cons.prems have "vector_words w (butlast ws @ [last ws @ [SEMI]] @ ifs) v
        = vector_words (hd (butlast ws @ [last ws @ [SEMI]])) (tl (butlast ws @ [last ws @ [SEMI]]) @ ifs) (v @ [w])"
      by (cases "butlast ws") (auto simp: vector_words.simps [of w] stops_def plain_word_def)
    with Cons.IH [of "v @ [w]"] Cons.prems Cons show ?thesis by simp
  qed
qed simp

lemma extract_vector_printed:
  "list_all plain_word ws \<Longrightarrow> ws \<noteq> [] \<Longrightarrow>
     extract_to_vector (butlast ws @ (last ws @ [SEMI]) # ifs) v = Some (Ret (v @ ws, ifs))"
  using vector_words_printed [of ws ifs v]
  by (cases "butlast ws @ (last ws @ [SEMI]) # ifs") (auto simp: extract_to_vector_def append_eq_Cons_conv hd_append tl_append split: list.splits)

lemma valid_port_printed:
  assumes "good_port v"
  shows "valid_port ((v @ [SEMI]) # ifs) si = Ret (si\<lparr>si_port := v\<rparr>, ifs)"
proof -
  have d: "\<forall>c\<in>set v. isdigit c" "\<not> isdigit SEMI" "SEMI \<notin> set v"
    using assms by (auto simp: good_port_def list_all_iff isdigit_def digit_value_def)
  then have "takeWhile isdigit (v @ [SEMI]) = takeWhile isdigit v"
    by (simp add: takeWhile_eq_all_conv [THEN iffD2])
  then have n: "port_number (v @ [SEMI]) = port_number v" by (simp add: port_number_def)
  with assms have "atoi_port (v @ [SEMI]) = Ret (port_number v)"
    by (simp add: atoi_port_def good_port_def int32_def)
  with d assms show ?thesis
    by (auto simp: valid_port_def stops_def bad_stop_def good_port_def filter_empty_conv)
qed

text \<open>The loops from a stream whose next word is there.\<close>

fun loca_on :: "string list \<Rightarrow> locati_info \<Rightarrow> (locati_info \<times> string list) res option" where
  "loca_on [] l = None"
| "loca_on (w # ifs) l = loca_loop w 1 ifs l"

fun serv_on :: "string list \<Rightarrow> server_info \<Rightarrow> (server_info \<times> string list) res option" where
  "serv_on [] si = None"
| "serv_on (w # ifs) si = serv_loop w 1 ifs si"

lemma loca_string:
  assumes "rest \<noteq> []" "\<And>ifs l. loca_directive key ifs l = store_string put ifs l" "key \<noteq> ''}''" "key \<noteq> ''{''" "good_string v"
  shows "loca_on (string_words key v @ rest) l = loca_on rest (if v = [] then l else put v l)"
  using assms by (cases rest) (auto simp: string_words_def good_string_def plain_word_def store_string_def
      extract_printed loca_loop.simps [of key])

lemma serv_string:
  assumes "rest \<noteq> []" "\<And>ifs l. serv_directive key ifs l = store_string put ifs l" "key \<noteq> ''}''" "key \<noteq> ''{''" "good_string v"
  shows "serv_on (string_words key v @ rest) l = serv_on rest (if v = [] then l else put v l)"
  using assms by (cases rest) (auto simp: string_words_def good_string_def plain_word_def store_string_def
      extract_printed serv_loop.simps [of key])

lemma loca_list:
  assumes "rest \<noteq> []" "\<And>ifs l. loca_directive key ifs l = store_vector put (old l) ifs l" "key \<noteq> ''}''" "key \<noteq> ''{''"
    "list_all plain_word vs"
  shows "loca_on (list_words key vs @ rest) l = loca_on rest (if vs = [] then l else put (old l @ vs) l)"
  using assms by (cases rest) (auto simp: list_words_def store_vector_def extract_vector_printed loca_loop.simps [of key])

lemma serv_list:
  assumes "rest \<noteq> []" "\<And>ifs l. serv_directive key ifs l = store_vector put (old l) ifs l" "key \<noteq> ''}''" "key \<noteq> ''{''"
    "list_all plain_word vs"
  shows "serv_on (list_words key vs @ rest) l = serv_on rest (if vs = [] then l else put (old l @ vs) l)"
  using assms by (cases rest) (auto simp: list_words_def store_vector_def extract_vector_printed serv_loop.simps [of key])

lemma loca_keys:
  "good_string v \<Longrightarrow> rest \<noteq> [] \<Longrightarrow> loca_on (string_words ''auth_basic'' v @ rest) x =
     loca_on rest (if v = [] then x else x\<lparr>li_auth_basic := v\<rparr>)"
  "good_string v \<Longrightarrow> rest \<noteq> [] \<Longrightarrow> loca_on (string_words ''auth_user_file'' v @ rest) x =
     loca_on rest (if v = [] then x else x\<lparr>li_auth_user_file := v\<rparr>)"
  "good_string v \<Longrightarrow> rest \<noteq> [] \<Longrightarrow> loca_on (string_words ''autoindex'' v @ rest) x =
     loca_on rest (if v = [] then x else x\<lparr>li_autoindex := v\<rparr>)"
  "good_string v \<Longrightarrow> rest \<noteq> [] \<Longrightarrow> loca_on (string_words ''index'' v @ rest) x =
     loca_on rest (if v = [] then x else x\<lparr>li_index := v\<rparr>)"
  "good_string v \<Longrightarrow> rest \<noteq> [] \<Longrightarrow> loca_on (string_words ''max_file_size'' v @ rest) x =
     loca_on rest (if v = [] then x else x\<lparr>li_max_file_size := v\<rparr>)"
  "good_string v \<Longrightarrow> rest \<noteq> [] \<Longrightarrow> loca_on (string_words ''return_directive'' v @ rest) x =
     loca_on rest (if v = [] then x else x\<lparr>li_return_directive := v\<rparr>)"
  "good_string v \<Longrightarrow> rest \<noteq> [] \<Longrightarrow> loca_on (string_words ''root'' v @ rest) x =
     loca_on rest (if v = [] then x else x\<lparr>li_root := v\<rparr>)"
  "list_all plain_word vs \<Longrightarrow> rest \<noteq> [] \<Longrightarrow> loca_on (list_words ''allowed_method'' vs @ rest) x =
     loca_on rest (if vs = [] then x else x\<lparr>li_allowed_method := li_allowed_method x @ vs\<rparr>)"
  "list_all plain_word vs \<Longrightarrow> rest \<noteq> [] \<Longrightarrow> loca_on (list_words ''return'' vs @ rest) x =
     loca_on rest (if vs = [] then x else x\<lparr>li_retour := li_retour x @ vs\<rparr>)"
  by (subst loca_string loca_list; simp add: loca_directive_def)+

lemma serv_keys:
  "good_string v \<Longrightarrow> rest \<noteq> [] \<Longrightarrow> serv_on (string_words ''server_name'' v @ rest) x =
     serv_on rest (if v = [] then x else x\<lparr>si_server_name := v\<rparr>)"
  "good_string v \<Longrightarrow> rest \<noteq> [] \<Longrightarrow> serv_on (string_words ''max_file_size'' v @ rest) x =
     serv_on rest (if v = [] then x else x\<lparr>si_max_file_size := v\<rparr>)"
  "good_string v \<Longrightarrow> rest \<noteq> [] \<Longrightarrow> serv_on (string_words ''error_page'' v @ rest) x =
     serv_on rest (if v = [] then x else x\<lparr>si_error_page := v\<rparr>)"
  "good_string v \<Longrightarrow> rest \<noteq> [] \<Longrightarrow> serv_on (string_words ''host'' v @ rest) x =
     serv_on rest (if v = [] then x else x\<lparr>si_host := v\<rparr>)"
  "good_string v \<Longrightarrow> rest \<noteq> [] \<Longrightarrow> serv_on (string_words ''time_out'' v @ rest) x =
     serv_on rest (if v = [] then x else x\<lparr>si_time_out := v\<rparr>)"
  "list_all plain_word vs \<Longrightarrow> rest \<noteq> [] \<Longrightarrow> serv_on (list_words ''cgi_file_types'' vs @ rest) x =
     serv_on rest (if vs = [] then x else x\<lparr>si_cgi_file_types := si_cgi_file_types x @ vs\<rparr>)"
  by (subst serv_string serv_list; simp add: serv_directive_def)+

lemma serv_port:
  "v = [] \<or> good_port v \<Longrightarrow> rest \<noteq> [] \<Longrightarrow> serv_on (string_words ''port'' v @ rest) x =
     serv_on rest (if v = [] then x else x\<lparr>si_port := v\<rparr>)"
  by (cases rest) (auto simp: string_words_def serv_loop.simps [of "''port''"] serv_directive_def valid_port_printed)

lemma loca_printed:
  assumes "location_printable l"
  shows "check_loca_part (tl (location_words l) @ rest) si
    = Some (Ret (si\<lparr>si_location := si_location si @ [l]\<rparr>, rest))"
proof -
  have "loca_on (drop 3 (location_words l) @ rest) (locati_info_init\<lparr>li_location := li_location l\<rparr>)
      = Some (Ret (l, rest))"
    using assms by (simp add: location_printable_def location_words_def loca_keys
        loca_loop.simps [of "''}''"] locati_info_init_def)
  then show ?thesis
    by (cases "drop 3 (location_words l) @ rest") (auto simp: check_loca_part_def location_words_def)
qed

lemma serv_location:
  assumes "location_printable l" "rest \<noteq> []"
  shows "serv_on (location_words l @ rest) x = serv_on rest (x\<lparr>si_location := si_location x @ [l]\<rparr>)"
proof -
  have l: "location_words l = ''location'' # tl (location_words l)" by (simp add: location_words_def)
  show ?thesis
    using assms(2) loca_printed [OF assms(1), of rest x]
    by (subst l, cases rest) (simp_all add: serv_loop.simps [of "''location''"] serv_directive_def)
qed

lemma serv_locations:
  "list_all location_printable ls \<Longrightarrow> rest \<noteq> [] \<Longrightarrow>
     serv_on (concat (map location_words ls) @ rest) x = serv_on rest (x\<lparr>si_location := si_location x @ ls\<rparr>)"
  by (induction ls arbitrary: x) (simp_all add: serv_location)

lemma serv_printed:
  assumes "server_printable si"
  shows "check_serv_part (tl (server_words si) @ rest) server_info_init = Some (Ret (si, rest))"
proof -
  have "serv_on (drop 2 (server_words si) @ rest) server_info_init = Some (Ret (si, rest))"
    using assms by (simp add: server_printable_def server_words_def serv_keys serv_port serv_locations
        serv_loop.simps [of "''}''"] server_info_init_def)
  then show ?thesis
    by (cases "drop 2 (server_words si) @ rest") (auto simp: check_serv_part_def server_words_def)
qed

lemma file_printed:
  "list_all server_printable sis \<Longrightarrow>
     file_loop True (concat (map server_words sis) @ rest) acc = file_loop True rest (acc @ sis)"
proof (induction sis arbitrary: acc)
  case Nil
  then show ?case by simp
next
  case (Cons si sis)
  have s: "server_words si = ''server'' # tl (server_words si)" by (simp add: server_words_def)
  from Cons show ?case
    by (simp, subst s, subst file_loop.simps) (simp add: serv_printed)
qed

section \<open>Words\<close>

definition word_list :: "string list \<Rightarrow> bool" where
  "word_list ws \<longleftrightarrow> (\<forall>w\<in>set ws. w \<noteq> [] \<and> (\<forall>c\<in>set w. \<not> isspace c))"

lemma words_from_word:
  "\<forall>c\<in>set w. \<not> isspace c \<Longrightarrow> words_from u (w @ s) = words_from (u @ w) s"
  by (induction w arbitrary: u) auto

lemma words_of_unwords:
  "word_list ws \<Longrightarrow> words_of (concat (map (\<lambda>w. w @ [LF]) ws)) = ws"
proof (induction ws)
  case (Cons w ws)
  then show ?case
    by (auto simp: words_of_def word_list_def words_from_word isspace_def)
qed (simp add: words_of_def)

definition conf_text :: "server_info list \<Rightarrow> string" where
  "conf_text sis = concat (map (\<lambda>w. w @ [LF]) (concat (map server_words sis)))"

lemma word_list_append: "word_list (xs @ ys) \<longleftrightarrow> word_list xs \<and> word_list ys"
  by (auto simp: word_list_def)

lemma word_list_concat: "word_list (concat xss) \<longleftrightarrow> (\<forall>xs\<in>set xss. word_list xs)"
  by (auto simp: word_list_def)

lemma word_list_Cons: "word_list (w # ws) \<longleftrightarrow> w \<noteq> [] \<and> (\<forall>c\<in>set w. \<not> isspace c) \<and> word_list ws"
  by (auto simp: word_list_def)

lemma word_list_Nil: "word_list []"
  by (simp add: word_list_def)

lemma semi_no_space: "\<not> isspace SEMI"
  by (simp add: isspace_def)

lemma digit_plain: "isdigit c \<Longrightarrow> \<not> isspace c" "isdigit c \<Longrightarrow> c \<noteq> SEMI"
  by (auto simp: isdigit_def digit_value_def isspace_def)

lemma good_port_string: "v = [] \<or> good_port v \<Longrightarrow> good_string v"
  using digit_plain by (auto simp: good_port_def good_string_def plain_word_def list_all_iff)

lemma word_list_string:
  "good_string v \<Longrightarrow> word_list [key] \<Longrightarrow> word_list (string_words key v)"
  by (auto simp: string_words_def word_list_def good_string_def plain_word_def semi_no_space)

lemma word_list_list:
  "list_all plain_word vs \<Longrightarrow> word_list [key] \<Longrightarrow> word_list (list_words key vs)"
  by (auto simp: list_words_def word_list_def plain_word_def list_all_iff semi_no_space dest: in_set_butlastD)

lemmas word_lists = word_list_append word_list_concat word_list_Cons word_list_Nil word_list_string word_list_list

lemma word_list_location: "location_printable l \<Longrightarrow> word_list (location_words l)"
  by (simp add: location_printable_def location_words_def word_lists isspace_def plain_word_def)

lemma word_list_server: "server_printable si \<Longrightarrow> word_list (server_words si)"
  by (simp add: server_printable_def server_words_def word_lists isspace_def good_port_string
      word_list_location list_all_iff)

section \<open>Ports\<close>

lemma bind_res_Some:
  "Option.bind m (\<lambda>r. case r of Inl e \<Rightarrow> Some (Inl e) | Inr p \<Rightarrow> k p) = Some (Ret y) \<longleftrightarrow>
     (\<exists>p. m = Some (Ret p) \<and> k p = Some (Ret y))"
  by (cases m) (auto split: sum.splits)

text \<open>Induction over calls that return.\<close>

lemmas vector_words_induct = vector_words.raw_induct [rotated 1, consumes 1, case_names step]

lemmas serv_loop_induct = serv_loop.raw_induct [rotated 1, consumes 1, case_names step]

lemmas file_loop_induct = file_loop.raw_induct [rotated 1, consumes 1, case_names step]

lemma bad_stop_butlast:
  assumes "stops w" "\<not> bad_stop w"
  shows "SEMI \<notin> set (butlast w)" "w = butlast w @ [SEMI]"
proof -
  from assms have "w \<noteq> []" by (auto simp: stops_def)
  with assms(2) show w: "w = butlast w @ [SEMI]"
    by (metis append_butlast_last_id bad_stop_def)
  have "length (filter (\<lambda>c. c = SEMI) (butlast w @ [SEMI])) = 1"
    using assms(2) w unfolding bad_stop_def by metis
  then have "filter (\<lambda>c. c = SEMI) (butlast w) = []" by simp
  then show "SEMI \<notin> set (butlast w)" by (auto simp: filter_empty_conv)
qed

lemma port_number_stop:
  assumes "\<forall>c\<in>set v. isdigit c"
  shows "port_number (v @ [SEMI]) = port_number v"
proof -
  have "\<not> isdigit SEMI" by (simp add: isdigit_def digit_value_def)
  with assms have "takeWhile isdigit (v @ [SEMI]) = takeWhile isdigit v"
    by (simp add: takeWhile_eq_all_conv [THEN iffD2])
  then show ?thesis by (simp add: port_number_def)
qed

definition port_ok :: "server_info \<Rightarrow> bool" where
  "port_ok si \<longleftrightarrow> si_port si = [] \<or> good_port (si_port si)"

lemma atoi_port_Ret: "atoi_port w = Ret n \<longleftrightarrow> int32 n \<and> n = port_number w"
  by (auto simp: atoi_port_def)

lemma valid_port_good:
  assumes "valid_port ifs si = Ret (si', ifs')"
  shows "good_port (si_port si')"
proof -
  obtain got w ifs1 where n: "next_word ifs [] = (got, w, ifs1)" by (metis surj_pair)
  from assms n have w: "\<forall>c\<in>set w. isdigit c \<or> c = SEMI" and p: "80 \<le> port_number w" "port_number w \<le> 65535"
    and c: "si_port si' = w \<and> \<not> stops w \<or> si_port si' = butlast w \<and> stops w \<and> \<not> bad_stop w"
    by (auto simp: valid_port_def rbind_eq_Inr atoi_port_Ret split: if_splits prod.splits)
  from c show ?thesis
  proof (elim disjE conjE)
    assume "si_port si' = w" "\<not> stops w"
    with w p show ?thesis by (auto simp: good_port_def list_all_iff stops_def)
  next
    assume b: "si_port si' = butlast w" "stops w" "\<not> bad_stop w"
    note s = bad_stop_butlast [OF b(2,3)]
    from w s(1) have "\<forall>c\<in>set (butlast w). isdigit c" by (metis in_set_butlastD)
    with p b(1) port_number_stop [OF this] s(2) show ?thesis by (simp add: good_port_def list_all_iff)
  qed
qed

lemma store_port:
  "store_string put ifs si = Some (Ret (si', ifs')) \<Longrightarrow> (\<And>v. si_port (put v si) = si_port si) \<Longrightarrow> si_port si' = si_port si"
  "store_vector putv old ifs si = Some (Ret (si', ifs')) \<Longrightarrow> (\<And>v. si_port (putv v si) = si_port si) \<Longrightarrow> si_port si' = si_port si"
  by (auto simp: store_string_def store_vector_def rbind_eq_Inr bind_eq_Some_conv)

lemma check_loca_port:
  "check_loca_part ifs si = Some (Ret (si', ifs')) \<Longrightarrow> si_port si' = si_port si"
  by (auto simp: check_loca_part_def bind_eq_Some_conv rbind_eq_Inr split: prod.splits if_splits)

lemma serv_directive_port:
  assumes "serv_directive word ifs si = Some (Ret (si', ifs'))" "port_ok si"
  shows "port_ok si'"
proof (cases "word = ''port''")
  case True
  with assms show ?thesis by (auto simp: serv_directive_def port_ok_def dest: valid_port_good)
next
  case False
  with assms(1) have "si_port si' = si_port si"
    by (auto simp: serv_directive_def split: if_splits dest!: store_port check_loca_port)
  with assms(2) show ?thesis by (simp add: port_ok_def)
qed

lemma serv_loop_port:
  "serv_loop word bracket ifs si = Some r \<Longrightarrow> port_ok si \<Longrightarrow> r = Ret (si', ifs') \<Longrightarrow> port_ok si'"
proof (induction arbitrary: si' ifs' rule: serv_loop_induct)
  case (step loop word bracket ifs si r)
  show ?case
  proof (cases "word = ''}'' \<or> bracket = 0")
    case True
    with step(2-4) show ?thesis by auto
  next
    case False
    with step(2) [unfolded step(4) if_not_P [OF False] bind_res_Some] step(4) obtain si1 ifs1 b
      where d: "serv_directive word ifs si = Some (Ret (si1, ifs1))"
      and l: "(case next_word ifs1 word of (_, word, ifs) \<Rightarrow> loop word b ifs si1) = Some r"
      by (cases "count_bracket word bracket") auto
    obtain g w2 ifs2 where n: "next_word ifs1 word = (g, w2, ifs2)" by (metis surj_pair)
    from step(1) [of w2 b ifs2 si1 r] l n serv_directive_port [OF d step(3)] step(4) show ?thesis by simp
  qed
qed

lemma check_serv_port:
  "check_serv_part ifs server_info_init = Some (Ret (si', ifs')) \<Longrightarrow> port_ok si'"
  by (auto simp: check_serv_part_def port_ok_def server_info_init_def
      split: prod.splits if_splits dest!: serv_loop_port)

lemma file_loop_port:
  "file_loop allocated ifs sis = Some r \<Longrightarrow> list_all port_ok sis \<Longrightarrow> r = Ret sis' \<Longrightarrow> list_all port_ok sis'"
proof (induction arbitrary: sis' rule: file_loop_induct)
  case (step loop allocated ifs sis r)
  show ?case
  proof (cases ifs)
    case Nil
    with step(2-4) show ?thesis by simp
  next
    case (Cons w ws)
    show ?thesis
    proof (cases "w = ''server''")
      case False
      with step Cons show ?thesis by (auto split: if_splits)
    next
      case True
      from step(2,4) Cons True have al: "allocated" by (auto split: if_splits)
      from step(2) [unfolded step(4) Cons next_word.simps prod.case True]  al
      have "Option.bind (check_serv_part ws server_info_init) (\<lambda>r. case r of
          Inl e \<Rightarrow> Some (Inl e) | Inr p \<Rightarrow> loop allocated (snd p) (sis @ [fst p])) = Some (Ret sis')"
        by (simp only: if_False if_True not_True_eq_False simp_thms)
      then obtain si ifs1 where "check_serv_part ws server_info_init = Some (Ret (si, ifs1))"
        "loop allocated ifs1 (sis @ [si]) = Some r"
        unfolding bind_res_Some using step(4) by auto
      with step(1) [of allocated ifs1 "sis @ [si]" r] step(3,4) check_serv_port show ?thesis by auto
    qed
  qed
qed

section \<open>A list without an end\<close>

lemma vector_words_open:
  "vector_words word ifs v = Some r \<Longrightarrow> \<not> stops word \<Longrightarrow> list_all (\<lambda>w. \<not> stops w) ifs \<Longrightarrow> False"
proof (induction rule: vector_words_induct)
  case (step loop word ifs v r)
  from step(2-4) show ?case
    by (cases ifs) (auto intro: step(1) [of word "[]" "v @ [word]" r] step(1) [of "hd ifs" "tl ifs" "v @ [word]" r])
qed

lemma extract_to_vector_open:
  assumes "list_all (\<lambda>w. \<not> stops w) ifs"
  shows "extract_to_vector ifs v = None"
proof (rule ccontr)
  assume "extract_to_vector ifs v \<noteq> None"
  then obtain r where "vector_words (fst (snd (next_word ifs []))) (snd (snd (next_word ifs []))) v = Some r"
    by (auto simp: extract_to_vector_def split: prod.splits)
  from vector_words_open [OF this] assms show False by (cases ifs) (auto simp: stops_def)
qed

lemma check_conFile_printed:
  assumes "list_all server_printable sis" "files (c_str path) = Some (conf_text sis)"
  shows "check_conFile files True path = Some (Ret sis)"
proof -
  have "word_list (concat (map server_words sis))"
    using assms(1) by (auto simp: word_list_concat list_all_iff intro: word_list_server)
  then have "words_of (conf_text sis) = concat (map server_words sis)"
    unfolding conf_text_def by (rule words_of_unwords)
  with file_printed [OF assms(1), of "[]" "[]"] assms(2) show ?thesis
    by (simp add: check_conFile_def file_loop.simps [of True "[]"])
qed

lemma check_conFile_port_ok:
  "check_conFile files allocated path = Some (Ret sis) \<Longrightarrow> list_all port_ok sis"
  using file_loop_port [of allocated _ "[]" "Ret sis"] by (auto simp: check_conFile_def split: option.splits)

section \<open>Properties\<close>

text \<open>
  C8. The second server's configuration reader undoes printing: a file that holds the printed form
  of some servers, each word on a line of its own, is read into exactly these servers.
\<close>

theorem check_conFile_roundtrip:
  assumes "list_all server_printable sis" "files (c_str path) = Some (conf_text sis)"
  shows "check_conFile files True path = Some (Ret sis)"
  using assms by (rule check_conFile_printed)

definition sample_info :: server_info where
  "sample_info = server_info_init\<lparr>si_port := ''8080'', si_host := ''127.0.0.1'', si_cgi_file_types := [''.php'', ''.bla''],
     si_location := [locati_info_init\<lparr>li_location := ''/'', li_root := ''www'', li_allowed_method := [''GET'']\<rparr>]\<rparr>"

lemma sample_info_printable: "server_printable sample_info"
  by code_simp

theorem check_conFile_roundtrip_witness:
  "check_conFile (\<lambda>_. Some (conf_text [sample_info])) True ''a.conf'' = Some (Ret [sample_info])"
  by (rule check_conFile_roundtrip) (simp_all add: sample_info_printable)

text \<open>
  C22. Whatever the file holds, a server the reader accepts has no port or one written in digits
  whose number lies between 80 and 65535.
\<close>

theorem check_conFile_ports:
  assumes "check_conFile files allocated path = Some (Ret sis)"
  shows "list_all (\<lambda>si. si_port si = [] \<or> good_port (si_port si)) sis"
  using check_conFile_port_ok [OF assms] by (simp add: port_ok_def [abs_def])

theorem check_conFile_ports_witness:
  "\<exists>sis. check_conFile (\<lambda>_. Some (conf_text [sample_info])) True ''a.conf'' = Some (Ret sis)
     \<and> list_all (\<lambda>si. si_port si = [] \<or> good_port (si_port si)) sis"
proof -
  have "check_conFile (\<lambda>_. Some (conf_text [sample_info])) True ''a.conf'' = Some (Ret [sample_info])"
    by (rule check_conFile_printed) (simp_all add: sample_info_printable)
  from check_conFile_ports [OF this] this show ?thesis by blast
qed

text \<open>
  C38. A list of values that no semicolon closes before the end of the file makes the reader run
  for ever, storing the last word again and again: the reading of the file never returns (the
  vector it fills is taken to grow without end).
\<close>

theorem open_list_never_returns:
  assumes "files (c_str path) = Some text"
    "words_of text = concat (map server_words sis) @ [''server'', ''{''] @ string_words ''port'' p
       @ ''cgi_file_types'' # ws"
    "list_all server_printable sis" "p = [] \<or> good_port p" "list_all (\<lambda>w. SEMI \<notin> set w) ws"
  shows "check_conFile files True path = None"
proof -
  have v: "extract_to_vector ws v = None" for v
    using assms(5) by (intro extract_to_vector_open) (simp add: stops_def)
  have "serv_on (string_words ''port'' p @ ''cgi_file_types'' # ws) server_info_init = None"
    using assms(4) v by (simp add: serv_port serv_loop.simps [of "''cgi_file_types''"] serv_directive_def
        store_vector_def)
  then have "check_serv_part (''{'' # string_words ''port'' p @ ''cgi_file_types'' # ws) server_info_init = None"
    by (cases "string_words ''port'' p @ ''cgi_file_types'' # ws") (auto simp: check_serv_part_def)
  with assms(1,2) file_printed [OF assms(3), of "''server'' # ''{'' # string_words ''port'' p @ ''cgi_file_types'' # ws" "[]"]
  show ?thesis by (simp add: check_conFile_def file_loop.simps [of True "''server'' # _"])
qed

lemma open_words:
  "words_of ''server { cgi_file_types .php .bla }''
     = [''server'', ''{'', ''cgi_file_types'', ''.php'', ''.bla'', ''}'']"
  by code_simp

theorem open_list_never_returns_witness:
  "check_conFile (\<lambda>_. Some ''server { cgi_file_types .php .bla }'') True ''a.conf'' = None"
  by (rule open_list_never_returns [where sis = "[]" and p = "[]" and ws = "[''.php'', ''.bla'', ''}'']"])
    (rule refl, simp only: open_words string_words_def, simp, simp_all)

section \<open>Reading a number\<close>

text \<open>\<^verbatim>\<open>std::atoi\<close>; a value out of the range of \<^verbatim>\<open>int\<close> is undefined.\<close>

definition c_atoi :: "string \<Rightarrow> int res" where
  "c_atoi s =
     (let s = dropWhile isspace (c_str s);
          n = port_number (if take 1 s \<in> {''-'', ''+''} then tl s else s);
          n = (if take 1 s = ''-'' then - n else n)
      in if int32 n then Ret n else Throw (Undef ''atoi''))"

end
