(* ===== verification/ATClientHandler.thy ===== *)
theory ATClientHandler
  imports ConfigChecker CheckFunctions System
begin

text \<open>
  \<^verbatim>\<open>ATwebserv/client_handler.cpp/.hpp\<close>: the clients of the second server.  The state is the
  map from descriptors to \<^verbatim>\<open>client_info\<close>, a \<open>clients\<close> here.  Of \<^verbatim>\<open>struct_epoll\<close> only
  \<^verbatim>\<open>_event.data.fd\<close> is state the calls depend on; it is the parameter \<open>ev\<close>.  The answer of
  \<^verbatim>\<open>recv\<close> is \<open>None\<close> for -1 and else the bytes, at most \<^verbatim>\<open>MAX_LEN\<close> of them; the answer
  of \<^verbatim>\<open>send\<close> is what it returns.
\<close>

section \<open>State\<close>

abbreviation MAX_LEN :: nat where "MAX_LEN \<equiv> 8192"

record client_info =
  ci_resp :: string
  ci_rqst :: string
  ci_post_boundary :: string
  ci_rqst_time_start :: int
  ci_cLen :: nat
  ci_time_out :: int

definition client_info_init :: client_info where
  "client_info_init = \<lparr>ci_resp = [], ci_rqst = [], ci_post_boundary = [],
     ci_rqst_time_start = 0, ci_cLen = 0, ci_time_out = 0\<rparr>"

type_synonym clients = "(int \<times> client_info) list"

text \<open>\<^verbatim>\<open>clients[fd]\<close> as a value, and an assignment to it or to a part of it.\<close>

definition client_of :: "int \<Rightarrow> clients \<Rightarrow> client_info" where
  "client_of fd m = map_at client_info_init fd m"

definition upd_client :: "int \<Rightarrow> (client_info \<Rightarrow> client_info) \<Rightarrow> clients \<Rightarrow> clients" where
  "upd_client fd f m = map_put fd (f (client_of fd m)) m"

section \<open>Recognising the end of a request\<close>

text \<open>\<^verbatim>\<open>ss >> n\<close> for a \<^verbatim>\<open>size_t\<close>: 0 when there is no numeral, the largest value on overflow.\<close>

definition read_size :: "string \<Rightarrow> nat" where
  "read_size s =
     (let s = dropWhile isspace s;
          neg = take 1 s = ''-'';
          s = (if take 1 s \<in> {''-'', ''+''} then tl s else s);
          n = nat (port_number s)
      in if 2 ^ 64 \<le> n then 2 ^ 64 - 1 else if neg \<and> n \<noteq> 0 then 2 ^ 64 - n else n)"

definition rfind_sub :: "string \<Rightarrow> string \<Rightarrow> pos" where
  "rfind_sub s pat =
     map_option (\<lambda>k. length s - length pat - k) (find_sub_idx (rev pat) (rev s))"

definition length_field :: "string \<Rightarrow> nat option" where
  "length_field rqst =
     (case find_sub rqst ''Content-Length: '' (Some 0) of
        None \<Rightarrow> None
      | Some p \<Rightarrow>
          let tmp = drop (p + 16) rqst
          in Some (read_size (case find_sub tmp CRLF (Some 0) of None \<Rightarrow> tmp | Some e \<Rightarrow> take e tmp)))"

text \<open>What both functions do with the announced length.\<close>

definition set_length :: "client_info \<Rightarrow> client_info" where
  "set_length client =
     (case length_field (ci_rqst client) of
        None \<Rightarrow> client
      | Some n \<Rightarrow>
          let client = client\<lparr>ci_cLen := n\<rparr>
          in if MAX_LEN < n then client\<lparr>ci_rqst := ''CHUNK'' @ drop 4 (ci_rqst client)\<rparr> else client)"

definition set_boundary :: "client_info \<Rightarrow> client_info res" where
  "set_boundary client =
     (case find_sub (ci_rqst client) ''boundary='' (Some 0) of
        None \<Rightarrow> Ret client
      | Some p \<Rightarrow>
          let boundary_pos = Some (p + 11)
          in rbind (substr (ci_rqst client) boundary_pos
                      (pos_diff (find_first_of (ci_rqst client) CR boundary_pos) boundary_pos))
               (\<lambda>b. Ret (client\<lparr>ci_post_boundary := b\<rparr>)))"

definition unmark :: "client_info \<Rightarrow> client_info" where
  "unmark client =
     (if take 5 (ci_rqst client) = ''CHUNK''
      then client\<lparr>ci_rqst := ''POST'' @ drop 5 (ci_rqst client)\<rparr> else client)"

text \<open>
  In the branch for a known length \<^verbatim>\<open>tmp\<close> is empty, so the cut that compares with its length
  never happens.
\<close>

definition is_chunked_rqst_fulfilled :: "client_info \<Rightarrow> (bool \<times> client_info) res" where
  "is_chunked_rqst_fulfilled client =
     rbind (if ci_post_boundary client = [] then set_boundary client else Ret client) (\<lambda>client.
     if ci_cLen client \<noteq> 0 \<and> ci_cLen client \<le> length (ci_rqst client)
     then Ret (True, unmark client)
     else let client = (if ci_cLen client = 0 then set_length client else client)
          in if contains (ci_rqst client) (''0'' @ CRLF2) then Ret (True, unmark client)
             else Ret (False, client))"

definition is_post_rqst_fulfilled :: "client_info \<Rightarrow> (bool \<times> client_info) res" where
  "is_post_rqst_fulfilled client =
     (let client = client\<lparr>ci_cLen := 0\<rparr>;
          client = (if contains (ci_rqst client) ''Transfer-Encoding: chunked''
                    then client\<lparr>ci_rqst := ''CHUNK'' @ drop 4 (ci_rqst client)\<rparr>
                    else set_length client)
      in if ci_post_boundary client = []
         then rbind (set_boundary client) (\<lambda>client. Ret (False, client))
         else case rfind_sub (ci_rqst client) (ci_post_boundary client) of
                None \<Rightarrow> Ret (False, client)
              | Some p \<Rightarrow>
                  let tmp = take (p + length (c_str (ci_post_boundary client))) (ci_rqst client)
                  in if length tmp < ci_cLen client then Ret (False, client)
                     else Ret (True, unmark client))"

definition fulfilled :: "client_info \<Rightarrow> (bool \<times> client_info) res" where
  "fulfilled client =
     (if take 4 (ci_rqst client) = ''POST'' then is_post_rqst_fulfilled client
      else if take 5 (ci_rqst client) = ''CHUNK'' then is_chunked_rqst_fulfilled client
      else let len = length (ci_rqst client)
           in Ret (4 \<le> len \<and> drop (len - 4) (ci_rqst client) = CRLF2, client))"

definition is_request_fulfilled :: "int \<Rightarrow> clients \<Rightarrow> (bool \<times> clients) res" where
  "is_request_fulfilled client_fd m =
     rbind (fulfilled (client_of client_fd m)) (\<lambda>(b, c). Ret (b, map_put client_fd c m))"

section \<open>Getters and setters\<close>

definition clear_rqst :: "int \<Rightarrow> clients \<Rightarrow> clients" where
  "clear_rqst client_fd = upd_client client_fd (ci_rqst_update (\<lambda>_. []))"

definition rqst_append :: "int \<Rightarrow> string \<Rightarrow> clients \<Rightarrow> clients" where
  "rqst_append client_fd str = upd_client client_fd (ci_rqst_update (\<lambda>r. r @ str))"

definition get_rqst :: "int \<Rightarrow> clients \<Rightarrow> string" where
  "get_rqst client_fd m = ci_rqst (client_of client_fd m)"

definition set_resp :: "int \<Rightarrow> string \<Rightarrow> clients \<Rightarrow> clients" where
  "set_resp fd s = upd_client fd (ci_resp_update (\<lambda>_. s))"

definition no_chunk :: "int \<Rightarrow> clients \<Rightarrow> bool" where
  "no_chunk fd m \<longleftrightarrow> ci_rqst (client_of fd m) = [] \<and> ci_resp (client_of fd m) = []"

section \<open>Adding, removing and timing clients\<close>

definition at_close :: "int \<Rightarrow> unit io" where
  "at_close fd =
     io_bind (call os_ok (Sys_Close fd)) (\<lambda>ok.
     if ok then io_return () else io_throw (Runtime_Error ''CLOSE FAILLED (client_handler::remove)''))"

definition remove_fd :: "int \<Rightarrow> int \<Rightarrow> clients \<Rightarrow> clients io" where
  "remove_fd ev fd m =
     io_bind (call os_ok (Sys_Epoll_Ctl EPOLL_CTL_DEL fd ev)) (\<lambda>_.
     io_bind (at_close fd) (\<lambda>_. io_return (map_erase fd m)))"

text \<open>\<^verbatim>\<open>remove\<close>, which nothing calls, takes the descriptor from the event.\<close>

definition remove_event :: "int \<Rightarrow> int list \<Rightarrow> nat \<Rightarrow> clients \<Rightarrow> clients io" where
  "remove_event ev events i m = remove_fd ev (events ! i) m"

text \<open>
  The iterator of the loop points to the entry that a time-out erases, and the loop increments
  it then.  The line it logs for a time-out asks for the time again.
\<close>

fun timeout_loop :: "int \<Rightarrow> clients \<Rightarrow> unit io" where
  "timeout_loop ev [] = io_return ()"
| "timeout_loop ev ((fd, c) # m) =
     io_bind (call os_time Sys_Time) (\<lambda>now.
     if now - ci_rqst_time_start c > ci_time_out c
     then io_bind (call os_time Sys_Time) (\<lambda>_.
          io_bind (call os_ok (Sys_Epoll_Ctl EPOLL_CTL_DEL fd ev)) (\<lambda>_.
          io_bind (at_close fd) (\<lambda>_. io_throw (Undef ''iterator of an erased entry''))))
     else timeout_loop ev m)"

definition check_all_timeout :: "int \<Rightarrow> clients \<Rightarrow> clients io" where
  "check_all_timeout ev m = io_bind (timeout_loop ev m) (\<lambda>_. io_return m)"

definition start_timer :: "int \<Rightarrow> int \<Rightarrow> clients \<Rightarrow> clients io" where
  "start_timer fd time_out m =
     io_bind (call os_time Sys_Time) (\<lambda>now. io_return
       (upd_client fd (\<lambda>c. c\<lparr>ci_time_out := time_out, ci_rqst_time_start := now\<rparr>) m))"

text \<open>\<open>add\<close> leaves the new descriptor in \<^verbatim>\<open>_event.data.fd\<close>.\<close>

definition at_add :: "int \<Rightarrow> int \<Rightarrow> clients \<Rightarrow> (int \<times> clients) io" where
  "at_add server_fd time_out m =
     io_bind (call os_fd (Sys_Accept4 server_fd)) (\<lambda>client_fd.
     if client_fd < 0 then io_throw (Runtime_Error ''ERROR IN SOCKET ATTRIBUTION'')
     else io_bind (call os_ok (Sys_Setsockopt client_fd)) (\<lambda>_.
          io_bind (call os_ok (Sys_Fcntl client_fd)) (\<lambda>ok.
          if \<not> ok then io_throw (Exit 1)
          else io_bind (call os_ok (Sys_Epoll_Ctl EPOLL_CTL_ADD client_fd client_fd)) (\<lambda>ok.
               if \<not> ok then io_throw (Runtime_Error ''ERROR IN EPOLL_CTL MANIPULATION'')
               else io_bind (start_timer client_fd time_out m) (\<lambda>m. io_return (client_fd, m))))))"

definition time_reset :: "int \<Rightarrow> int \<Rightarrow> clients \<Rightarrow> clients io" where
  "time_reset time_out fd m =
     (if map_of m fd \<noteq> None then start_timer fd time_out m else io_return m)"

definition rearm :: "int \<Rightarrow> int \<Rightarrow> int \<Rightarrow> clients \<Rightarrow> clients io" where
  "rearm ev time_out fd m =
     io_bind (call os_ok (Sys_Epoll_Ctl EPOLL_CTL_MOD fd ev)) (\<lambda>ok.
     if \<not> ok then io_throw (Runtime_Error ''ERROR IN EPOLL_CTL MANIPULATION'')
     else start_timer fd time_out m)"

section \<open>Answers and requests in pieces\<close>

definition fill_resp :: "int \<Rightarrow> string \<Rightarrow> clients \<Rightarrow> clients" where
  "fill_resp fd base m =
     (case find_sub base ''Content-Length'' (Some 0) of
        Some p \<Rightarrow>
          let rest = (case find_sub (drop p base) CRLF (Some 0) of
                        None \<Rightarrow> [] | Some e \<Rightarrow> drop (p + e) base)
          in set_resp fd (take p base @ ''Connection: keep-alive'' @ CRLF
               @ ''Transfer-Encoding: chunked'' @ rest) m
      | None \<Rightarrow>
          (case find_sub base CRLF2 (Some 0) of
             None \<Rightarrow> set_resp fd base m
           | Some p \<Rightarrow> set_resp fd (take p base @ CRLF @ ''Connection: keep-alive'' @ CRLF
               @ ''Transfer-Encoding: chunked'' @ CRLF2 @ drop (p + 4) base) m))"

text \<open>\<^verbatim>\<open>recv\<close> and the end of the request: whether it is complete now.\<close>

definition chunked_rqst :: "int \<Rightarrow> clients \<Rightarrow> (bool \<times> clients) io" where
  "chunked_rqst fd m =
     io_bind (call os_data (Sys_Recv fd)) (\<lambda>answer.
     io_bind (case answer of
                None \<Rightarrow> io_return m
              | Some str \<Rightarrow> let m = rqst_append fd str m
                             in time_reset (ci_time_out (client_of fd m)) fd m) (\<lambda>m.
     io_of (is_request_fulfilled fd m)))"

text \<open>\<^verbatim>\<open>sprintf\<close> with \<^verbatim>\<open>%lx\<close>.\<close>

definition hex_char :: "nat \<Rightarrow> char" where
  "hex_char d = (if d < 10 then char_of (48 + d) else char_of (87 + d))"

fun hex_str :: "nat \<Rightarrow> string" where
  "hex_str n = (if n < 16 then [hex_char n] else hex_str (n div 16) @ [hex_char (n mod 16)])"

declare hex_str.simps [simp del]

text \<open>
  A \<^verbatim>\<open>send\<close> that fails clears the answer and ends the transfer, \<open>True\<close>; how many bytes
  another one took is not looked at.
\<close>

definition send_or_clear :: "int \<Rightarrow> string \<Rightarrow> clients \<Rightarrow> (clients \<Rightarrow> (bool \<times> clients) io) \<Rightarrow> (bool \<times> clients) io" where
  "send_or_clear fd tmp m k =
     io_bind (call os_count (Sys_Send fd tmp)) (\<lambda>n.
     if n = -1 then io_return (True, set_resp fd [] m) else k m)"

definition reset_of :: "int \<Rightarrow> clients \<Rightarrow> clients io" where
  "reset_of fd m = time_reset (ci_time_out (client_of fd m)) fd m"

definition send_head :: "int \<Rightarrow> clients \<Rightarrow> (clients \<Rightarrow> (bool \<times> clients) io) \<Rightarrow> (bool \<times> clients) io" where
  "send_head fd m k =
     (let resp = ci_resp (client_of fd m)
      in if take 4 resp = ''HTTP''
         then let pos = pos_add (find_sub resp CRLF2 (Some 0)) 4
              in io_bind (io_of (substr resp (Some 0) pos)) (\<lambda>tmp.
                 io_bind (io_of (substr resp pos None)) (\<lambda>rest.
                 send_or_clear fd tmp (set_resp fd rest m) (\<lambda>m. io_bind (reset_of fd m) k)))
         else k m)"

definition send_chunk :: "int \<Rightarrow> clients \<Rightarrow> (bool \<times> clients) io" where
  "send_chunk fd m =
     (let resp = ci_resp (client_of fd m);
          size = hex_str (length (take MAX_LEN resp))
      in if MAX_LEN < length resp
         then send_or_clear fd (size @ CRLF @ take MAX_LEN resp @ CRLF)
                (set_resp fd (drop MAX_LEN resp) m) (\<lambda>m.
              io_bind (reset_of fd m) (\<lambda>m. io_return (False, m)))
         else send_or_clear fd (size @ CRLF @ resp) m (\<lambda>m.
              send_or_clear fd (''0'' @ CRLF2) (set_resp fd [] (clear_rqst fd m)) (\<lambda>m.
              io_bind (reset_of fd m) (\<lambda>m. io_return (True, m)))))"

definition chunked_resp :: "int \<Rightarrow> clients \<Rightarrow> (bool \<times> clients) io" where
  "chunked_resp fd m = send_head fd m (send_chunk fd)"

text \<open>
  \<open>handle_chunks\<close> goes through the clients in the order of the map; a client whose answer is
  finished is erased from it, and the loop increments an iterator of an erased entry.
\<close>

fun chunks_loop :: "int \<Rightarrow> int list \<Rightarrow> clients \<Rightarrow> (int list \<times> clients) io" where
  "chunks_loop ev [] m = io_return ([], m)"
| "chunks_loop ev (fd # fds) m =
     (if ci_rqst (client_of fd m) \<noteq> []
      then io_bind (chunked_rqst fd m) (\<lambda>(done, m).
           if done
           then io_bind (chunks_loop ev fds m) (\<lambda>(ret, m). io_return (fd # ret, m))
           else io_bind (rearm ev (ci_time_out (client_of fd m)) fd m) (chunks_loop ev fds))
      else if ci_resp (client_of fd m) \<noteq> []
      then io_bind (chunked_resp fd m) (\<lambda>(done, m).
           if done
           then io_bind (remove_fd ev fd m) (\<lambda>_. io_throw (Undef ''iterator of an erased entry''))
           else chunks_loop ev fds m)
      else chunks_loop ev fds m)"

definition handle_chunks :: "int \<Rightarrow> clients \<Rightarrow> (int list \<times> clients) io" where
  "handle_chunks ev m = chunks_loop ev (map fst m) m"


section \<open>Searching backwards\<close>

lemma rfind_sub_ge:
  assumes "s = xs @ b @ ys"
  shows "\<exists>p. rfind_sub s b = Some p \<and> length xs \<le> p"
proof -
  let ?s = "rev ys @ rev b @ rev xs"
  have r: "rev s = ?s" using assms by simp
  have "sublist (rev b) ?s" by (simp add: sublist_appendI)
  then obtain k where k: "find_sub_idx (rev b) ?s = Some k"
    using find_sub_idx_None_iff [of "rev b" ?s] by auto
  have "k \<le> length ys"
  proof (rule ccontr)
    assume "\<not> k \<le> length ys"
    then have "\<not> prefix (rev b) (drop (length ys) ?s)"
      using find_sub_idx_minimal [OF k, of "length ys"] by simp
    then show False by simp
  qed
  then show ?thesis by (simp add: rfind_sub_def r k) (simp add: assms)
qed

section \<open>Hexadecimal sizes\<close>

lemma of_hex_char: "n < 16 \<Longrightarrow> (of_char (hex_char n) :: nat) = (if n < 10 then 48 + n else 87 + n)"
  by (simp add: hex_char_def)

lemma hex_char_val:
  assumes "n < 16"
  shows "hex_val (hex_char n) = int n \<and> hex_char n \<noteq> CR"
proof
  show "hex_val (hex_char n) = int n"
    using assms by (simp add: hex_val_def schar_def of_hex_char Let_def)
  have "(of_char (hex_char n) :: nat) \<noteq> of_char CR" using assms by (simp add: of_hex_char)
  then show "hex_char n \<noteq> CR" by metis
qed

lemma hex_str_no_CR: "CR \<notin> set (hex_str n)"
proof (induction n rule: hex_str.induct)
  case (1 n)
  then show ?case using hex_char_val [of n] hex_char_val [of "n mod 16"]
    by (subst hex_str.simps) auto
qed

lemma hex_value_hex_str: "hex_value (hex_str n) = int n"
proof (induction n rule: hex_str.induct)
  case (1 n)
  show ?case
  proof (cases "n < 16")
    case True
    then show ?thesis using hex_char_val [of n] by (simp add: hex_str.simps [of n] hex_value_def)
  next
    case False
    with 1 hex_char_val [of "n mod 16"] show ?thesis
      by (simp add: hex_str.simps [of n] hex_value_snoc) (simp add: zdiv_int zmod_int)
  qed
qed

interpretation hexadecimal: codec hex_str "nat \<circ> hex_value" "\<lambda>_. True"
  by unfold_locales (simp add: hex_value_hex_str)

section \<open>One entry of the map\<close>

lemma client_of_upd [simp]:
  "sorted_map m \<Longrightarrow> client_of j (upd_client fd f m) = (if j = fd then f (client_of fd m) else client_of j m)"
  by (simp add: client_of_def upd_client_def map_at_put)

lemma client_of_put [simp]:
  "sorted_map m \<Longrightarrow> client_of j (map_put fd c m) = (if j = fd then c else client_of j m)"
  by (simp add: client_of_def map_at_put)

lemma sorted_upd [simp]: "sorted_map m \<Longrightarrow> sorted_map (upd_client fd f m)"
  by (simp add: upd_client_def sorted_map_put)

lemma map_of_upd [simp]:
  "sorted_map m \<Longrightarrow> map_of (upd_client fd f m) = (map_of m)(fd \<mapsto> f (client_of fd m))"
  by (simp add: upd_client_def map_of_map_put)

lemmas upd_defs = clear_rqst_def rqst_append_def set_resp_def get_rqst_def

section \<open>Chunked answers\<close>

text \<open>What the calls send.\<close>

definition sent :: "history \<Rightarrow> string" where
  "sent u = concat (map (\<lambda>c. case c of Sys_Send fd s \<Rightarrow> s | _ \<Rightarrow> []) u)"

lemma sent_simps [simp]:
  "sent [] = []" "sent (u @ v) = sent u @ sent v" "sent (Sys_Send fd s # u) = s @ sent u"
  "sent (Sys_Time # u) = sent u"
  by (simp_all add: sent_def)

definition sends_work :: "os \<Rightarrow> bool" where
  "sends_work os \<longleftrightarrow> (\<forall>t. os_count os t \<noteq> -1)"

definition chunk_of :: "string \<Rightarrow> string" where
  "chunk_of d = hex_str (length d) @ CRLF @ d @ CRLF"

text \<open>The bytes of an answer without its head, as the server cuts it.\<close>

fun chunks_of :: "string \<Rightarrow> string" where
  "chunks_of body =
     (if MAX_LEN < length body then chunk_of (take MAX_LEN body) @ chunks_of (drop MAX_LEN body)
      else hex_str (length body) @ CRLF @ body @ ''0'' @ CRLF2)"

declare chunks_of.simps [simp del]

text \<open>The calls of \<open>chunked_resp\<close> for one client, at most \<open>n\<close> of them, until it says that it is over.\<close>

fun transfer :: "nat \<Rightarrow> int \<Rightarrow> clients \<Rightarrow> (bool \<times> clients) io" where
  "transfer 0 fd m = io_return (False, m)"
| "transfer (Suc n) fd m = io_bind (chunked_resp fd m) (\<lambda>(over, m).
     if over then io_return (True, m) else transfer n fd m)"

lemma send_or_clear_works:
  "sends_work os \<Longrightarrow> send_or_clear fd s m k os t = k m os (t @ [Sys_Send fd s])"
  by (simp add: send_or_clear_def sends_work_def io_simps)

lemma reset_of_works:
  assumes "map_of m fd \<noteq> None"
  shows "\<exists>now. io_bind (reset_of fd m) k os t = k (upd_client fd (\<lambda>c. c\<lparr>ci_time_out := ci_time_out (client_of fd m),
     ci_rqst_time_start := now\<rparr>) m) os (t @ [Sys_Time])"
  using assms by (auto simp: reset_of_def time_reset_def start_timer_def io_simps)

lemma send_chunk_works:
  assumes "sends_work os" "sorted_map m" "map_of m fd \<noteq> None" "body = ci_resp (client_of fd m)"
  shows "\<exists>m' u. send_chunk fd m os t = (Ret (length body \<le> MAX_LEN, m'), t @ u)
    \<and> sorted_map m' \<and> map_of m' fd \<noteq> None
    \<and> ci_resp (client_of fd m') = (if MAX_LEN < length body then drop MAX_LEN body else [])
    \<and> sent u = (if MAX_LEN < length body then chunk_of (take MAX_LEN body)
                else hex_str (length body) @ CRLF @ body @ ''0'' @ CRLF2)"
proof (cases "MAX_LEN < length body")
  case True
  let ?m = "set_resp fd (drop MAX_LEN body) m"
  have "map_of ?m fd \<noteq> None" using assms(2) by (simp add: set_resp_def)
  from reset_of_works [OF this, of "\<lambda>m. io_return (False, m)" os "t @ [Sys_Send fd (chunk_of (take MAX_LEN body))]"]
    True assms show ?thesis
    by (auto simp: send_chunk_def Let_def send_or_clear_works chunk_of_def io_of_apply set_resp_def
        intro!: exI [of _ "[Sys_Send fd (chunk_of (take MAX_LEN body)), Sys_Time]"])
next
  case False
  let ?m = "set_resp fd [] (clear_rqst fd m)"
  have "map_of ?m fd \<noteq> None" using assms(2) by (simp add: set_resp_def clear_rqst_def)
  from reset_of_works [OF this, of "\<lambda>m. io_return (True, m)" os
      "t @ [Sys_Send fd (hex_str (length body) @ CRLF @ body), Sys_Send fd (''0'' @ CRLF2)]"]
    False assms show ?thesis
    by (auto simp: send_chunk_def Let_def send_or_clear_works io_of_apply set_resp_def clear_rqst_def
        intro!: exI [of _ "[Sys_Send fd (hex_str (length body) @ CRLF @ body), Sys_Send fd (''0'' @ CRLF2), Sys_Time]"])
qed

lemma chunked_resp_works:
  assumes "sends_work os" "sorted_map m" "map_of m fd \<noteq> None" "body = ci_resp (client_of fd m)"
    "take 4 body \<noteq> ''HTTP''"
  shows "\<exists>m' u. chunked_resp fd m os t = (Ret (length body \<le> MAX_LEN, m'), t @ u)
    \<and> sorted_map m' \<and> map_of m' fd \<noteq> None
    \<and> ci_resp (client_of fd m') = (if MAX_LEN < length body then drop MAX_LEN body else [])
    \<and> sent u = (if MAX_LEN < length body then chunk_of (take MAX_LEN body)
                else hex_str (length body) @ CRLF @ body @ ''0'' @ CRLF2)"
proof -
  have "chunked_resp fd m = send_chunk fd m"
    using assms(4,5) by (simp add: chunked_resp_def send_head_def Let_def)
  with send_chunk_works [OF assms(1-4)] show ?thesis by simp
qed

definition no_head :: "string \<Rightarrow> bool" where
  "no_head body \<longleftrightarrow> (\<forall>k. take 4 (drop (k * MAX_LEN) body) \<noteq> ''HTTP'')"

lemma no_head_drop: "no_head body \<Longrightarrow> no_head (drop MAX_LEN body)"
  unfolding no_head_def drop_drop
proof (intro allI)
  fix k assume "\<forall>k. take 4 (drop (k * MAX_LEN) body) \<noteq> ''HTTP''"
  from this [rule_format, of "Suc k"] show "take 4 (drop (k * MAX_LEN + MAX_LEN) body) \<noteq> ''HTTP''"
    by (simp add: add.commute)
qed

lemma transfer_sends:
  assumes "sends_work os" "sorted_map m" "map_of m fd \<noteq> None" "body = ci_resp (client_of fd m)"
    "no_head body" "length body div MAX_LEN < n"
  shows "\<exists>m' u. transfer n fd m os t = (Ret (True, m'), t @ u) \<and> sent u = chunks_of body"
  using assms(2-6)
proof (induction n arbitrary: body m t)
  case (Suc n)
  have "take 4 body \<noteq> ''HTTP''" using Suc.prems(4) [unfolded no_head_def, rule_format, of 0] by simp
  from chunked_resp_works [OF assms(1) Suc.prems(1-3) this, of t] obtain m' u where
    c: "chunked_resp fd m os t = (Ret (length body \<le> MAX_LEN, m'), t @ u)" "sorted_map m'" "map_of m' fd \<noteq> None"
    and r: "ci_resp (client_of fd m') = (if MAX_LEN < length body then drop MAX_LEN body else [])"
    and s: "sent u = (if MAX_LEN < length body then chunk_of (take MAX_LEN body)
                else hex_str (length body) @ CRLF @ body @ ''0'' @ CRLF2)" by blast
  show ?case
  proof (cases "MAX_LEN < length body")
    case True
    then have "length (drop MAX_LEN body) div MAX_LEN < n"
      using Suc.prems(5) le_div_geq [of MAX_LEN "length body"] by simp
    from Suc.IH [OF c(2,3) _ no_head_drop [OF Suc.prems(4)] this, of "t @ u"] r True obtain m2 v where
      "transfer n fd m' os (t @ u) = (Ret (True, m2), t @ u @ v)" "sent v = chunks_of (drop MAX_LEN body)"
      by auto
    with c(1) s True show ?thesis
      by (simp add: io_simps chunks_of.simps [of body])
  next
    case False
    with c(1) s show ?thesis by (simp add: io_simps chunks_of.simps [of body])
  qed
qed simp

section \<open>What a reader of chunks accepts\<close>

inductive well_chunked :: "string \<Rightarrow> string \<Rightarrow> bool" where
  last_chunk: "\<forall>c\<in>set h. hex_digit c \<Longrightarrow> hex_value h = 0 \<Longrightarrow> well_chunked (h @ CRLF2) []"
| next_chunk: "\<forall>c\<in>set h. hex_digit c \<Longrightarrow> hex_value h = int (length d) \<Longrightarrow> d \<noteq> [] \<Longrightarrow> well_chunked s body \<Longrightarrow>
     well_chunked (h @ CRLF @ d @ CRLF @ s) (d @ body)"

lemma hex_digit_no_CR: "\<forall>c\<in>set h. hex_digit c \<Longrightarrow> CR \<notin> set h"
  by (auto simp: hex_digit_def schar_def)

lemma chunk_split:
  assumes "CR \<notin> set a" "CR \<notin> set b" "a @ CR # x = b @ CR # y"
  shows "a = b \<and> x = y"
  using assms
proof (induction a arbitrary: b)
  case Nil
  then show ?case by (cases b) auto
next
  case (Cons c a)
  then show ?case by (cases b) auto
qed

lemma size_line_split:
  assumes "well_chunked (hex_str (length d) @ CRLF @ d @ x) body" "d \<noteq> []"
  shows "\<exists>s b. x = CRLF @ s \<and> body = d @ b \<and> well_chunked s b"
  using assms(1)
proof (cases rule: well_chunked.cases)
  case (last_chunk h)
  then have "hex_str (length d) @ CR # (LF # d @ x) = h @ CR # [LF, CR, LF]" by simp
  from chunk_split [OF hex_str_no_CR hex_digit_no_CR [OF last_chunk(3)] this]
  have "hex_value (hex_str (length d)) = 0" using last_chunk(4) by simp
  with assms(2) show ?thesis by (simp add: hex_value_hex_str)
next
  case (next_chunk h d' s b)
  then have "hex_str (length d) @ CR # (LF # d @ x) = h @ CR # (LF # d' @ CRLF @ s)" by simp
  from chunk_split [OF hex_str_no_CR hex_digit_no_CR [OF next_chunk(3)] this]
  have h: "hex_str (length d) = h" and t: "d @ x = d' @ CRLF @ s" by (blast, blast)
  from h next_chunk(4) have "length d = length d'" by (metis hex_value_hex_str of_nat_eq_iff)
  then have "d = d' \<and> x = CRLF @ s" using t append_eq_append_conv [of d d' x "CRLF @ s"] by blast
  with next_chunk(2,6) show ?thesis by blast
qed

lemma chunks_of_malformed: "body \<noteq> [] \<Longrightarrow> \<not> well_chunked (chunks_of body) b"
proof (induction body arbitrary: b rule: chunks_of.induct)
  case (1 body)
  show ?case
  proof (cases "MAX_LEN < length body")
    case True
    then have d: "take MAX_LEN body \<noteq> []" "drop MAX_LEN body \<noteq> []" by auto
    show ?thesis
    proof
      assume "well_chunked (chunks_of body) b"
      with True have "well_chunked (hex_str (length (take MAX_LEN body)) @ CRLF @ take MAX_LEN body
          @ (CRLF @ chunks_of (drop MAX_LEN body))) b"
        by (subst (asm) chunks_of.simps) (simp add: chunk_of_def)
      from size_line_split [OF this d(1)] 1(1) [OF True d(2)] show False by auto
    qed
  next
    case False
    show ?thesis
    proof
      assume "well_chunked (chunks_of body) b"
      with False have "well_chunked (hex_str (length body) @ CRLF @ body @ (''0'' @ CRLF2)) b"
        by (subst (asm) chunks_of.simps) simp
      from size_line_split [OF this 1(2)] show False by auto
    qed
  qed
qed


section \<open>A form without a boundary\<close>

text \<open>The bytes that \<^verbatim>\<open>recv\<close> gave for a descriptor in the calls \<open>u\<close> made after \<open>t\<close>.\<close>

fun received :: "os \<Rightarrow> int \<Rightarrow> history \<Rightarrow> history \<Rightarrow> string" where
  "received os fd t [] = []"
| "received os fd t (c # u) =
     (if c = Sys_Recv fd then case os_data os (t @ [c]) of None \<Rightarrow> [] | Some s \<Rightarrow> s else [])
     @ received os fd (t @ [c]) u"

lemma received_append: "received os fd t (u @ v) = received os fd t u @ received os fd (t @ u) v"
  by (induction u arbitrary: t) simp_all

text \<open>The calls of \<open>chunked_rqst\<close> for one client, at most \<open>n\<close> of them, until its request is complete.\<close>

fun polls :: "nat \<Rightarrow> int \<Rightarrow> clients \<Rightarrow> (bool \<times> clients) io" where
  "polls 0 fd m = io_return (False, m)"
| "polls (Suc n) fd m = io_bind (chunked_rqst fd m) (\<lambda>(over, m).
     if over then io_return (True, m) else polls n fd m)"

text \<open>
  A POST request, or its first bytes, without \<^verbatim>\<open>boundary=\<close> and without a chunked body, that at no point of
  its arrival announces more than \<^verbatim>\<open>MAX_LEN\<close> bytes.
\<close>

definition plain_post :: "string \<Rightarrow> bool" where
  "plain_post s \<longleftrightarrow> (prefix s ''POST'' \<or> prefix ''POST'' s) \<and> \<not> contains s ''boundary=''
     \<and> \<not> contains s ''Transfer-Encoding: chunked''
     \<and> list_all (\<lambda>p. case length_field p of None \<Rightarrow> True | Some n \<Rightarrow> n \<le> MAX_LEN) (prefixes s)"

lemma contains_prefix: "\<not> contains (s @ x) pat \<Longrightarrow> \<not> contains s pat"
  by (auto simp: contains_sublist sublist_append)

lemma plain_post_prefix:
  assumes "plain_post (s @ x)"
  shows "plain_post s"
proof -
  have "prefix s ''POST'' \<or> prefix ''POST'' s"
    using assms append_prefixD [of s x "''POST''"] prefix_same_cases [of "''POST''" "s @ x" s]
    unfolding plain_post_def by auto
  moreover have "set (prefixes s) \<subseteq> set (prefixes (s @ x))"
    by (auto intro: prefix_order.trans [OF _ prefixI [OF refl]])
  ultimately show ?thesis
    using assms contains_prefix unfolding plain_post_def list_all_iff by blast
qed

lemma post_without_boundary:
  assumes "plain_post (ci_rqst c)" "ci_post_boundary c = []"
  shows "\<exists>c'. fulfilled c = Ret (False, c') \<and> ci_rqst c' = ci_rqst c \<and> ci_post_boundary c' = []
    \<and> (take 4 (ci_rqst c) = ''POST'' \<longrightarrow>
         c' = c\<lparr>ci_cLen := case length_field (ci_rqst c) of None \<Rightarrow> 0 | Some n \<Rightarrow> n\<rparr>)"
proof (cases "take 4 (ci_rqst c) = ''POST''")
  case True
  let ?c = "c\<lparr>ci_cLen := case length_field (ci_rqst c) of None \<Rightarrow> 0 | Some n \<Rightarrow> n\<rparr>"
  have "case length_field (ci_rqst c) of None \<Rightarrow> True | Some n \<Rightarrow> n \<le> MAX_LEN"
    using assms(1) by (simp add: plain_post_def list_all_iff)
  then have "set_length (c\<lparr>ci_cLen := 0\<rparr>) = ?c"
    by (simp add: set_length_def Let_def split: option.splits)
  moreover have "set_boundary ?c = Ret ?c"
    using assms(1) by (simp add: set_boundary_def contains_def plain_post_def)
  ultimately show ?thesis
    using assms True by (simp add: fulfilled_def is_post_rqst_fulfilled_def plain_post_def Let_def)
next
  case False
  then have "\<not> prefix ''POST'' (ci_rqst c)" by (auto simp: prefix_def)
  with assms(1) have "strict_prefix (ci_rqst c) ''POST''" by (auto simp: plain_post_def strict_prefix_def)
  then have short: "length (ci_rqst c) < 4" using prefix_length_less by fastforce
  then have "take 5 (ci_rqst c) \<noteq> ''CHUNK''" by auto
  with False short assms(2) show ?thesis by (simp add: fulfilled_def Let_def)
qed

lemma makes_polls: "makes (\<lambda>_. True) (polls n fd m)"
proof (induction n arbitrary: m)
  case (Suc n)
  have "makes (\<lambda>_. True) (chunked_rqst fd m)"
    unfolding chunked_rqst_def time_reset_def start_timer_def Let_def
    by (auto intro!: makes_intros split: option.split)
  with Suc show ?case by (auto intro!: makes_intros split: prod.split)
qed (simp add: makes_intros)

lemma chunked_rqst_plain:
  assumes "sorted_map m" "ci_post_boundary (client_of fd m) = []"
  shows "\<exists>r u. chunked_rqst fd m os t = (r, t @ u)
    \<and> (plain_post (get_rqst fd m @ received os fd t u)
      \<longrightarrow> (\<exists>m'. r = Ret (False, m') \<and> get_rqst fd m' = get_rqst fd m @ received os fd t u
        \<and> sorted_map m' \<and> ci_post_boundary (client_of fd m') = []))"
proof -
  have ready: "plain_post (get_rqst fd m') \<Longrightarrow> sorted_map m' \<Longrightarrow> ci_post_boundary (client_of fd m') = [] \<Longrightarrow>
      \<exists>m2. is_request_fulfilled fd m' = Ret (False, m2) \<and> get_rqst fd m2 = get_rqst fd m'
        \<and> sorted_map m2 \<and> ci_post_boundary (client_of fd m2) = []" for m'
    using post_without_boundary [of "client_of fd m'"]
    by (auto simp: is_request_fulfilled_def get_rqst_def sorted_map_put)
  show ?thesis
  proof (cases "os_data os (t @ [Sys_Recv fd])")
    case None
    with ready [OF _ assms] show ?thesis
      by (auto simp: chunked_rqst_def io_simps intro!: exI [of _ "[Sys_Recv fd]"])
  next
    case (Some str)
    let ?m = "rqst_append fd str m" let ?t = "t @ [Sys_Recv fd]"
    have m: "map_of ?m fd \<noteq> None" "sorted_map ?m" using assms(1) by (simp_all add: rqst_append_def)
    from reset_of_works [OF m(1), of "\<lambda>m. io_of (is_request_fulfilled fd m)" os ?t] obtain now where
      n: "io_bind (reset_of fd ?m) (\<lambda>m. io_of (is_request_fulfilled fd m)) os ?t
        = io_of (is_request_fulfilled fd (upd_client fd (\<lambda>c. c\<lparr>ci_time_out := ci_time_out (client_of fd ?m),
            ci_rqst_time_start := now\<rparr>) ?m)) os (?t @ [Sys_Time])" by blast
    let ?m2 = "upd_client fd (\<lambda>c. c\<lparr>ci_time_out := ci_time_out (client_of fd ?m), ci_rqst_time_start := now\<rparr>) ?m"
    have f: "sorted_map ?m2" "get_rqst fd ?m2 = get_rqst fd m @ str" "ci_post_boundary (client_of fd ?m2) = []"
      using assms by (simp_all add: get_rqst_def rqst_append_def)
    have "chunked_rqst fd m os t = (is_request_fulfilled fd ?m2, t @ [Sys_Recv fd, Sys_Time])"
      using Some n by (simp add: chunked_rqst_def reset_of_def io_simps Let_def)
    moreover have "received os fd t [Sys_Recv fd, Sys_Time] = str" using Some by simp
    ultimately show ?thesis using ready [OF _ f(1,3)] f(2) by (metis (no_types, lifting))
  qed
qed

lemma polls_plain:
  assumes "sorted_map m" "ci_post_boundary (client_of fd m) = []"
  shows "\<exists>r u. polls n fd m os t = (r, t @ u)
    \<and> (plain_post (get_rqst fd m @ received os fd t u)
      \<longrightarrow> (\<exists>m'. r = Ret (False, m') \<and> get_rqst fd m' = get_rqst fd m @ received os fd t u))"
  using assms
proof (induction n arbitrary: m t)
  case (Suc n)
  obtain r u where c: "chunked_rqst fd m os t = (r, t @ u)"
    and p: "plain_post (get_rqst fd m @ received os fd t u)
      \<longrightarrow> (\<exists>m'. r = Ret (False, m') \<and> get_rqst fd m' = get_rqst fd m @ received os fd t u
        \<and> sorted_map m' \<and> ci_post_boundary (client_of fd m') = [])"
    using chunked_rqst_plain [OF Suc.prems] by blast
  show ?case
  proof (cases "plain_post (get_rqst fd m @ received os fd t u)")
    case True
    with p obtain m' where m: "r = Ret (False, m')" "get_rqst fd m' = get_rqst fd m @ received os fd t u"
      "sorted_map m'" "ci_post_boundary (client_of fd m') = []" by blast
    from Suc.IH [OF m(3,4), of "t @ u"] obtain r' v where
      v: "polls n fd m' os (t @ u) = (r', (t @ u) @ v)"
        "plain_post (get_rqst fd m' @ received os fd (t @ u) v) \<longrightarrow> (\<exists>m2. r' = Ret (False, m2)
          \<and> get_rqst fd m2 = get_rqst fd m' @ received os fd (t @ u) v)" by blast
    have "polls (Suc n) fd m os t = (r', t @ (u @ v))" using c m(1) v(1) by (simp add: io_simps)
    with v(2) show ?thesis unfolding m(2) append_assoc received_append [symmetric] by blast
  next
    case False
    have "\<exists>r v. polls (Suc n) fd m os t = (r, (t @ u) @ v)"
    proof (cases r)
      case (Inr p)
      obtain r' t' where q: "polls n fd (snd p) os (t @ u) = (r', t')" by fastforce
      from makesD [OF makes_polls q] obtain v where "t' = (t @ u) @ v" by blast
      with c Inr q show ?thesis by (cases "fst p") (auto simp: io_simps split: prod.splits)
    qed (use c in \<open>simp add: io_simps\<close>)
    then obtain r' v where "polls (Suc n) fd m os t = (r', t @ (u @ v))" by auto
    moreover have "\<not> plain_post (get_rqst fd m @ received os fd t (u @ v))"
      using False plain_post_prefix by (metis append_assoc received_append)
    ultimately show ?thesis by blast
  qed
qed (auto simp: io_simps)

section \<open>Properties\<close>

text \<open>
  C20. A long answer, its head sent before: as long as \<^verbatim>\<open>send\<close> takes everything, the transfer ends after
  one call for each started block of 8192 bytes, and sends the blocks as chunks; but the last chunk is not
  closed by CRLF, so no reader of chunked bodies accepts what is sent.
\<close>

theorem chunked_transfer_malformed:
  assumes "sends_work os" "sorted_map m" "map_of m fd = Some c" "ci_resp c = body" "body \<noteq> []"
    "no_head body" "length body div MAX_LEN < n"
  shows "\<exists>m' u. transfer n fd m os t = (Ret (True, m'), t @ u) \<and> sent u = chunks_of body
    \<and> (\<forall>b. \<not> well_chunked (sent u) b)"
proof -
  have "map_of m fd \<noteq> None" "body = ci_resp (client_of fd m)"
    using assms(3,4) by (simp_all add: client_of_def map_at_def)
  from transfer_sends [OF assms(1,2) this assms(6,7)] chunks_of_malformed [OF assms(5)]
  show ?thesis by metis
qed

definition quiet_os :: os where
  "quiet_os = \<lparr>os_fs = (\<lambda>_. \<lparr>fs_stat = (\<lambda>_. None), fs_uninit = 0\<rparr>), os_ok = (\<lambda>_. True),
     os_fd = (\<lambda>_. 5), os_data = (\<lambda>_. Some []), os_count = (\<lambda>_. 1), os_time = (\<lambda>_. 100),
     os_text = (\<lambda>_. []), os_exit = (\<lambda>_. None), os_ready = (\<lambda>_. None), os_events = (\<lambda>_. [])\<rparr>"

theorem chunked_transfer_malformed_witness:
  "\<exists>m' u. transfer 1 4 [(4, client_info_init\<lparr>ci_resp := ''hello''\<rparr>)] quiet_os [] = (Ret (True, m'), [] @ u)
     \<and> sent u = ''5'' @ CRLF @ ''hello'' @ ''0'' @ CRLF2 \<and> (\<forall>b. \<not> well_chunked (sent u) b)"
proof -
  have h: "no_head ''hello''"
    unfolding no_head_def
  proof (intro allI)
    fix k show "take 4 (drop (k * MAX_LEN) ''hello'') \<noteq> ''HTTP''" by (cases k) simp_all
  qed
  have c: "chunks_of ''hello'' = ''5'' @ CRLF @ ''hello'' @ ''0'' @ CRLF2" by code_simp
  show ?thesis
    by (subst c [symmetric], rule chunked_transfer_malformed [where c = "client_info_init\<lparr>ci_resp := ''hello''\<rparr>"])
      (use h in \<open>simp_all add: sends_work_def quiet_os_def sorted_map_def client_info_init_def\<close>)
qed

text \<open>
  C29. A form without a boundary waits.  Take a client that has no boundary yet, and any number of calls of
  \<^verbatim>\<open>chunked_rqst\<close> for it, whatever the system delivers and in whatever pieces: as long as what has arrived is a
  POST request, or its first bytes, without \<^verbatim>\<open>boundary=\<close> and without \<^verbatim>\<open>Transfer-Encoding: chunked\<close>, that never
  announced more than 8192 bytes, no call says that the request is complete, even when the announced bytes are
  all there; everything received is kept.
\<close>

theorem post_without_boundary_waits:
  assumes "sorted_map m" "ci_post_boundary (client_of fd m) = []"
  shows "\<exists>r u. polls n fd m os t = (r, t @ u)
    \<and> (plain_post (get_rqst fd m @ received os fd t u)
      \<longrightarrow> (\<exists>m'. r = Ret (False, m') \<and> get_rqst fd m' = get_rqst fd m @ received os fd t u))"
  using polls_plain [OF assms] by blast

definition form_line :: string where
  "form_line = ''POST /a'' @ CRLF"

definition form_rest :: string where
  "form_rest = ''Content-Length: 3'' @ CRLF2 @ ''a=b''"

text \<open>A system that delivers the two pieces of a form, and then nothing.\<close>

definition form_os :: os where
  "form_os = quiet_os\<lparr>os_data := (\<lambda>t. if length t = 1 then Some form_line
     else if length t = 3 then Some form_rest else None)\<rparr>"

lemma form_plain: "plain_post (form_line @ form_rest)"
  by (simp add: plain_post_def form_line_def form_rest_def contains_find length_field_def find_sub_0 read_size_def
      isspace_def port_number_def isdigit_def digit_value_def)

lemma form_fulfilled:
  assumes "s = form_line \<or> s = form_line @ form_rest"
  shows "\<exists>n. fulfilled \<lparr>ci_resp = r, ci_rqst = s, ci_post_boundary = [], ci_rqst_time_start = a, ci_cLen = k, ci_time_out = b\<rparr>
    = Ret (False, \<lparr>ci_resp = r, ci_rqst = s, ci_post_boundary = [], ci_rqst_time_start = a, ci_cLen = n, ci_time_out = b\<rparr>)"
proof -
  have "plain_post s" "take 4 s = ''POST''" using assms form_plain plain_post_prefix [OF form_plain]
    by (auto simp: form_line_def)
  with post_without_boundary [of "\<lparr>ci_resp = r, ci_rqst = s, ci_post_boundary = [], ci_rqst_time_start = a, ci_cLen = k, ci_time_out = b\<rparr>"]
  show ?thesis by auto
qed

theorem post_without_boundary_waits_witness:
  "\<exists>m'. polls 4 5 [] form_os [] = (Ret (False, m'), [Sys_Recv 5, Sys_Time, Sys_Recv 5, Sys_Time, Sys_Recv 5, Sys_Recv 5])
    \<and> get_rqst 5 m' = form_line @ form_rest"
proof -
  let ?u = "[Sys_Recv 5, Sys_Time, Sys_Recv 5, Sys_Time, Sys_Recv 5, Sys_Recv 5]"
  let ?s = "form_line @ form_rest"
  let ?c = "\<lambda>s n a. \<lparr>ci_resp = [], ci_rqst = s, ci_post_boundary = [], ci_rqst_time_start = a, ci_cLen = n, ci_time_out = 0\<rparr>"
  obtain n1 where n1: "fulfilled (?c form_line 0 100) = Ret (False, ?c form_line n1 100)" using form_fulfilled by blast
  obtain n2 where n2: "fulfilled (?c ?s n1 100) = Ret (False, ?c ?s n2 100)" using form_fulfilled by blast
  obtain n3 where n3: "fulfilled (?c ?s n2 100) = Ret (False, ?c ?s n3 100)" using form_fulfilled by blast
  obtain n4 where n4: "fulfilled (?c ?s n3 100) = Ret (False, ?c ?s n4 100)" using form_fulfilled by blast
  have "polls 4 5 [] form_os [] = (Ret (False, [(5, ?c ?s n4 100)]), ?u)"
    by (simp add: eval_nat_numeral io_simps chunked_rqst_def form_os_def quiet_os_def rqst_append_def
        upd_client_def client_of_def map_at_def client_info_init_def time_reset_def start_timer_def
        is_request_fulfilled_def n1 n2 n3 n4)
  then have "snd (polls 4 5 [] form_os []) = ?u" by simp
  moreover have "received form_os 5 [] ?u = form_line @ form_rest" by (simp add: form_os_def)
  moreover have "sorted_map ([] :: clients)" "ci_post_boundary (client_of 5 []) = []" "get_rqst 5 [] = []"
    by (simp_all add: sorted_map_def client_of_def map_at_def client_info_init_def get_rqst_def)
  ultimately show ?thesis using post_without_boundary_waits [of "[]" 5 4 form_os "[]"] form_plain by auto
qed

text \<open>
  The announced length is compared with a length that counts the head of the request: a POST request is
  complete as soon as the last occurrence of its boundary, which may be the one in the head, ends behind
  that many bytes; and one larger than 8192 bytes as soon as that many bytes, head included, have arrived.
\<close>

lemma post_head_suffices:
  assumes "ci_post_boundary c = b" "b \<noteq> []" "NUL \<notin> set b"
    "take 4 (ci_rqst c) = ''POST''" "\<not> contains (ci_rqst c) ''Transfer-Encoding: chunked''"
    "length_field (ci_rqst c) = Some n" "n \<le> MAX_LEN"
    "ci_rqst c = xs @ b @ ys" "n \<le> length xs + length b"
  shows "fulfilled c = Ret (True, c\<lparr>ci_cLen := n\<rparr>)"
proof -
  from rfind_sub_ge [OF assms(8)] obtain p where p: "rfind_sub (ci_rqst c) b = Some p" "length xs \<le> p" by blast
  have l: "set_length (c\<lparr>ci_cLen := 0\<rparr>) = c\<lparr>ci_cLen := n\<rparr>"
    using assms(6,7) by (simp add: set_length_def Let_def)
  have "take 5 (ci_rqst c) \<noteq> ''CHUNK''"
  proof
    assume "take 5 (ci_rqst c) = ''CHUNK''"
    then have "take 4 (take 5 (ci_rqst c)) = take 4 ''CHUNK''" by simp
    with assms(4) show False by simp
  qed
  then have u: "unmark (c\<lparr>ci_cLen := n\<rparr>) = c\<lparr>ci_cLen := n\<rparr>" by (simp add: unmark_def)
  have "\<not> length (take (p + length b) (ci_rqst c)) < n" using assms(8,9) p(2) by simp
  with assms(1-5) l u p(1) show ?thesis
    by (simp del: length_take add: fulfilled_def is_post_rqst_fulfilled_def Let_def c_str_id)
qed

lemma chunk_head_counts:
  assumes "ci_post_boundary c \<noteq> []" "take 5 (ci_rqst c) = ''CHUNK''" "ci_cLen c \<noteq> 0"
    "ci_cLen c \<le> length (ci_rqst c)"
  shows "fulfilled c = Ret (True, c\<lparr>ci_rqst := ''POST'' @ drop 5 (ci_rqst c)\<rparr>)"
proof -
  have "take 4 (ci_rqst c) \<noteq> ''POST''"
  proof
    assume "take 4 (ci_rqst c) = ''POST''"
    then have "take 4 (take 5 (ci_rqst c)) = ''POST''" by simp
    with assms(2) show False by simp
  qed
  with assms show ?thesis
    by (simp add: fulfilled_def is_chunked_rqst_fulfilled_def unmark_def)
qed

definition head_only :: "string \<Rightarrow> string" where
  "head_only b = ''POST /a HTTP/1.1'' @ CRLF @ ''Content-Length: 40'' @ CRLF
     @ ''Content-Type: multipart/form-data; boundary=--'' @ b @ CRLF2"

theorem announced_length_counts_head:
  assumes "ci_post_boundary c = b" "b \<noteq> []" "NUL \<notin> set b"
    "take 4 (ci_rqst c) = ''POST'' \<and> \<not> contains (ci_rqst c) ''Transfer-Encoding: chunked''
       \<and> length_field (ci_rqst c) = Some n \<and> n \<le> MAX_LEN \<and> ci_rqst c = xs @ b @ ys \<and> n \<le> length xs + length b
     \<or> take 5 (ci_rqst c) = ''CHUNK'' \<and> ci_cLen c = n \<and> n \<noteq> 0 \<and> n \<le> length (ci_rqst c)"
  shows "\<exists>c'. fulfilled c = Ret (True, c') \<and> ci_cLen c' = n
    \<and> ci_rqst c' \<in> {ci_rqst c, ''POST'' @ drop 5 (ci_rqst c)}"
  using assms(4)
proof (elim disjE conjE)
  assume a: "take 4 (ci_rqst c) = ''POST''" "\<not> contains (ci_rqst c) ''Transfer-Encoding: chunked''"
    "length_field (ci_rqst c) = Some n" "n \<le> MAX_LEN" "ci_rqst c = xs @ b @ ys" "n \<le> length xs + length b"
  from post_head_suffices [OF assms(1-3) a] a(1) show ?thesis by simp
next
  assume a: "take 5 (ci_rqst c) = ''CHUNK''" "ci_cLen c = n" "n \<noteq> 0" "n \<le> length (ci_rqst c)"
  with chunk_head_counts [of c] a assms(1,2) show ?thesis by simp
qed

lemma head_only_facts:
  "take 4 (head_only ''xyz'') = ''POST''" "\<not> contains (head_only ''xyz'') ''Transfer-Encoding: chunked''"
  "length_field (head_only ''xyz'') = Some 40"
  by (simp_all add: head_only_def contains_find length_field_def find_sub_0 read_size_def isspace_def
      port_number_def isdigit_def digit_value_def)

theorem announced_length_counts_head_witness:
  "\<exists>c'. fulfilled (client_info_init\<lparr>ci_rqst := head_only ''xyz'', ci_post_boundary := ''xyz''\<rparr>) = Ret (True, c')
     \<and> ci_cLen c' = 40"
proof -
  let ?xs = "''POST /a HTTP/1.1'' @ CRLF @ ''Content-Length: 40'' @ CRLF @ ''Content-Type: multipart/form-data; boundary=--''"
  let ?c = "client_info_init\<lparr>ci_rqst := head_only ''xyz'', ci_post_boundary := ''xyz''\<rparr>"
  have "ci_rqst ?c = ?xs @ ''xyz'' @ CRLF2" by (simp add: head_only_def)
  moreover have "40 \<le> length ?xs + length ''xyz''" by simp
  ultimately show ?thesis
    using announced_length_counts_head [of ?c "''xyz''" 40 ?xs CRLF2] head_only_facts by auto
qed

text \<open>
  The check for time-outs returns exactly when no client's time is up, and leaves the clients
  alone then.  As soon as one client's time is up, the check goes on with an iterator of the erased
  entry, which is undefined (or throws, when the descriptor cannot be closed).
\<close>

lemma timeout_loop_cases:
  assumes "\<forall>t. os_time os t = now"
  shows "if \<forall>(fd, c)\<in>set m. now - ci_rqst_time_start c \<le> ci_time_out c
    then fst (timeout_loop ev m os t) = Ret ()
    else \<exists>e. fst (timeout_loop ev m os t) = Throw e \<and>
      ((\<forall>t. os_ok os t) \<longrightarrow> e = Undef ''iterator of an erased entry'')"
proof (induction m arbitrary: t)
  case (Cons x m)
  obtain fd c where x: "x = (fd, c)" by (cases x)
  show ?case
  proof (cases "now - ci_rqst_time_start c > ci_time_out c")
    case True
    with assms x show ?thesis by (auto simp: io_simps at_close_def)
  next
    case False
    with Cons.IH [of "t @ [Sys_Time]"] assms x show ?thesis by (auto simp: io_simps split: if_splits)
  qed
qed (simp add: io_simps)

theorem time_out_undefined:
  assumes "\<forall>t. os_time os t = now"
  shows "(fst (check_all_timeout ev m os t) = Ret m \<longleftrightarrow>
       (\<forall>(fd, c)\<in>set m. now - ci_rqst_time_start c \<le> ci_time_out c))
    \<and> ((\<forall>t. os_ok os t) \<longrightarrow> fst (check_all_timeout ev m os t) \<in> {Ret m, Throw (Undef ''iterator of an erased entry'')})"
proof -
  obtain r t' where "timeout_loop ev m os t = (r, t')" by fastforce
  with timeout_loop_cases [OF assms, of m ev t] show ?thesis
    by (auto simp: check_all_timeout_def io_simps split: if_splits)
qed

theorem time_out_undefined_witness:
  "fst (check_all_timeout 3 [(4, client_info_init)] quiet_os []) = Throw (Undef ''iterator of an erased entry'')"
  using time_out_undefined [of quiet_os 100 3 "[(4, client_info_init)]" "[]"]
  by (auto simp: quiet_os_def client_info_init_def)

text \<open>
  A client that closes its connection in the middle of a request stays: \<^verbatim>\<open>recv\<close> returns 0
  for it for ever, every round of \<open>handle_chunks\<close> takes that as new data and starts its time
  afresh, and so the check for time-outs never finds it.
\<close>

lemma client_info_same:
  "ci_rqst_update (\<lambda>r. r) c = c"
  "c\<lparr>ci_time_out := ci_time_out c, ci_rqst_time_start := now\<rparr> = c\<lparr>ci_rqst_time_start := now\<rparr>"
  by simp_all

lemma single_client:
  "client_of fd [(fd, c)] = c" "upd_client fd f [(fd, c)] = [(fd, f c)]"
  by (simp_all add: client_of_def upd_client_def map_at_def)

theorem half_closed_client_stays:
  assumes "\<forall>t. os_data os t = Some []" "\<forall>t. os_time os t = now" "\<forall>t. os_ok os t"
    "ci_rqst c \<noteq> []" "take 4 (ci_rqst c) \<noteq> ''POST''" "take 5 (ci_rqst c) \<noteq> ''CHUNK''"
    "drop (length (ci_rqst c) - 4) (ci_rqst c) \<noteq> CRLF2" "0 \<le> ci_time_out c"
  shows "\<exists>t'. handle_chunks ev [(fd, c)] os t = (Ret ([], [(fd, c\<lparr>ci_rqst_time_start := now\<rparr>)]), t')
    \<and> fst (check_all_timeout ev [(fd, c\<lparr>ci_rqst_time_start := now\<rparr>)] os t') = Ret [(fd, c\<lparr>ci_rqst_time_start := now\<rparr>)]"
proof -
  let ?c = "c\<lparr>ci_rqst_time_start := now\<rparr>"
  have f: "fulfilled ?c = Ret (False, ?c)"
    using assms(5-7) by (auto simp: fulfilled_def Let_def)
  have r: "chunked_rqst fd [(fd, c)] os t = (Ret (False, [(fd, ?c)]), t @ [Sys_Recv fd, Sys_Time])"
    using assms(1,2) by (simp add: chunked_rqst_def io_simps rqst_append_def single_client client_info_same
        time_reset_def start_timer_def is_request_fulfilled_def f del: append_assoc)
  have "handle_chunks ev [(fd, c)] os t = (Ret ([], [(fd, ?c)]),
      t @ [Sys_Recv fd, Sys_Time, Sys_Epoll_Ctl EPOLL_CTL_MOD fd ev, Sys_Time])"
    using assms(2-4) by (simp add: handle_chunks_def single_client io_simps r rearm_def start_timer_def)
  moreover have "fst (check_all_timeout ev [(fd, ?c)] os t') = Ret [(fd, ?c)]" for t'
    using assms(2,8) by (simp add: check_all_timeout_def io_simps)
  ultimately show ?thesis by blast
qed

theorem half_closed_client_stays_witness:
  "\<exists>t'. handle_chunks 4 [(4, client_info_init\<lparr>ci_rqst := ''GET''\<rparr>)] quiet_os []
     = (Ret ([], [(4, client_info_init\<lparr>ci_rqst := ''GET'', ci_rqst_time_start := 100\<rparr>)]), t')"
  using half_closed_client_stays [of quiet_os 100 "client_info_init\<lparr>ci_rqst := ''GET''\<rparr>" 4 4 "[]"]
  by (auto simp: quiet_os_def client_info_init_def)


end
