(* ===== verification/ATRequestHandler.thy ===== *)
theory ATRequestHandler
  imports ConfigChecker System "HOL-Library.Char_ord" "HOL-Library.List_Lexorder"
begin

text \<open>
  \<^verbatim>\<open>ATwebserv/request_handler.cpp/.hpp\<close>: the second server reads a complete request,
  chooses the virtual server and the location that answer it, and writes the answer.
  \<open>_si\<close>, the servers of the configuration, is the parameter \<open>si\<close>.  The map of the
  received fields is a function, empty where there is no entry: the order of its entries is
  seen by nothing but the output to the terminal.  The map of the answer's fields is written
  out in its order, so it is the list of its entries.  A vector is read with \<open>vec_at\<close>: an
  index past its end is undefined.
\<close>

section \<open>State\<close>

record request_handler =
  rq_s_id :: "int option"
  rq_l_id :: int
  rq_hrx :: "string \<Rightarrow> string list"
  rq_htx :: "(string \<times> string list) list"
  rq_status :: "string \<Rightarrow> string option"
  rq_path :: string
  rq_body :: string
  rq_response :: string

definition vec_at :: "'a list \<Rightarrow> int \<Rightarrow> 'a res" where
  "vec_at v i = (if 0 \<le> i \<and> i < int (length v) then Ret (v ! nat i) else Throw (Undef ''vector index''))"

definition set_hrx :: "string \<Rightarrow> string list \<Rightarrow> request_handler \<Rightarrow> request_handler" where
  "set_hrx k v rq = rq\<lparr>rq_hrx := (rq_hrx rq)(k := v)\<rparr>"

definition set_htx :: "string \<Rightarrow> string list \<Rightarrow> request_handler \<Rightarrow> request_handler" where
  "set_htx k v rq = rq\<lparr>rq_htx := map_put k v (rq_htx rq)\<rparr>"

definition htx :: "string \<Rightarrow> request_handler \<Rightarrow> string list" where
  "htx k rq = map_at [] k (rq_htx rq)"

lemma set_hrx_fields [simp]:
  "rq_s_id (set_hrx k v rq) = rq_s_id rq" "rq_l_id (set_hrx k v rq) = rq_l_id rq"
  "rq_hrx (set_hrx k v rq) = (rq_hrx rq)(k := v)" "rq_htx (set_hrx k v rq) = rq_htx rq"
  "rq_status (set_hrx k v rq) = rq_status rq" "rq_path (set_hrx k v rq) = rq_path rq"
  "rq_body (set_hrx k v rq) = rq_body rq" "rq_response (set_hrx k v rq) = rq_response rq"
  by (simp_all add: set_hrx_def)

lemma set_htx_fields [simp]:
  "rq_s_id (set_htx k v rq) = rq_s_id rq" "rq_l_id (set_htx k v rq) = rq_l_id rq"
  "rq_hrx (set_htx k v rq) = rq_hrx rq" "rq_htx (set_htx k v rq) = map_put k v (rq_htx rq)"
  "rq_status (set_htx k v rq) = rq_status rq" "rq_path (set_htx k v rq) = rq_path rq"
  "rq_body (set_htx k v rq) = rq_body rq" "rq_response (set_htx k v rq) = rq_response rq"
  by (simp_all add: set_htx_def)

section \<open>The table of status messages\<close>

text \<open>\<^verbatim>\<open>std::getline\<close> until it fails.\<close>

fun getlines_from :: "string \<Rightarrow> string \<Rightarrow> string list" where
  "getlines_from w [] = (if w = [] then [] else [w])"
| "getlines_from w (c # cs) =
     (if c = LF then w # getlines_from [] cs else getlines_from (w @ [c]) cs)"

definition getlines :: "string \<Rightarrow> string list" where
  "getlines s = getlines_from [] s"

text \<open>
  One line: its first word is the code, what follows up to a tab the message.  When nothing
  follows the word, \<^verbatim>\<open>buf_2\<close> keeps the message of an earlier line.
\<close>

definition status_entry :: "string \<Rightarrow> string \<Rightarrow> string \<times> string" where
  "status_entry line buf_2 =
     (let s = dropWhile isspace line;
          rest = dropWhile (\<lambda>c. \<not> isspace c) s
      in (if s = [] then line else takeWhile (\<lambda>c. \<not> isspace c) s,
          if rest = [] then buf_2 else rest))"

fun status_loop :: "string list \<Rightarrow> string \<Rightarrow> (string \<Rightarrow> string option) \<Rightarrow> (string \<Rightarrow> string option)" where
  "status_loop [] buf_2 status = status"
| "status_loop (line # ls) buf_2 status =
     (if take 1 line \<in> {[], ''#'', [NUL]} then status_loop ls buf_2 status
      else case status_entry line buf_2 of (code, buf_2) \<Rightarrow>
        status_loop ls buf_2 (status(code \<mapsto>
          (case status code of None \<Rightarrow> [] | Some msg \<Rightarrow> msg) @ takeWhile (\<lambda>c. c \<noteq> CHR 0x09) buf_2)))"

definition request_handler_init :: "(string \<Rightarrow> string option) \<Rightarrow> request_handler res" where
  "request_handler_init files =
     (case files ''configuration_files/HTML_status_msg.txt'' of
        None \<Rightarrow> Throw (Runtime_Error ''Unkown file : configuration_files/HTML_error_msg.txt'')
      | Some text \<Rightarrow> Ret \<lparr>rq_s_id = None, rq_l_id = 0, rq_hrx = (\<lambda>_. []), rq_htx = [],
          rq_status = status_loop (getlines text) [] (\<lambda>_. None), rq_path = [], rq_body = [],
          rq_response = []\<rparr>)"

section \<open>Reading a request\<close>

definition push_words :: "string \<Rightarrow> string list \<Rightarrow> request_handler \<Rightarrow> request_handler" where
  "push_words k ws rq = set_hrx k (rq_hrx rq k @ ws) rq"

text \<open>The lines after the first one; a line that starts with CR ends the loop and stores the whole text.\<close>

fun header_lines :: "string \<Rightarrow> string list \<Rightarrow> request_handler \<Rightarrow> request_handler" where
  "header_lines text [] rq = rq"
| "header_lines text (line # ls) rq =
     (if take 1 line = [CR]
      then set_hrx ''BODY'' [(case rq_hrx rq ''BODY'' of [] \<Rightarrow> [] | b # _ \<Rightarrow> b) @ text] rq
      else header_lines text ls
             (case words_of line of [] \<Rightarrow> rq | index # ws \<Rightarrow> push_words index ws rq))"

text \<open>The virtual server: the first with this host and port, else the last one with this port.\<close>

definition set_server_id :: "server_info list \<Rightarrow> request_handler \<Rightarrow> request_handler res" where
  "set_server_id si rq =
     rbind (vec_at (rq_hrx rq ''Host:'') 0) (\<lambda>field.
     let colon_pos = find_first_of field CHR '':'' (Some 0) in
     rbind (substr field (Some 0) colon_pos) (\<lambda>host.
     rbind (substr field (pos_add colon_pos 1) None) (\<lambda>port.
     Ret (case find_idx (\<lambda>s. (si_host s = host \<or> si_server_name s = host) \<and> si_port s = port) si of
            Some i \<Rightarrow> rq\<lparr>rq_s_id := Some (int i)\<rparr>
          | None \<Rightarrow>
              (case find_idx (\<lambda>s. si_port s = port) (rev si) of
                 Some k \<Rightarrow> rq\<lparr>rq_s_id := Some (int (length si - 1 - k))\<rparr>
               | None \<Rightarrow> rq)))))"

definition reader :: "server_info list \<Rightarrow> string \<Rightarrow> request_handler \<Rightarrow> request_handler res" where
  "reader si rqst rq =
     (let text = c_str rqst
      in set_server_id si
           (case getlines text of
              [] \<Rightarrow> rq
            | line # ls \<Rightarrow> header_lines text ls (push_words ''A'' (words_of line) rq)))"

section \<open>Paths\<close>

text \<open>\<^verbatim>\<open>str[i + 1]\<close> at the end of the string is the terminating NUL.\<close>

function clean_from :: "nat \<Rightarrow> string \<Rightarrow> string" where
  "clean_from i s =
     (if length s \<le> i then s
      else if s ! i = SLASH \<and> (s @ [NUL]) ! (i + 1) \<in> {SLASH, NUL} \<and> 1 < length s
      then clean_from i (take i s @ drop (i + 1) s)
      else clean_from (i + 1) s)"
  by pat_completeness auto
termination
  by (relation "measures [\<lambda>(i, s). length s, \<lambda>(i, s). length s - i]") auto

declare clean_from.simps [simp del]

definition clean_url :: "string \<Rightarrow> string" where
  "clean_url s = clean_from 0 s"

section \<open>The fields of the answer\<close>

text \<open>
  \<open>_status.find (code)\<close> as an iterator: dereferencing \<^verbatim>\<open>end ()\<close> is undefined.  From 300
  on the code is written into the error page on the disk.
\<close>

definition gen_startLine :: "string \<Rightarrow> request_handler \<Rightarrow> request_handler io" where
  "gen_startLine code rq =
     (case rq_status rq code of
        None \<Rightarrow> io_throw (Undef ''_status.end ()'')
      | Some msg \<Rightarrow>
          io_bind (io_of (c_atoi code)) (\<lambda>n.
          io_bind (if 300 \<le> n
                   then call os_ok (Sys_Patch_File ''files/error_pages/error_4xx.html'' 1252 (take 3 code))
                   else io_return True) (\<lambda>_.
          io_return (set_htx ''A'' [''HTTP/1.1 '', code, msg @ CRLF] rq))))"

definition gen_date :: "request_handler \<Rightarrow> request_handler io" where
  "gen_date rq =
     io_bind (call os_text Sys_Date) (\<lambda>timestamp.
     io_return (set_htx ''Date'' (htx ''Date'' rq @ [''Date: '' @ timestamp @ CRLF]) rq))"

definition gen_serv :: "request_handler \<Rightarrow> request_handler" where
  "gen_serv rq = set_htx ''Server''
     [''Server: '', (case rq_hrx rq ''Host:'' of [] \<Rightarrow> ''127.0.0.1'' | h # _ \<Rightarrow> h), CRLF] rq"

definition content_type :: "string \<Rightarrow> string" where
  "content_type ext =
     (if ext = ''/'' \<or> ext = ''html'' then ''Content-Type: text/html; charset=utf-8''
      else if ext = ''css'' then ''Content-Type: text/css''
      else if ext \<in> {''ico'', ''png'', ''jpeg'', ''webp'', ''gif'', ''bmp''} then ''Content-Type: image''
      else if ext \<in> {''ogg'', ''wav'', ''midi'', ''mpeg'', ''webm''} then ''Content-Type: audio''
      else if ext \<in> {''ogg'', ''mp4'', ''webm''} then ''Content-Type: video''
      else ''Content-Type: text/html; charset=utf-8'') @ CRLF"

definition gen_CType :: "string \<Rightarrow> request_handler \<Rightarrow> request_handler res" where
  "gen_CType ext rq =
     rbind (if ext \<noteq> [] then Ret ext
            else rbind (vec_at (rq_hrx rq ''A'') 1) (\<lambda>url.
                 substr url (pos_add (find_last_of url CHR ''.'') 1) None)) (\<lambda>ext.
     Ret (set_htx ''Content-Type'' [content_type ext] rq))"

text \<open>The location in force.\<close>

definition cur_server :: "server_info list \<Rightarrow> request_handler \<Rightarrow> server_info res" where
  "cur_server si rq =
     (case rq_s_id rq of None \<Rightarrow> Throw (Undef ''_s_id'') | Some i \<Rightarrow> vec_at si i)"

definition cur_location :: "server_info list \<Rightarrow> request_handler \<Rightarrow> locati_info res" where
  "cur_location si rq = rbind (cur_server si rq) (\<lambda>s. vec_at (si_location s) (rq_l_id rq))"

definition gen_CLength :: "server_info list \<Rightarrow> request_handler \<Rightarrow> request_handler io" where
  "gen_CLength si rq =
     io_bind (if rq_body rq = [] then call os_count (Sys_File_Size (c_str (rq_path rq)))
              else io_return (int (length (rq_body rq)))) (\<lambda>n.
     let rq = set_htx ''Content-Length'' [''Content-Length: '', decimal n, CRLF] rq in
     io_bind (io_of (cur_location si rq)) (\<lambda>l.
     if li_max_file_size l = [] then io_return rq
     else io_bind (io_of (c_atoi (decimal n))) (\<lambda>size.
          io_bind (io_of (c_atoi (li_max_file_size l))) (\<lambda>bound.
          if bound < size then gen_startLine ''413'' rq else io_return rq))))"

section \<open>Choosing the location\<close>

definition root_path :: "locati_info \<Rightarrow> string res" where
  "root_path l =
     (if li_root l = [] then Throw (Undef ''back () of an empty string'')
      else Ret (if last (li_root l) = SLASH then li_root l else li_root l @ [SLASH]))"

text \<open>
  A location with a return directive hands over to the location the directive names last; it
  leaves the path alone when there is none.
\<close>

definition follow_return ::
  "locati_info list \<Rightarrow> locati_info \<Rightarrow> request_handler \<Rightarrow> request_handler io" where
  "follow_return locs l rq =
     (case find_idx (\<lambda>l2. li_location l2 = last (li_retour l)) locs of
        None \<Rightarrow> io_return rq
      | Some j \<Rightarrow>
          io_bind (io_of (vec_at (li_retour l) 1)) (\<lambda>_.
          let code = hd (li_retour l) in
          io_bind (if code \<noteq> [] \<and> (\<forall>c\<in>set code. isdigit c) then gen_startLine code rq
                   else io_return rq) (\<lambda>rq.
          io_bind (io_of (root_path (locs ! j))) (\<lambda>path.
          io_return (rq\<lparr>rq_path := path, rq_l_id := int j\<rparr>)))))"

definition take_location ::
  "locati_info list \<Rightarrow> string \<Rightarrow> nat \<Rightarrow> request_handler \<Rightarrow> request_handler io" where
  "take_location locs uri i rq =
     (let l = locs ! i in
      io_bind (if li_retour l \<noteq> [] then follow_return locs l rq
               else io_bind (io_of (root_path l)) (\<lambda>path.
                    io_return (rq\<lparr>rq_path := path, rq_l_id := int i\<rparr>))) (\<lambda>rq.
      io_bind (io_of (substr uri (Some (length (li_location l))) None)) (\<lambda>rest.
      let rq = rq\<lparr>rq_path := rq_path rq @ rest\<rparr> in
      if length (li_location l) = length uri
      then io_bind (io_of (vec_at locs (rq_l_id rq))) (\<lambda>l2.
           io_return (rq\<lparr>rq_path := rq_path rq @ li_index l2\<rparr>))
      else io_return rq)))"

text \<open>The loop from the last location to the first; \<open>len\<close> is the length of the name chosen so far.\<close>

fun location_loop ::
  "locati_info list \<Rightarrow> string \<Rightarrow> nat \<Rightarrow> nat \<Rightarrow> request_handler \<Rightarrow> request_handler io" where
  "location_loop locs uri 0 len rq = io_return rq"
| "location_loop locs uri (Suc i) len rq =
     (let name = li_location (locs ! i) in
      if prefix name uri \<and> len < length name \<or> len = 0 \<and> i = 0
      then io_bind (take_location locs uri i rq) (location_loop locs uri i (length name))
      else location_loop locs uri i len rq)"

text \<open>
  The result says whether the treatment of the request is over.  The query part is looked for
  in the path just cleared, so it is never cut off.
\<close>

definition resolve_path :: "server_info list \<Rightarrow> request_handler \<Rightarrow> (bool \<times> request_handler) io" where
  "resolve_path si rq =
     io_bind (io_of (vec_at (rq_hrx rq ''A'') 1)) (\<lambda>url.
     let uri = clean_url url;
         rq = (set_hrx ''A'' ((rq_hrx rq ''A'')[1 := uri]) rq)\<lparr>rq_path := []\<rparr> in
     if prefix ''/error_pages/'' uri
     then io_return (True, rq\<lparr>rq_path := ''files'' @ uri\<rparr>)
     else io_bind (io_of (cur_server si rq)) (\<lambda>s.
          let locs = si_location s in
          io_bind (location_loop locs uri (length locs) 0 (rq\<lparr>rq_l_id := 0\<rparr>)) (\<lambda>rq.
          let rq = rq\<lparr>rq_path := clean_url (dropWhile (\<lambda>c. c = SLASH) (rq_path rq))\<rparr> in
          io_bind (io_of (cur_location si rq)) (\<lambda>l.
          if hd (rq_hrx rq ''A'') \<in> set (li_allowed_method l) then io_return (False, rq)
          else io_bind (gen_startLine ''405'' rq) (\<lambda>rq. io_return (True, rq))))))"


section \<open>Cleaning\<close>

definition clean_upto :: "nat \<Rightarrow> string \<Rightarrow> bool" where
  "clean_upto i s \<longleftrightarrow> (\<forall>j<i. s ! j = SLASH \<longrightarrow> (s @ [NUL]) ! (j + 1) \<notin> {SLASH, NUL})"

definition url_clean :: "string \<Rightarrow> bool" where
  "url_clean s \<longleftrightarrow> s = [SLASH] \<or> clean_upto (length s) s"

lemma clean_upto_delete:
  assumes "clean_upto i s" "i < length s" "s ! i = SLASH"
  shows "clean_upto i (take i s @ drop (i + 1) s)"
  unfolding clean_upto_def
proof (intro allI impI)
  fix j assume j: "j < i" "(take i s @ drop (i + 1) s) ! j = SLASH"
  with assms(2) have s: "s ! j = SLASH" by (simp add: nth_append)
  with assms(1) j have n: "(s @ [NUL]) ! (j + 1) \<notin> {SLASH, NUL}" by (simp add: clean_upto_def)
  have "j + 1 < i"
  proof (rule ccontr)
    assume "\<not> j + 1 < i"
    with j have "j + 1 = i" by simp
    with n assms(2,3) show False by (simp add: nth_append)
  qed
  with n assms(2) show "((take i s @ drop (i + 1) s) @ [NUL]) ! (j + 1) \<notin> {SLASH, NUL}"
    by (simp add: nth_append)
qed

lemma clean_from_clean:
  "i \<le> length s \<Longrightarrow> clean_upto i s \<or> s = [SLASH] \<Longrightarrow> url_clean (clean_from i s)"
proof (induction i s rule: clean_from.induct)
  case (1 i s)
  show ?case
  proof (cases "length s \<le> i")
    case True
    with 1(3,4) show ?thesis by (subst clean_from.simps) (auto simp: url_clean_def)
  next
    case i: False
    show ?thesis
    proof (cases "s ! i = SLASH \<and> (s @ [NUL]) ! (i + 1) \<in> {SLASH, NUL} \<and> 1 < length s")
      case True
      with 1(4) i have "clean_upto i (take i s @ drop (i + 1) s)" by (intro clean_upto_delete) auto
      with 1(1) [OF i True] i True show ?thesis by (subst clean_from.simps) simp
    next
      case False
      have "clean_upto (i + 1) s \<or> s = [SLASH]"
      proof (cases "s ! i = SLASH \<and> length s \<le> 1")
        case True
        moreover from this i have "i = 0" by auto
        ultimately show ?thesis using i by (cases s) auto
      next
        case l: False
        with 1(4) False i show ?thesis
          by (auto simp: clean_upto_def less_Suc_eq)
      qed
      with 1(2) [OF i False] i False show ?thesis by (subst clean_from.simps) auto
    qed
  qed
qed

lemma clean_from_id: "url_clean s \<Longrightarrow> clean_from i s = s"
proof (induction i s rule: clean_from.induct)
  case (1 i s)
  from 1(3) have "\<not> (i < length s \<and> s ! i = SLASH \<and> (s @ [NUL]) ! (i + 1) \<in> {SLASH, NUL} \<and> 1 < length s)"
    by (auto simp: url_clean_def clean_upto_def)
  with 1 show ?case by (subst clean_from.simps) auto
qed

interpretation url: normaliser clean_url url_clean
  by unfold_locales (simp_all add: clean_url_def clean_from_id clean_from_clean clean_upto_def)

lemma path_components_drop_slash:
  "ys = [] \<or> hd ys = SLASH \<Longrightarrow> path_components w (xs @ SLASH # ys) = path_components w (xs @ ys)"
  by (induction xs arbitrary: w) (cases ys, auto)

lemma clean_from_components:
  "NUL \<notin> set s \<Longrightarrow> path_components [] (clean_from i s) = path_components [] s"
proof (induction i s rule: clean_from.induct)
  case (1 i s)
  show ?case
  proof (cases "i < length s \<and> s ! i = SLASH \<and> (s @ [NUL]) ! (i + 1) \<in> {SLASH, NUL} \<and> 1 < length s")
    case True
    then have s: "s = take i s @ SLASH # drop (i + 1) s"
      by (metis Suc_eq_plus1 id_take_nth_drop)
    have "drop (i + 1) s = [] \<or> hd (drop (i + 1) s) = SLASH"
    proof (cases "i + 1 < length s")
      case in_s: True
      with 1(3) have "s ! (i + 1) \<noteq> NUL" by (metis nth_mem)
      with True in_s show ?thesis by (simp add: nth_append hd_drop_conv_nth)
    qed simp
    from path_components_drop_slash [OF this, of "[]" "take i s"] s
    have "path_components [] (take i s @ drop (i + 1) s) = path_components [] s" by metis
    with 1(1) True 1(3) show ?thesis
      by (subst clean_from.simps) (auto dest: in_set_takeD in_set_dropD)
  next
    case False
    with 1(2,3) show ?thesis by (subst clean_from.simps) auto
  qed
qed

section \<open>The location in force\<close>

definition plain_locations :: "locati_info list \<Rightarrow> bool" where
  "plain_locations locs \<longleftrightarrow> (\<forall>l\<in>set locs. li_retour l = [] \<and> li_root l \<noteq> [])"

definition location_path :: "locati_info \<Rightarrow> string \<Rightarrow> string" where
  "location_path l uri = (if last (li_root l) = SLASH then li_root l else li_root l @ [SLASH])
     @ drop (length (li_location l)) uri
     @ (if length (li_location l) = length uri then li_index l else [])"

abbreviation name_at :: "locati_info list \<Rightarrow> nat \<Rightarrow> string" where
  "name_at locs i \<equiv> li_location (locs ! i)"

definition in_force :: "locati_info list \<Rightarrow> string \<Rightarrow> nat \<Rightarrow> request_handler \<Rightarrow> request_handler" where
  "in_force locs uri i rq = rq\<lparr>rq_path := location_path (locs ! i) uri, rq_l_id := int i\<rparr>"

lemma io_of_apply_Ret: "io_of r os t = (Ret x, t') \<longleftrightarrow> r = Ret x \<and> t' = t"
  by (auto simp: io_of_def)

lemma vec_at_Ret: "vec_at v i = Ret x \<longleftrightarrow> 0 \<le> i \<and> i < int (length v) \<and> x = v ! nat i"
  by (auto simp: vec_at_def)

lemma take_location_plain:
  assumes "plain_locations locs" "i < length locs" "take_location locs uri i rq os t = (Ret rq', t')"
  shows "rq' = in_force locs uri i rq \<and> t' = t"
proof -
  from assms(1,2) have "li_retour (locs ! i) = []" "li_root (locs ! i) \<noteq> []"
    by (simp_all add: plain_locations_def)
  with assms(3) show ?thesis
    by (auto simp: take_location_def Let_def io_bind_Ret io_of_apply_Ret root_path_def vec_at_Ret
        in_force_def location_path_def split: if_splits)
qed

definition longest :: "locati_info list \<Rightarrow> string \<Rightarrow> nat \<Rightarrow> nat \<Rightarrow> bool" where
  "longest locs uri n i \<longleftrightarrow> i < n \<and> prefix (name_at locs i) uri
     \<and> (\<forall>j<n. prefix (name_at locs j) uri \<longrightarrow> length (name_at locs j) \<le> length (name_at locs i))"

definition none_longer :: "locati_info list \<Rightarrow> string \<Rightarrow> nat \<Rightarrow> nat \<Rightarrow> bool" where
  "none_longer locs uri n len \<longleftrightarrow> (\<forall>j<n. prefix (name_at locs j) uri \<longrightarrow> length (name_at locs j) \<le> len)"

lemma location_loop_longest:
  assumes "plain_locations locs" "n \<le> length locs" "location_loop locs uri n len rq os t = (Ret rq', t')"
  shows "t' = t \<and> ((\<exists>i. longest locs uri n i \<and> len < length (name_at locs i) \<and> rq' = in_force locs uri i rq)
    \<or> none_longer locs uri n len \<and> rq' = (if len = 0 \<and> 0 < n then in_force locs uri 0 rq else rq))"
  using assms(2,3)
proof (induction n arbitrary: len rq t)
  case 0
  then show ?case by (simp add: io_of_apply_Ret none_longer_def)
next
  case (Suc i)
  let ?name = "name_at locs i"
  show ?case
  proof (cases "prefix ?name uri \<and> len < length ?name \<or> len = 0 \<and> i = 0")
    case True
    with Suc.prems(2) obtain rq1 t1 where
      t: "take_location locs uri i rq os t = (Ret rq1, t1)"
      and l: "location_loop locs uri i (length ?name) rq1 os t1 = (Ret rq', t')"
      by (auto simp: Let_def io_bind_Ret)
    from take_location_plain [OF assms(1) _ t] Suc.prems(1)
    have r: "rq1 = in_force locs uri i rq" "t1 = t" by auto
    have c: "in_force locs uri j rq1 = in_force locs uri j rq" for j by (simp add: r in_force_def)
    from Suc.IH [OF _ l] Suc.prems(1) r
    consider (longer) j where "longest locs uri i j" "length ?name < length (name_at locs j)"
        "rq' = in_force locs uri j rq" "t' = t"
      | (no) "none_longer locs uri i (length ?name)"
        "rq' = (if length ?name = 0 \<and> 0 < i then in_force locs uri 0 rq else in_force locs uri i rq)" "t' = t"
      unfolding c by auto
    then show ?thesis
    proof cases
      case longer
      with True show ?thesis by (auto simp: longest_def less_Suc_eq)
    next
      case no
      show ?thesis
      proof (cases "prefix ?name uri \<and> len < length ?name")
        case True
        with no show ?thesis by (auto simp: longest_def none_longer_def less_Suc_eq)
      next
        case False
        with True no show ?thesis by (auto simp: none_longer_def)
      qed
    qed
  next
    case False
    with Suc.prems have "location_loop locs uri i len rq os t = (Ret rq', t')" by (auto simp: Let_def)
    from Suc.IH [OF _ this] Suc.prems(1) False show ?thesis
      by (auto simp: longest_def none_longer_def less_Suc_eq)
  qed
qed


section \<open>Properties\<close>

text \<open>
  C31. Cleaning a URL leaves no slash before another slash, a NUL or the end (but for the URL that
  is one slash), changes nothing when it is run again, and keeps the components of the path.
\<close>

theorem clean_url_path:
  "url_clean (clean_url s) \<and> clean_url (clean_url s) = clean_url s
    \<and> (NUL \<notin> set s \<longrightarrow> path_components [] (clean_url s) = path_components [] s)"
  using url.norm_clean [of s] url.norm_idem [of s] clean_from_components [of s 0]
  by (simp add: clean_url_def)

theorem clean_url_path_witness:
  "path_components [] (clean_url ''//a///b//'') = [''a'', ''b''] \<and> clean_url ''//a///b//'' = ''/a/b''"
proof -
  have "NUL \<notin> set ''//a///b//''" "path_components [] ''//a///b//'' = [''a'', ''b'']"
    "clean_url ''//a///b//'' = ''/a/b''" by code_simp+
  with clean_url_path [of "''//a///b//''"] show ?thesis by simp
qed

text \<open>
  C19. The virtual server of a request with the field \<^verbatim>\<open>Host: host:port\<close> is the first one with this
  host (or server name) and port.  When there is none it is the last one with this port, though the
  comment in the code promises the first; and when the port is unknown too the server of the
  request before stays.
\<close>

definition answers :: "string \<Rightarrow> string \<Rightarrow> server_info \<Rightarrow> bool" where
  "answers host port s \<longleftrightarrow> (si_host s = host \<or> si_server_name s = host) \<and> si_port s = port"

lemma find_idx_eq_Some:
  "find_idx P xs = Some i \<longleftrightarrow> i < length xs \<and> P (xs ! i) \<and> (\<forall>j<i. \<not> P (xs ! j))"
  by (induction xs arbitrary: i) (auto simp: less_Suc_eq_0_disj nth_Cons split: nat.splits)

lemma find_idx_rev:
  assumes "find_idx P (rev xs) = Some k"
  shows "k < length xs" "P (xs ! (length xs - 1 - k))"
    "\<forall>j. length xs - 1 - k < j \<and> j < length xs \<longrightarrow> \<not> P (xs ! j)"
proof -
  from assms have k: "k < length xs" "P (rev xs ! k)" "\<forall>j<k. \<not> P (rev xs ! j)"
    by (simp_all add: find_idx_eq_Some)
  then show "k < length xs" "P (xs ! (length xs - 1 - k))" by (simp_all add: rev_nth)
  show "\<forall>j. length xs - 1 - k < j \<and> j < length xs \<longrightarrow> \<not> P (xs ! j)"
  proof (intro allI impI)
    fix j assume "length xs - 1 - k < j \<and> j < length xs"
    with k have "length xs - 1 - j < k" "rev xs ! (length xs - 1 - j) = xs ! j"
      by (auto simp: rev_nth)
    with k(3) show "\<not> P (xs ! j)" by metis
  qed
qed

theorem virtual_server_chosen:
  assumes "rq_hrx rq ''Host:'' = (host @ CHR '':'' # port) # hs" "CHR '':'' \<notin> set host"
  shows "\<exists>rq'. set_server_id si rq = Ret rq'
    \<and> ((\<exists>i<length si. rq' = rq\<lparr>rq_s_id := Some (int i)\<rparr> \<and> answers host port (si ! i)
          \<and> (\<forall>j<i. \<not> answers host port (si ! j)))
       \<or> (\<forall>s\<in>set si. \<not> answers host port s) \<and>
         ((\<exists>i<length si. rq' = rq\<lparr>rq_s_id := Some (int i)\<rparr> \<and> si_port (si ! i) = port
            \<and> (\<forall>j. i < j \<and> j < length si \<longrightarrow> si_port (si ! j) \<noteq> port))
          \<or> (\<forall>s\<in>set si. si_port s \<noteq> port) \<and> rq' = rq))"
proof -
  have f: "find_first_of (host @ CHR '':'' # port) CHR '':'' (Some 0) = Some (length host)"
    using assms(2) by (rule find_sep)
  let ?find = "find_idx (answers host port) si"
  let ?last = "find_idx (\<lambda>s. si_port s = port) (rev si)"
  have e: "set_server_id si rq = Ret (case ?find of
        Some i \<Rightarrow> rq\<lparr>rq_s_id := Some (int i)\<rparr>
      | None \<Rightarrow> (case ?last of Some k \<Rightarrow> rq\<lparr>rq_s_id := Some (int (length si - 1 - k))\<rparr> | None \<Rightarrow> rq))"
    by (simp add: set_server_id_def assms(1) vec_at_def f answers_def [abs_def])
  show ?thesis
  proof (cases ?find)
    case (Some i)
    with e show ?thesis by (auto simp: find_idx_eq_Some)
  next
    case n: None
    then have a: "\<forall>s\<in>set si. \<not> answers host port s" by (simp add: find_idx_None_iff)
    show ?thesis
    proof (cases ?last)
      case None
      then have "\<forall>s\<in>set si. si_port s \<noteq> port" by (simp add: find_idx_None_iff)
      with e n None a show ?thesis by auto
    next
      case (Some k)
      let ?i = "length si - 1 - k"
      have "\<exists>i<length si. rq\<lparr>rq_s_id := Some (int ?i)\<rparr> = rq\<lparr>rq_s_id := Some (int i)\<rparr>
          \<and> si_port (si ! i) = port \<and> (\<forall>j. i < j \<and> j < length si \<longrightarrow> si_port (si ! j) \<noteq> port)"
        using find_idx_rev [OF Some] by (intro exI [of _ ?i]) simp
      moreover from e n Some have "set_server_id si rq = Ret (rq\<lparr>rq_s_id := Some (int ?i)\<rparr>)" by simp
      ultimately show ?thesis using a by blast
    qed
  qed
qed

definition two_servers :: "server_info list" where
  "two_servers = [server_info_init\<lparr>si_host := ''a'', si_port := ''80''\<rparr>,
     server_info_init\<lparr>si_host := ''b'', si_port := ''80''\<rparr>]"

definition blank_request :: request_handler where
  "blank_request = \<lparr>rq_s_id = None, rq_l_id = 0, rq_hrx = (\<lambda>_. []), rq_htx = [],
     rq_status = [''200'' \<mapsto> '' OK'', ''404'' \<mapsto> '' Not Found'', ''405'' \<mapsto> '' Method Not Allowed''],
     rq_path = [], rq_body = [], rq_response = []\<rparr>"

theorem virtual_server_chosen_witness:
  "\<exists>rq'. set_server_id two_servers (set_hrx ''Host:'' [''c:80''] blank_request) = Ret rq'
     \<and> rq_s_id rq' = Some 1"
proof -
  have h: "rq_hrx (set_hrx ''Host:'' [''c:80''] blank_request) ''Host:'' = (''c'' @ CHR '':'' # ''80'') # []"
    by (simp add: set_hrx_def)
  from virtual_server_chosen [OF h, of two_servers] show ?thesis
    by (auto simp: answers_def two_servers_def less_Suc_eq server_info_init_def)
qed

text \<open>
  The location that answers a request, where no location redirects: when \<open>resolve_path\<close> lets the
  request go on, the location in force allows its method; it is one whose name is the longest
  that begins the cleaned URL, or the first location when none begins it; and the path is the
  location's root followed by the rest of the URL, and by its index file when nothing is left.
\<close>

lemma resolve_path_location:
  assumes "resolve_path si rq os t = (Ret (False, rq'), t')"
    "rq_s_id rq = Some s" "plain_locations (si_location (si ! nat s))"
  shows "\<exists>uri i. let locs = si_location (si ! nat s) in
      uri = clean_url (rq_hrx rq ''A'' ! 1) \<and> rq_hrx rq' ''A'' = (rq_hrx rq ''A'')[1 := uri]
    \<and> i < length locs \<and> rq_l_id rq' = int i
    \<and> (longest locs uri (length locs) i \<or> i = 0 \<and> none_longer locs uri (length locs) 0)
    \<and> hd (rq_hrx rq ''A'') \<in> set (li_allowed_method (locs ! i))
    \<and> rq_path rq' = clean_url (dropWhile (\<lambda>c. c = SLASH) (location_path (locs ! i) uri))
    \<and> t' = t"
proof -
  let ?locs = "si_location (si ! nat s)" and ?uri = "clean_url (rq_hrx rq ''A'' ! 1)"
  let ?rq0 = "(set_hrx ''A'' ((rq_hrx rq ''A'')[1 := ?uri]) rq)\<lparr>rq_path := [], rq_l_id := 0\<rparr>"
  from assms(1,2) obtain rq1 l where
    l: "location_loop ?locs ?uri (length ?locs) 0 ?rq0 os t = (Ret rq1, t')"
    and r: "rq' = rq1\<lparr>rq_path := clean_url (dropWhile (\<lambda>c. c = SLASH) (rq_path rq1))\<rparr>"
    and c: "cur_location si rq' = Ret l" "hd (rq_hrx rq' ''A'') \<in> set (li_allowed_method l)"
    and a: "1 < length (rq_hrx rq ''A'')" "0 \<le> s" "s < int (length si)"
    by (auto simp: resolve_path_def Let_def io_bind_Ret io_of_apply_Ret vec_at_Ret cur_server_def
        split: if_splits)
  from location_loop_longest [OF assms(3) order_refl l] obtain i where t: "t' = t"
    and i: "longest ?locs ?uri (length ?locs) i \<and> rq1 = in_force ?locs ?uri i ?rq0
      \<or> none_longer ?locs ?uri (length ?locs) 0 \<and> i = 0
        \<and> rq1 = (if 0 < length ?locs then in_force ?locs ?uri 0 ?rq0 else ?rq0)"
    by auto
  have "rq_s_id rq1 = Some s" using i assms(2) by (auto simp: in_force_def)
  with c(1) r a have l: "0 \<le> rq_l_id rq1" "rq_l_id rq1 < int (length ?locs)" "l = ?locs ! nat (rq_l_id rq1)"
    by (auto simp: cur_location_def cur_server_def rbind_eq_Inr vec_at_Ret)
  then have "rq1 = in_force ?locs ?uri i ?rq0" using i by auto
  moreover from this l have "i < length ?locs" by (simp add: in_force_def)
  moreover have "hd ((rq_hrx rq ''A'')[1 := ?uri]) = hd (rq_hrx rq ''A'')"
    using a(1) by (cases "rq_hrx rq ''A''") auto
  ultimately show ?thesis
    using i t r c(2) l(3)
    by (intro exI [of _ ?uri] exI [of _ i]) (auto simp: in_force_def Let_def)
qed


text \<open>
  C11. The location that answers a request, where no location redirects: when \<open>resolve_path\<close> lets the
  request go on, the location in force allows its method; it is one whose name is the longest
  that begins the cleaned URL, or the first location when none begins it; and the path is the
  location's root followed by the rest of the URL, and by its index file when nothing is left.
\<close>

theorem location_chosen:
  assumes "resolve_path si rq os t = (Ret (False, rq'), t')"
    "rq_s_id rq = Some s" "plain_locations (si_location (si ! nat s))"
  shows "\<exists>uri i. let locs = si_location (si ! nat s) in
      uri = clean_url (rq_hrx rq ''A'' ! 1) \<and> rq_hrx rq' ''A'' = (rq_hrx rq ''A'')[1 := uri]
    \<and> i < length locs \<and> rq_l_id rq' = int i
    \<and> (longest locs uri (length locs) i \<or> i = 0 \<and> none_longer locs uri (length locs) 0)
    \<and> hd (rq_hrx rq ''A'') \<in> set (li_allowed_method (locs ! i))
    \<and> rq_path rq' = clean_url (dropWhile (\<lambda>c. c = SLASH) (location_path (locs ! i) uri))
    \<and> t' = t"
  using assms by (rule resolve_path_location)

definition img_server :: server_info where
  "img_server = server_info_init\<lparr>si_port := ''80'', si_location :=
     [locati_info_init\<lparr>li_location := ''/'', li_root := ''www'', li_index := ''i.html'', li_allowed_method := [''GET'']\<rparr>,
      locati_info_init\<lparr>li_location := ''/img'', li_root := ''pic'', li_allowed_method := [''GET'', ''DELETE'']\<rparr>]\<rparr>"

definition img_request :: "string \<Rightarrow> string \<Rightarrow> request_handler" where
  "img_request meth url =
     set_hrx ''A'' [meth, url, ''HTTP/1.1''] (blank_request\<lparr>rq_s_id := Some 0\<rparr>)"

lemma img_cleaned: "clean_url ''//img//x'' = ''/img/x''" "clean_url ''pic//x'' = ''pic/x''" "clean_url ''/img/x'' = ''/img/x''"
  by code_simp+

lemmas img_defs = img_server_def img_request_def server_info_init_def locati_info_init_def blank_request_def

lemma img_resolved:
  "resolve_path [img_server] (img_request ''GET'' ''//img//x'') os t
     = (Ret (False, (img_request ''GET'' ''/img/x'')\<lparr>rq_path := ''pic/x'', rq_l_id := 1\<rparr>), t)"
  by (simp add: resolve_path_def img_defs vec_at_def img_cleaned cur_server_def cur_location_def
      take_location_def root_path_def io_simps numeral_2_eq_2 set_hrx_def Let_def fun_eq_iff)

theorem location_chosen_witness:
  "longest (si_location img_server) ''/img/x'' 2 1
     \<and> rq_path ((img_request ''GET'' ''/img/x'')\<lparr>rq_path := ''pic/x''\<rparr>) = ''pic/x''"
  using location_chosen [OF img_resolved [of undefined undefined], of 0]
  by (auto simp: img_defs plain_locations_def Let_def img_cleaned longest_def)

lemma header_lines_keep:
  "\<forall>line\<in>set ls. take 1 (words_of line) \<noteq> [k] \<Longrightarrow> k \<noteq> ''BODY'' \<Longrightarrow>
     rq_hrx (header_lines str ls rq) k = rq_hrx rq k"
  by (induction str ls rq rule: header_lines.induct) (auto simp: push_words_def split: list.splits)

text \<open>
  A request none of whose lines begins with the word \<^verbatim>\<open>Host:\<close> is undefined: the code takes the
  first element of an empty vector.  (\<open>rq_hrx\<close> is empty when a request is read, see the
  invariant of the loop.)
\<close>

theorem request_without_host_undefined:
  assumes "\<forall>line\<in>set (getlines (c_str rqst)). take 1 (words_of line) \<noteq> [''Host:'']"
    "rq_hrx rq = (\<lambda>_. [])"
  shows "reader si rqst rq = Throw (Undef ''vector index'')"
proof (cases "getlines (c_str rqst)")
  case Nil
  with assms(2) show ?thesis by (simp add: reader_def set_server_id_def vec_at_def)
next
  case (Cons line ls)
  with assms have "rq_hrx (header_lines (c_str rqst) ls (push_words ''A'' (words_of line) rq)) ''Host:'' = []"
    by (subst header_lines_keep) (auto simp: push_words_def)
  with Cons show ?thesis by (simp add: reader_def set_server_id_def vec_at_def Let_def)
qed

lemma hostless_lines:
  "\<forall>line\<in>set (getlines (c_str (''GET / HTTP/1.0'' @ CRLF @ CRLF))). take 1 (words_of line) \<noteq> [''Host:'']"
  by code_simp

theorem request_without_host_undefined_witness:
  "reader two_servers (''GET / HTTP/1.0'' @ CRLF @ CRLF) blank_request = Throw (Undef ''vector index'')"
  by (rule request_without_host_undefined [OF hostless_lines]) (simp add: blank_request_def)

lemma location_loop_0: "location_loop locs uri 0 len = (\<lambda>rq. io_return rq)"
  by (simp add: fun_eq_iff)

lemma location_loop_none:
  "n \<le> length locs \<Longrightarrow> \<forall>i<n. \<not> (prefix (name_at locs i) uri \<and> name_at locs i \<noteq> []) \<Longrightarrow> 0 < n \<Longrightarrow>
     location_loop locs uri n 0 rq = io_bind (take_location locs uri 0 rq)
       (\<lambda>rq. io_return rq)"
proof (induction n)
  case (Suc n)
  then show ?case by (cases n) (auto simp: Let_def location_loop_0)
qed simp

lemma short_url:
  assumes "rq_s_id rq = Some s" "0 \<le> s" "s < int (length si)" "1 < length (rq_hrx rq ''A'')"
    "uri = clean_url (rq_hrx rq ''A'' ! 1)" "\<not> prefix ''/error_pages/'' uri"
    "plain_locations (l # ls)" "si_location (si ! nat s) = l # ls"
    "length uri < length (li_location l)"
    "\<forall>l'\<in>set ls. prefix (li_location l') uri \<longrightarrow> li_location l' = []"
  shows "resolve_path si rq os t = (Throw Out_Of_Range, t)"
proof -
  have n: "\<forall>i<length (l # ls). \<not> (prefix (name_at (l # ls) i) uri \<and> name_at (l # ls) i \<noteq> [])"
  proof (intro allI impI)
    fix i assume "i < length (l # ls)"
    with assms(9,10) show "\<not> (prefix (name_at (l # ls) i) uri \<and> name_at (l # ls) i \<noteq> [])"
      by (cases i) (auto dest: prefix_length_le)
  qed
  have "location_loop (l # ls) uri (length (l # ls)) 0 rq1 os t = (Throw Out_Of_Range, t)" for rq1
    using assms(7,9) by (subst location_loop_none [OF order_refl n])
      (auto simp: take_location_def plain_locations_def io_simps Let_def root_path_def)
  then show ?thesis
    using assms(1-4,6,8) by (simp add: resolve_path_def vec_at_def cur_server_def io_simps Let_def assms(5))
qed

text \<open>
  When no location begins the URL and the name of the first one is longer than the URL, cutting
  its name off the URL throws, and the server ends.
\<close>

theorem short_url_throws:
  assumes "rq_s_id rq = Some s" "0 \<le> s" "s < int (length si)" "1 < length (rq_hrx rq ''A'')"
    "uri = clean_url (rq_hrx rq ''A'' ! 1)" "\<not> prefix ''/error_pages/'' uri"
    "plain_locations (l # ls)" "si_location (si ! nat s) = l # ls"
    "length uri < length (li_location l)"
    "\<forall>l'\<in>set ls. prefix (li_location l') uri \<longrightarrow> li_location l' = []"
  shows "resolve_path si rq os t = (Throw Out_Of_Range, t)"
  using assms by (rule short_url)

definition api_server :: server_info where
  "api_server = server_info_init\<lparr>si_location := [locati_info_init\<lparr>li_location := ''/api'', li_root := ''www''\<rparr>]\<rparr>"

theorem short_url_throws_witness:
  "\<forall>os t. resolve_path [api_server] (img_request ''GET'' ''/'') os t = (Throw Out_Of_Range, t)"
proof (intro allI short_url_throws [where s = 0 and l = "hd (si_location api_server)" and ls = "[]"])
  show "''/'' = clean_url (rq_hrx (img_request ''GET'' ''/'') ''A'' ! 1)"
    using url.clean_norm [of "''/''"] by (simp add: img_request_def url_clean_def)
qed (simp_all add: img_request_def api_server_def plain_locations_def server_info_init_def locati_info_init_def)


end
