(* ===== verification/ATCgi.thy ===== *)
theory ATCgi
  imports ATRequestHandler
begin

text \<open>
  \<^verbatim>\<open>ATwebserv/cgi_handler.cpp/.hpp\<close>: the environment of a CGI script, what it is given to
  read, and how its output comes back.  The run of the script is one system call,
  \<open>Sys_Run_Cgi\<close> with the environment and the bytes written to its input; the answer is what it
  writes to its output, \<open>None\<close> when its output cannot be read: \<open>rec_gnl\<close> returns -1 then, which does not end the
  loop, and leaves no line to copy.
\<close>

section \<open>The environment\<close>

definition at_is_cgi :: "string list \<Rightarrow> bool" where
  "at_is_cgi query \<longleftrightarrow> (\<exists>q\<in>set query. contains q ''.php'')"

text \<open>\<^verbatim>\<open>ss >> n\<close> for an \<^verbatim>\<open>int\<close>: 0 when there is no numeral, the nearest value on overflow.\<close>

definition read_int :: "string \<Rightarrow> int" where
  "read_int s =
     (let s = dropWhile isspace s;
          n = port_number (if take 1 s \<in> {''-'', ''+''} then tl s else s);
          n = (if take 1 s = ''-'' then - n else n)
      in max (-2147483648) (min 2147483647 n))"

definition after_char :: "char \<Rightarrow> string \<Rightarrow> string" where
  "after_char c s = (case find_first_of s c (Some 0) of None \<Rightarrow> [] | Some p \<Rightarrow> drop (p + 1) s)"

definition extract_env :: "(string \<Rightarrow> string list) \<Rightarrow> server_info \<Rightarrow> (string list \<times> int) res" where
  "extract_env mp s =
     rbind (vec_at (mp ''A'') 1) (\<lambda>url.
     rbind (vec_at (mp ''A'') 0) (\<lambda>meth.
     let pos = pos_add (find_sub url ''.php'' (Some 0)) 4 in
     rbind (substr url pos None) (\<lambda>var.
     rbind (substr url (Some 0) pos) (\<lambda>buf.
     rbind (vec_at (mp ''query'') 0) (\<lambda>path.
     rbind (substr buf (Some 0) (find_last_of buf SLASH)) (\<lambda>root.
     let len = concat (mp ''Content-Length:'') in
     Ret ([''REDIRECT_STATUS=CGI'',
           ''SERVER_SOFTWARE='' @ si_server_name s,
           ''SERVER_NAME='' @ si_host s,
           ''GATEWAY_INTERFACE=CGI/1.1'',
           ''SERVER_PROTOCOL=HTTP/1.1'',
           ''SERVER_PORT='' @ si_port s,
           ''REQUEST_METHOD='' @ meth,
           ''PATH_INFO='' @ after_char SLASH var,
           ''PATH_TRANSLATED='' @ path,
           ''SCRIPT_NAME='' @ (if take 1 buf = [SLASH] then drop 1 buf else buf),
           ''QUERY_STRING='' @ after_char CHR ''?'' var,
           ''REMOTE_HOST='' @ concat (mp ''Host:''),
           ''DOCUMENT_ROOT='' @ (if take 2 root = ''./'' then drop 2 root else root),
           ''AUTH_TYPE='' @ (case mp ''Authorization:'' of [] \<Rightarrow> [] | a # _ \<Rightarrow> a),
           ''REMOTE_USER='',
           ''REMOTE_IDENT='',
           ''CONTENT_TYPE='' @ concat (mp ''Content-Type:''),
           ''CONTENT_LENGTH='' @ (if mp ''Content-Length:'' = [] then ''0'' else len),
           ''HTTP_ACCEPT='' @ concat (mp ''Accept:''),
           ''HTTP_ACCEPT_LANGUAGE='' @ concat (mp ''Accept-Language:''),
           ''HTTP_USER_AGENT='' @ concat (mp ''User-Agent:''),
           ''HTTP_REFERER='' @ concat (mp ''Referer'')],
          if mp ''Content-Length:'' = [] then 0 else read_int len)))))))"

section \<open>The input of the script\<close>

text \<open>
  What the child writes, at most \<open>cLen\<close> bytes.  A negative length is a count of \<^verbatim>\<open>write\<close> above the
  greatest \<^verbatim>\<open>ssize_t\<close>, which the system refuses: nothing is written.
\<close>

fun child_input :: "int \<Rightarrow> string list \<Rightarrow> string" where
  "child_input cLen [] = []"
| "child_input cLen (it # its) =
     (let post = min (int (length it)) cLen;
          cLen = (if int (length it) > cLen then 0 else cLen - int (length it))
      in take (nat post) it @ (if cLen = 0 then [] else child_input cLen its))"

section \<open>The output of the script\<close>

text \<open>
  A line ends at a line feed or a NUL.  The result is 0 at the end of the output, where the
  line read last is dropped by the caller.
\<close>

fun rec_gnl :: "string \<Rightarrow> int \<times> string \<times> string" where
  "rec_gnl [] = (0, [], [])"
| "rec_gnl (c # cs) =
     (if c = LF \<or> c = NUL then (1, [], cs)
      else case rec_gnl cs of (ret, line, rest) \<Rightarrow> (ret, c # line, rest))"

definition cgi_line :: "string \<Rightarrow> (string \<Rightarrow> string list) \<Rightarrow> (string \<Rightarrow> string list)" where
  "cgi_line tmp mp =
     (if contains tmp ''Content-type: '' then mp(''Content-Type:'' := [drop 14 tmp])
      else if contains tmp ''X-Powered-By:'' then mp
      else mp(''BODY'' := mp ''BODY'' @ [tmp]))"

lemma rec_gnl_shorter: "rec_gnl s = (ret, line, rest) \<Longrightarrow> ret \<noteq> 0 \<Longrightarrow> length rest < length s"
proof (induction s arbitrary: ret line rest)
  case (Cons c s)
  obtain r l t where e: "rec_gnl s = (r, l, t)" by (metis surj_pair)
  from Cons.prems Cons.IH [OF e] show ?case by (auto simp: e split: if_splits)
qed simp

function cgi_loop :: "string \<Rightarrow> (string \<Rightarrow> string list) \<Rightarrow> (string \<Rightarrow> string list)" where
  "cgi_loop out mp =
     (case rec_gnl out of (ret, sd, rest) \<Rightarrow>
        if ret = 0 then mp else cgi_loop rest (cgi_line sd mp))"
  by pat_completeness auto
termination
  by (relation "measure (\<lambda>(out, mp). length out)") (auto dest: rec_gnl_shorter [OF sym])

declare cgi_loop.simps [simp del]

section \<open>The run\<close>

definition go_cgi :: "(string \<Rightarrow> string list) \<Rightarrow> server_info \<Rightarrow> (string \<Rightarrow> string list) io" where
  "go_cgi mp serv =
     io_bind (io_of (extract_env mp serv)) (\<lambda>(env, cLen).
     io_bind (call os_ok Sys_Pipe) (\<lambda>ok.
     if \<not> ok then io_return mp
     else io_bind (call os_ok Sys_Pipe) (\<lambda>ok.
     if \<not> ok then io_return mp
     else io_bind (call os_fd Sys_Fork) (\<lambda>pid.
     if pid = -1 then io_return mp
     else io_bind (call os_data (Sys_Run_Cgi (map c_str env) (child_input cLen (mp ''BODY'')))) (\<lambda>answer.
          case answer of
            None \<Rightarrow> io_throw (Undef ''line of a failed read'')
          | Some out \<Rightarrow> io_return ((cgi_loop out (mp(''BODY'' := [])))(''A'' := [])))))))"

section \<open>Lines of the output\<close>

text \<open>The complete lines of an output, without their ends.\<close>

fun whole_lines :: "string \<Rightarrow> string \<Rightarrow> string list" where
  "whole_lines w [] = []"
| "whole_lines w (c # cs) =
     (if c = LF \<or> c = NUL then w # whole_lines [] cs else whole_lines (w @ [c]) cs)"

lemma rec_gnl_whole_lines:
  "(case rec_gnl s of (ret, line, rest) \<Rightarrow>
      if ret = 0 then whole_lines w s = [] else whole_lines w s = (w @ line) # whole_lines [] rest)"
proof (induction s arbitrary: w)
  case (Cons c s)
  from Cons.IH [of "w @ [c]"] show ?case by (auto split: prod.splits)
qed simp

lemma cgi_loop_lines: "cgi_loop out mp = fold cgi_line (whole_lines [] out) mp"
proof (induction out mp rule: cgi_loop.induct)
  case (1 out mp)
  obtain ret line rest where r: "rec_gnl out = (ret, line, rest)" by (metis surj_pair)
  from rec_gnl_whole_lines [where s = out and w = "[]"] r
  have w: "if ret = 0 then whole_lines [] out = [] else whole_lines [] out = line # whole_lines [] rest"
    by simp
  show ?case
  proof (cases "ret = 0")
    case True
    with w r show ?thesis by (simp add: cgi_loop.simps [of out])
  next
    case False
    with 1 [OF r [symmetric] refl False] w r show ?thesis by (simp add: cgi_loop.simps [of out])
  qed
qed

section \<open>Properties\<close>

text \<open>
  What a script gets: a request that was read has stored its whole text as its body
  (\<open>stored_body\<close>), so the input of the script is the first \<open>n\<close> bytes of the request line and the header fields, \<open>n\<close> the
  announced length.  What it gives: the complete lines of its output, the fields
  \<^verbatim>\<open>Content-type\<close> and \<^verbatim>\<open>X-Powered-By\<close> taken out; a last line without a line feed is lost.
\<close>

lemma stored_body:
  "\<forall>l\<in>set ls. take 1 l \<noteq> [CR] \<and> take 1 (words_of l) \<noteq> [''BODY''] \<Longrightarrow> take 1 line = [CR] \<Longrightarrow>
     rq_hrx rq ''BODY'' = [] \<Longrightarrow> rq_hrx (header_lines str (ls @ line # ls') rq) ''BODY'' = [str]"
  by (induction ls arbitrary: rq) (auto simp: push_words_def split: list.splits)

lemma child_input_single:
  "child_input n [s] = take (nat n) s"
  by (cases "n \<le> int (length s)") (auto simp: Let_def min_def)

lemma extract_env_length:
  "extract_env mp s = Ret (env, n) \<Longrightarrow> n = (if mp ''Content-Length:'' = [] then 0 else read_int (concat (mp ''Content-Length:'')))"
  by (auto simp: extract_env_def rbind_eq_Inr Let_def split: if_splits)

theorem script_reads_request_head:
  assumes "extract_env mp s = Ret (env, n)" "0 \<le> n" "mp ''BODY'' = [request]"
    "\<forall>t. os_ok os t" "\<forall>t. os_fd os t \<noteq> -1"
    "\<forall>t. os_data os (t @ [Sys_Run_Cgi (map c_str env) (take (nat n) request)]) = Some out"
  shows "\<exists>mp' t'. go_cgi mp s os t = (Ret mp', t @ t')
    \<and> Sys_Run_Cgi (map c_str env) (take (nat n) request) \<in> set t'
    \<and> mp' = (fold cgi_line (whole_lines [] out) (mp(''BODY'' := [])))(''A'' := [])"
  using assms(1-5) assms(6) [rule_format, of "t @ [Sys_Pipe, Sys_Pipe, Sys_Fork]"]
  by (simp add: go_cgi_def io_simps child_input_single cgi_loop_lines Let_def del: child_input.simps)

definition php_fields :: "string \<Rightarrow> string list" where
  "php_fields = (\<lambda>_. [])(''A'' := [''POST'', ''/a.php'', ''HTTP/1.1''], ''query'' := [''www/a.php''],
     ''Content-Length:'' := [''4''], ''BODY'' := [''POST /a.php HTTP/1.1 and so on''])"

definition php_os :: os where
  "php_os = \<lparr>os_fs = (\<lambda>_. \<lparr>fs_stat = (\<lambda>_. None), fs_uninit = 0\<rparr>), os_ok = (\<lambda>_. True),
     os_fd = (\<lambda>_. 5), os_data = (\<lambda>_. Some (''one'' @ [LF] @ ''two'')), os_count = (\<lambda>_. 1), os_time = (\<lambda>_. 0),
     os_text = (\<lambda>_. []), os_exit = (\<lambda>_. None), os_ready = (\<lambda>_. None), os_events = (\<lambda>_. [])\<rparr>"

lemma php_env: "\<exists>env. extract_env php_fields server_info_init = Ret (env, 4)"
  by (simp add: extract_env_def php_fields_def vec_at_def find_sub_0 find_last_of_def read_int_def
      port_number_def isdigit_def digit_value_def isspace_def)

theorem script_reads_request_head_witness:
  "\<exists>env mp' t'. go_cgi php_fields server_info_init php_os [] = (Ret mp', t')
     \<and> Sys_Run_Cgi env ''POST'' \<in> set t' \<and> mp' ''BODY'' = [''one'']"
proof -
  from php_env obtain env where e: "extract_env php_fields server_info_init = Ret (env, 4)" by blast
  have "php_fields ''BODY'' = [''POST /a.php HTTP/1.1 and so on'']" by (simp add: php_fields_def)
  from script_reads_request_head [OF e _ this, of php_os "''one'' @ [LF] @ ''two''" "[]"]
  obtain mp' t' where g: "go_cgi php_fields server_info_init php_os [] = (Ret mp', t')"
    "Sys_Run_Cgi (map c_str env) ''POST'' \<in> set t'"
    and m: "mp' = (fold cgi_line (whole_lines [] (''one'' @ [LF] @ ''two'')) (php_fields(''BODY'' := [])))(''A'' := [])"
    by (auto simp: php_os_def)
  have "mp' ''BODY'' = [''one'']"
    by (simp add: m cgi_line_def contains_find)
  with g show ?thesis by blast
qed


end
