(* ===== verification/ATWriter.thy ===== *)
theory ATWriter
  imports ATCgi
begin

text \<open>
  The second half of \<^verbatim>\<open>ATwebserv/request_handler.cpp\<close>: what \<^verbatim>\<open>writer\<close> does with the request that was
  read.  The output of the script that lists a folder is the answer of one system call, taken
  to hold no NUL.
\<close>

section \<open>The file of the answer\<close>

definition generate_folder_list :: "request_handler \<Rightarrow> request_handler io" where
  "generate_folder_list rq =
     io_bind (call os_data (Sys_Run_Lister (c_str (rq_path rq)))) (\<lambda>answer.
     case answer of
       None \<Rightarrow> io_throw (Runtime_Error ''pipe || fork failed'')
     | Some out \<Rightarrow> io_of (gen_CType ''html'' (rq\<lparr>rq_body := out\<rparr>)))"

abbreviation S_IFMT :: "32 word" where "S_IFMT \<equiv> 0xF000"

definition cur_code :: "request_handler \<Rightarrow> int res" where
  "cur_code rq = rbind (vec_at (htx ''A'' rq) 1) c_atoi"

text \<open>The end of the function: an error status leads to the error page.\<close>

definition error_path :: "server_info list \<Rightarrow> request_handler \<Rightarrow> request_handler res" where
  "error_path si rq =
     rbind (cur_code rq) (\<lambda>code.
     if code < 400 then Ret rq
     else rbind (cur_server si rq) (\<lambda>s.
          Ret (rq\<lparr>rq_path := (if si_error_page s = [] then ''./files/error_pages/'' else si_error_page s)
                 @ ''error_4xx.html''\<rparr>)))"

definition file_type :: "server_info list \<Rightarrow> request_handler \<Rightarrow> request_handler io" where
  "file_type si rq =
     io_bind current_fs (\<lambda>fs.
     let mode = (case fs_stat fs (c_str (rq_path rq)) of None \<Rightarrow> 0 | Some m \<Rightarrow> m) AND S_IFMT in
     if mode = S_IFDIR
     then io_bind (io_of (cur_location si rq)) (\<lambda>l.
          if li_autoindex l = ''on'' then generate_folder_list rq
          else io_of (error_path si (rq\<lparr>rq_path := ''./files/if_folder.html''\<rparr>)))
     else if mode = S_IFREG then io_of (error_path si rq)
     else io_bind (io_of (cur_code rq)) (\<lambda>code.
          io_bind (if code < 400 then gen_startLine ''404'' rq else io_return rq) (\<lambda>rq.
          io_of (error_path si rq))))"

section \<open>The methods\<close>

text \<open>
  An \<^verbatim>\<open>int\<close> compared with a \<^verbatim>\<open>size_t\<close> is taken modulo \<open>2 ^ 64\<close>.
\<close>

definition size_of_int :: "int \<Rightarrow> nat" where
  "size_of_int n = nat (n mod 2 ^ 64)"

definition body_too_large :: "server_info \<Rightarrow> request_handler \<Rightarrow> bool res" where
  "body_too_large s rq =
     (if si_max_file_size s = [] then Ret False
      else rbind (vec_at (rq_hrx rq ''BODY'') 0) (\<lambda>body.
           rbind (c_atoi (si_max_file_size s)) (\<lambda>n. Ret (size_of_int n < length body))))"

text \<open>
  The cut of the request at the empty line.  \<^verbatim>\<open>tmp.append (head, head.length ())\<close> appends
  what of the head lies behind its end, nothing.
\<close>

definition split_body :: "string \<Rightarrow> request_handler \<Rightarrow> string \<times> request_handler" where
  "split_body boundary rq =
     (case rq_hrx rq ''BODY'' of
        [] \<Rightarrow> ([], rq)
      | body # bs \<Rightarrow>
          if boundary = [] then ([], rq)
          else (case find_sub body CRLF2 (Some 0) of
                  Some p \<Rightarrow> ([], set_hrx ''BODY'' (drop (p + 4) body # bs) rq)
                | None \<Rightarrow> (body, rq)))"

definition name_upload :: "string \<Rightarrow> request_handler \<Rightarrow> request_handler res" where
  "name_upload tmp rq =
     (case (if tmp = [] then None else find_sub tmp ''filename=\"'' (Some 0)) of
        None \<Rightarrow> Ret rq
      | Some p \<Rightarrow>
          let name = takeWhile (\<lambda>c. c \<noteq> CHR 0x22) (drop (p + 10) tmp)
          in rbind (vec_at (rq_hrx rq ''A'') 1) (\<lambda>_.
             Ret (set_hrx ''A'' ((rq_hrx rq ''A'')[1 := ''./files/'' @ name]) rq)))"

text \<open>The file is opened, and so emptied, before the first element of the body is read.\<close>

definition first_body :: "string \<Rightarrow> request_handler \<Rightarrow> string io" where
  "first_body target rq =
     (case rq_hrx rq ''BODY'' of
        [] \<Rightarrow> io_bind (call os_ok (Sys_Write_File (c_str target) [])) (\<lambda>_. io_of (vec_at [] 0))
      | body # _ \<Rightarrow> io_return body)"

definition handle_post_rqst :: "server_info list \<Rightarrow> request_handler \<Rightarrow> request_handler io" where
  "handle_post_rqst si rq =
     io_bind (io_of (vec_at (rq_hrx rq ''Content-Type:'') 1)) (\<lambda>t.
     io_bind (io_of (substr t (pos_add (find_last_of t CHR ''-'') 1) None)) (\<lambda>boundary.
     io_bind (io_of (cur_server si rq)) (\<lambda>s.
     io_bind (io_of (body_too_large s rq)) (\<lambda>large.
     if large then gen_startLine ''413'' rq
     else case split_body boundary rq of (tmp, rq) \<Rightarrow>
          io_bind (io_of (name_upload tmp rq)) (\<lambda>rq.
          io_bind (io_of (vec_at (rq_hrx rq ''A'') 1)) (\<lambda>target.
          io_bind (first_body target rq) (\<lambda>body.
          let output = (if boundary = [] then body
                        else case find_sub body boundary (Some 0) of None \<Rightarrow> body | Some p \<Rightarrow> drop p body)
          in io_bind (call os_ok (Sys_Write_File (c_str target) output)) (\<lambda>_.
             gen_startLine ''200'' rq))))))))"

definition handle_delete :: "request_handler \<Rightarrow> request_handler io" where
  "handle_delete rq =
     io_bind (io_of (vec_at (rq_hrx rq ''A'') 1)) (\<lambda>url.
     let url = (if take 1 url = [SLASH] then CHR ''.'' # url else url);
         rq = set_hrx ''A'' ((rq_hrx rq ''A'')[1 := url]) rq in
     io_bind (call os_ok (Sys_Remove (c_str url))) (\<lambda>ok.
     if ok then io_return rq else gen_startLine ''404'' rq))"

section \<open>A CGI request\<close>

text \<open>
  \<^verbatim>\<open>std::to_string (k - 1)\<close> of a \<^verbatim>\<open>size_t\<close>.
\<close>

definition cgi_length :: "string list \<Rightarrow> nat" where
  "cgi_length body =
     (let k = sum_list (map (\<lambda>b. if b = [] then 0 else length b + 1) body)
      in if k = 0 then 2 ^ 64 - 1 else k - 1)"

definition last_modified :: "string \<Rightarrow> string" where
  "last_modified d = (case find_sub d ''Date:'' (Some 0) of None \<Rightarrow> d | Some p \<Rightarrow> drop (p + 5) d)"

definition cgi_response :: "request_handler \<Rightarrow> string" where
  "cgi_response rq =
     ''HTTP/1.1 200 OK'' @ CRLF @ concat (rq_hrx rq ''A'') @ ''Status: 200 Success'' @ CRLF
     @ ''Pragma: no-cache'' @ CRLF
     @ ''Content-Lenght: '' @ dec_digits (cgi_length (rq_hrx rq ''BODY'')) @ CRLF
     @ (if rq_hrx rq ''Content-Type'' = [] then [] else ''Content-Type: '' @ concat (rq_hrx rq ''Content-Type''))
     @ ''Content-Language: en'' @ CRLF
     @ (if htx ''Date'' rq = [] then []
        else concat (htx ''Date'' rq) @ ''Last-Modified:'' @ concat (map last_modified (htx ''Date'' rq)))
     @ concat (htx ''Server'' rq) @ CRLF
     @ concat (map (\<lambda>b. if b \<noteq> [] \<and> hd b \<noteq> CR then b @ CRLF else []) (rq_hrx rq ''BODY''))"

definition handle_cgi :: "server_info list \<Rightarrow> request_handler \<Rightarrow> request_handler io" where
  "handle_cgi si rq =
     io_bind (resolve_path si rq) (\<lambda>(_, rq).
     let rq = push_words ''query'' [rq_path rq] rq in
     if rq_s_id rq = Some (-1) then io_return rq
     else io_bind (io_of (cur_server si rq)) (\<lambda>s.
          io_bind (go_cgi (rq_hrx rq) s) (\<lambda>mp.
          let rq = rq\<lparr>rq_hrx := mp\<rparr> in io_return (rq\<lparr>rq_response := cgi_response rq\<rparr>))))"

section \<open>The writer\<close>

definition add_all_field :: "request_handler \<Rightarrow> request_handler" where
  "add_all_field rq = rq\<lparr>rq_response := concat (map (concat \<circ> snd) (rq_htx rq)) @ CRLF\<rparr>"

definition add_body :: "request_handler \<Rightarrow> request_handler io" where
  "add_body rq =
     io_bind (io_of (vec_at (htx ''A'' rq) 1)) (\<lambda>code.
     if code = ''413'' then io_return rq
     else if rq_body rq \<noteq> []
     then io_return (rq\<lparr>rq_response := rq_response rq @ rq_body rq, rq_body := []\<rparr>)
     else io_bind (io_of (vec_at (rq_hrx rq ''A'') 0)) (\<lambda>meth.
          if meth = ''GET'' \<or> meth = ''POST''
          then io_bind (call os_data (Sys_Read_File (c_str (rq_path rq)))) (\<lambda>answer.
               io_return (rq\<lparr>rq_response := rq_response rq @
                 (case answer of None \<Rightarrow> [] | Some text \<Rightarrow> text)\<rparr>))
          else io_return rq))"

definition dispatch :: "server_info list \<Rightarrow> request_handler \<Rightarrow> request_handler io" where
  "dispatch si rq =
     (if at_is_cgi (rq_hrx rq ''A'') then handle_cgi si rq
      else io_bind (resolve_path si rq) (\<lambda>(over, rq).
           if over then io_return rq
           else let meth = hd (rq_hrx rq ''A'')
                in if meth = ''POST'' then handle_post_rqst si rq
                   else if meth = ''DELETE'' then handle_delete rq
                   else io_return rq))"

definition writer :: "server_info list \<Rightarrow> request_handler \<Rightarrow> request_handler io" where
  "writer si rq =
     io_bind (gen_startLine ''200'' rq) (\<lambda>rq.
     io_bind (gen_date rq) (\<lambda>rq.
     io_bind (dispatch si (gen_serv rq)) (\<lambda>rq.
     io_bind (file_type si rq) (\<lambda>rq.
     io_bind (io_of (gen_CType [] rq)) (\<lambda>rq.
     io_bind (gen_CLength si rq) (\<lambda>rq.
     io_bind (add_body (add_all_field rq)) (\<lambda>rq.
     io_return (rq\<lparr>rq_hrx := (\<lambda>_. []), rq_htx := []\<rparr>))))))))"

section \<open>What the steps keep\<close>

text \<open>
  The interface between the steps of \<open>writer\<close> and a property of its state: the steps of a request
  that is no CGI request write the status line, the path, the number of the location, the URL
  and the body, and nothing else.
\<close>

locale writer_invariant =
  fixes I :: "request_handler \<Rightarrow> bool"
  assumes startLine: "I rq \<Longrightarrow> results I (gen_startLine code rq)"
    and path: "I rq \<Longrightarrow> I (rq\<lparr>rq_path := p\<rparr>)"
    and number: "I rq \<Longrightarrow> I (rq\<lparr>rq_l_id := i\<rparr>)"
    and url: "I rq \<Longrightarrow> I (set_hrx ''A'' ((rq_hrx rq ''A'')[1 := u]) rq)"
    and stored: "I rq \<Longrightarrow> I (set_hrx ''BODY'' b rq)"
begin

lemma keep_follow_return: "I rq \<Longrightarrow> results I (follow_return locs l rq)"
  unfolding follow_return_def Let_def
  by (auto split: option.split intro!: results_intros results_value results_bind [where Q = I]
      startLine path number)

lemma keep_take_location: "I rq \<Longrightarrow> results I (take_location locs uri i rq)"
  unfolding take_location_def Let_def
  by (intro results_bind [where Q = I] results_intros keep_follow_return results_value path number)

lemma keep_location_loop: "I rq \<Longrightarrow> results I (location_loop locs uri n len rq)"
proof (induction n arbitrary: len rq)
  case 0
  then show ?case by (simp add: results_intros)
next
  case (Suc n)
  then show ?case
    by (simp add: Let_def results_bind [OF keep_take_location [OF Suc.prems]])
qed

lemma keep_resolve_path: "I rq \<Longrightarrow> results (\<lambda>(over, rq). I rq) (resolve_path si rq)"
  unfolding resolve_path_def Let_def
  by (intro results_value results_intros results_bind [OF keep_location_loop]
      results_bind [OF startLine]) (auto intro: path number url [unfolded One_nat_def])

lemma keep_split: "split_body b rq = (tmp, rq') \<Longrightarrow> I rq \<Longrightarrow> I rq'"
  by (auto simp: split_body_def stored split: list.splits if_splits option.splits)

lemma keep_name: "name_upload tmp rq = Ret rq' \<Longrightarrow> I rq \<Longrightarrow> I rq'"
  by (auto simp: name_upload_def Let_def rbind_eq_Inr url [unfolded One_nat_def] split: option.splits)

lemma keep_upload:
  "I rq \<Longrightarrow> results I (io_bind (io_of (name_upload tmp rq)) (\<lambda>rq. io_bind (m rq) (\<lambda>x. io_bind (n x rq) (\<lambda>y.
     io_bind (k x y) (\<lambda>_. gen_startLine code rq)))))"
  by (rule results_value, intro results_any startLine) (rule keep_name)

lemma keep_post: "I rq \<Longrightarrow> results I (handle_post_rqst si rq)"
  unfolding handle_post_rqst_def Let_def
  by (intro results_value results_intros startLine)
    (auto split: prod.split intro!: keep_upload dest: keep_split)

lemma keep_delete: "I rq \<Longrightarrow> results I (handle_delete rq)"
  unfolding handle_delete_def Let_def
  by (intro results_value results_any results_intros startLine url)

lemma keep_dispatch: "I rq \<Longrightarrow> \<not> at_is_cgi (rq_hrx rq ''A'') \<Longrightarrow> results I (dispatch si rq)"
  unfolding dispatch_def Let_def
  by (auto intro!: results_bind [OF keep_resolve_path] results_intros keep_post keep_delete)

end

text \<open>A property that the other steps keep too holds of every state \<open>writer\<close> can return.\<close>

locale answer_invariant = writer_invariant +
  assumes received: "I rq \<Longrightarrow> I (rq\<lparr>rq_hrx := h\<rparr>)"
    and fields: "I rq \<Longrightarrow> I (rq\<lparr>rq_htx := m\<rparr>)"
    and text_of: "I rq \<Longrightarrow> I (rq\<lparr>rq_response := r\<rparr>)"
    and body: "I rq \<Longrightarrow> I (rq\<lparr>rq_body := b\<rparr>)"
begin

lemma keep_htx: "I rq \<Longrightarrow> I (set_htx k v rq)"
  unfolding set_htx_def by (rule fields)

lemma keep_push: "I rq \<Longrightarrow> I (push_words k v rq)"
  unfolding push_words_def set_hrx_def by (rule received)

lemma keep_CType: "gen_CType e rq = Ret rq' \<Longrightarrow> I rq \<Longrightarrow> I rq'"
  by (auto simp: gen_CType_def rbind_eq_Inr keep_htx split: if_splits)

lemma keep_error_path: "error_path si rq = Ret rq' \<Longrightarrow> I rq \<Longrightarrow> I rq'"
  by (auto simp: error_path_def rbind_eq_Inr path split: if_splits)

lemma keep_date: "I rq \<Longrightarrow> results I (gen_date rq)"
  unfolding gen_date_def by (intro results_any results_return keep_htx)

lemma keep_cgi: "I rq \<Longrightarrow> results I (handle_cgi si rq)"
  unfolding handle_cgi_def Let_def
  by (rule results_bind [OF keep_resolve_path]) (auto intro!: results_if results_any results_return keep_push
      received text_of)

lemma keep_any_dispatch: "I rq \<Longrightarrow> results I (dispatch si rq)"
  using keep_dispatch keep_cgi by (cases "at_is_cgi (rq_hrx rq ''A'')") (simp_all add: dispatch_def)

lemma keep_lister:
  assumes "I rq"
  shows "results I (generate_folder_list rq)"
  unfolding generate_folder_list_def
proof (rule results_any)
  fix answer :: "string option"
  show "results I (case answer of None \<Rightarrow> io_throw (Runtime_Error ''pipe || fork failed'')
      | Some out \<Rightarrow> io_of (gen_CType ''html'' (rq\<lparr>rq_body := out\<rparr>)))"
  proof (cases answer)
    case None
    then show ?thesis by (simp add: results_throw)
  next
    case (Some out)
    then show ?thesis using keep_CType [OF _ body [OF assms]] by (simp add: results_of)
  qed
qed

lemma keep_file_type: "I rq \<Longrightarrow> results I (file_type si rq)"
  unfolding file_type_def Let_def
  by (intro results_any results_if results_value results_bind [where Q = I and m = "if _ then _ else _"])
    (auto intro: keep_error_path path keep_lister startLine results_of results_return)

lemma keep_CLength: "I rq \<Longrightarrow> results I (gen_CLength si rq)"
  unfolding gen_CLength_def Let_def
  by (intro results_any results_if startLine results_return keep_htx)

lemma keep_add_body: "I rq \<Longrightarrow> results I (add_body rq)"
  unfolding add_body_def by (intro results_any results_if results_return text_of body) (auto intro: body text_of)

lemma keep_fields: "I rq \<Longrightarrow> I (add_all_field rq)" "I rq \<Longrightarrow> I (gen_serv rq)"
  by (simp_all add: add_all_field_def gen_serv_def text_of keep_htx)

lemma keep_end: "I rq \<Longrightarrow> results I (io_bind (gen_CLength si rq) (\<lambda>rq.
     io_bind (add_body (add_all_field rq)) (\<lambda>rq. io_return (rq\<lparr>rq_hrx := (\<lambda>_. []), rq_htx := []\<rparr>))))"
  by (intro results_bind [OF keep_CLength] results_bind [OF keep_add_body] results_return)
    (simp_all add: keep_fields received fields)

lemma keep_writer:
  assumes "I rq"
  shows "results I (writer si rq)"
  unfolding writer_def
  by (rule results_bind [OF startLine [OF assms]], rule results_bind [OF keep_date], assumption,
      rule results_bind [OF keep_any_dispatch], erule keep_fields, rule results_bind [OF keep_file_type],
      assumption, rule results_value, rule keep_end, erule keep_CType, assumption)

end

interpretation settled: answer_invariant "\<lambda>rq :: request_handler. rq_status rq = table \<and> rq_s_id rq = i" for table i
proof unfold_locales
  fix rq :: request_handler and code
  assume "rq_status rq = table \<and> rq_s_id rq = i"
  then show "results (\<lambda>rq. rq_status rq = table \<and> rq_s_id rq = i) (gen_startLine code rq)"
    by (auto simp: results_def gen_startLine_def io_bind_Ret io_base split: option.splits if_splits)
qed simp_all

section \<open>The fields of an answer\<close>

lemma field_order:
  "''Content-Type'' < ''Date''" "\<not> ''Content-Type'' < ''A''" "''Content-Length'' < ''Content-Type''"
  "\<not> ''Content-Length'' < ''A''" "\<not> ''Date'' < ''A''" "\<not> ''Server'' < ''A''" "\<not> ''Server'' < ''Date''"
  by code_simp+

definition status_line_of :: "request_handler \<Rightarrow> string \<Rightarrow> string list \<Rightarrow> bool" where
  "status_line_of rq code v \<longleftrightarrow> (\<exists>msg. rq_status rq code = Some msg \<and> v = [''HTTP/1.1 '', code, msg @ CRLF])"

text \<open>The fields after \<open>gen_serv\<close>, with the one \<open>gen_CType\<close> puts, and with the one \<open>gen_CLength\<close> puts.\<close>

definition fields3 :: "string list \<Rightarrow> string \<Rightarrow> string \<Rightarrow> request_handler \<Rightarrow> bool" where
  "fields3 date host code rq \<longleftrightarrow> (\<exists>a. status_line_of rq code a
     \<and> rq_htx rq = [(''A'', a), (''Date'', date), (''Server'', [''Server: '', host, CRLF])])"

definition fields4 :: "string list \<Rightarrow> string \<Rightarrow> string \<Rightarrow> string \<Rightarrow> request_handler \<Rightarrow> bool" where
  "fields4 date host code ext rq \<longleftrightarrow> (\<exists>a. status_line_of rq code a
     \<and> rq_htx rq = [(''A'', a), (''Content-Type'', [content_type ext]), (''Date'', date),
          (''Server'', [''Server: '', host, CRLF])])"

definition fields5 :: "string list \<Rightarrow> string \<Rightarrow> string \<Rightarrow> string \<Rightarrow> int \<Rightarrow> request_handler \<Rightarrow> bool" where
  "fields5 date host code ext n rq \<longleftrightarrow> (\<exists>a. status_line_of rq code a
     \<and> rq_htx rq = [(''A'', a), (''Content-Length'', [''Content-Length: '', decimal n, CRLF]),
          (''Content-Type'', [content_type ext]), (''Date'', date), (''Server'', [''Server: '', host, CRLF])])"

lemma gen_startLine_Ret:
  assumes "gen_startLine code rq os t = (Ret rq', t')"
  shows "\<exists>a. status_line_of rq code a \<and> rq' = set_htx ''A'' a rq"
  using assms by (auto simp: gen_startLine_def status_line_of_def io_bind_Ret io_base split: option.splits if_splits)

lemma startLine_fields:
  assumes "gen_startLine code' rq os t = (Ret rq', t')"
  shows "fields3 date host code rq \<Longrightarrow> fields3 date host code' rq'"
    "fields4 date host code ext rq \<Longrightarrow> fields4 date host code' ext rq'"
    "fields5 date host code ext n rq \<Longrightarrow> fields5 date host code' ext n rq'"
    "rq_hrx rq' = rq_hrx rq" "rq_path rq' = rq_path rq" "rq_body rq' = rq_body rq"
    "rq_status rq' = rq_status rq" "rq_s_id rq' = rq_s_id rq"
  using gen_startLine_Ret [OF assms] by (auto simp: fields3_def fields4_def fields5_def status_line_of_def)

lemma fields3_same [simp]:
  "fields3 date host code (rq\<lparr>rq_path := p\<rparr>) = fields3 date host code rq"
  "fields3 date host code (rq\<lparr>rq_l_id := i\<rparr>) = fields3 date host code rq"
  "fields3 date host code (rq\<lparr>rq_body := b\<rparr>) = fields3 date host code rq"
  "fields3 date host code (set_hrx k v rq) = fields3 date host code rq"
  "fields4 date host code ext (rq\<lparr>rq_path := p\<rparr>) = fields4 date host code ext rq"
  "fields4 date host code ext (rq\<lparr>rq_body := b\<rparr>) = fields4 date host code ext rq"
  by (simp_all add: fields3_def fields4_def status_line_of_def)

text \<open>The invariant of the steps of \<open>dispatch\<close>.\<close>

definition under_way :: "request_handler \<Rightarrow> string list \<Rightarrow> string \<Rightarrow> request_handler \<Rightarrow> bool" where
  "under_way rq0 date host rq \<longleftrightarrow> (\<exists>code. fields3 date host code rq)
     \<and> rq_status rq = rq_status rq0 \<and> rq_s_id rq = rq_s_id rq0 \<and> rq_body rq = rq_body rq0
     \<and> take 1 (rq_hrx rq ''A'') = take 1 (rq_hrx rq0 ''A'')"

lemma take_1_update: "take 1 (xs[1 := u]) = take 1 xs"
  by (cases xs) simp_all

interpretation framed: writer_invariant "under_way rq0 date host" for rq0 date host
proof
  fix rq code
  show "under_way rq0 date host rq \<Longrightarrow> results (under_way rq0 date host) (gen_startLine code rq)"
    unfolding results_def under_way_def by (metis startLine_fields)
qed (simp_all add: under_way_def take_1_update [unfolded One_nat_def])

lemma gen_date_serv:
  assumes "gen_startLine ''200'' rq os t = (Ret rq1, t1)" "gen_date rq1 os t1 = (Ret rq2, t2)" "rq_htx rq = []"
  shows "\<exists>date. under_way rq [''Date: '' @ date @ CRLF] (case rq_hrx rq ''Host:'' of [] \<Rightarrow> ''127.0.0.1'' | h # _ \<Rightarrow> h) (gen_serv rq2)"
  using gen_startLine_Ret [OF assms(1)] assms(2,3)
  by (auto simp: gen_date_def gen_serv_def io_bind_Ret io_base under_way_def fields3_def status_line_of_def
      htx_def map_at_def field_order)

lemma gen_CType_fields:
  assumes "gen_CType e rq = Ret rq'" "fields3 date host code rq \<or> fields4 date host code ext rq"
  shows "\<exists>ext'. fields4 date host code ext' rq' \<and> rq_hrx rq' = rq_hrx rq \<and> rq_path rq' = rq_path rq
    \<and> rq_body rq' = rq_body rq \<and> rq_status rq' = rq_status rq"
  using assms by (auto simp: gen_CType_def rbind_eq_Inr fields3_def fields4_def status_line_of_def field_order
      split: if_splits)

text \<open>What \<open>file_type\<close> leaves.\<close>

definition typed :: "request_handler \<Rightarrow> string list \<Rightarrow> string \<Rightarrow> request_handler \<Rightarrow> bool" where
  "typed rq0 date host rq \<longleftrightarrow> (\<exists>code ext. fields3 date host code rq \<or> fields4 date host code ext rq)
     \<and> rq_hrx rq = rq_hrx rq0 \<and> rq_status rq = rq_status rq0"

lemma typed_path: "typed rq0 date host rq \<Longrightarrow> typed rq0 date host (rq\<lparr>rq_path := p\<rparr>)"
  by (simp add: typed_def)

lemma typed_error_path: "error_path si rq = Ret rq' \<Longrightarrow> typed rq0 date host rq \<Longrightarrow> typed rq0 date host rq'"
  by (auto simp: error_path_def rbind_eq_Inr typed_path split: if_splits)

lemma typed_startLine: "typed rq0 date host rq \<Longrightarrow> results (typed rq0 date host) (gen_startLine code rq)"
  unfolding results_def typed_def by (metis startLine_fields)

lemma typed_CType:
  assumes "gen_CType e rq = Ret rq'" "typed rq0 date host rq"
  shows "(\<exists>code ext. fields4 date host code ext rq') \<and> typed rq0 date host rq'
    \<and> rq_path rq' = rq_path rq \<and> rq_body rq' = rq_body rq"
proof -
  from assms(2) obtain code ext where "fields3 date host code rq \<or> fields4 date host code ext rq"
    and r: "rq_hrx rq = rq_hrx rq0" "rq_status rq = rq_status rq0"
    unfolding typed_def by blast
  from gen_CType_fields [OF assms(1) this(1)] r show ?thesis unfolding typed_def by auto
qed

lemma typed_body: "typed rq0 date host rq \<Longrightarrow> typed rq0 date host (rq\<lparr>rq_body := b\<rparr>)"
  by (simp add: typed_def)

lemma typed_lister: "typed rq0 date host rq \<Longrightarrow> results (typed rq0 date host) (generate_folder_list rq)"
  unfolding generate_folder_list_def
  by (rule results_any) (auto split: option.split intro!: results_intros results_of dest: typed_CType intro: typed_body)

lemma typed_file_type: "typed rq0 date host rq \<Longrightarrow> results (typed rq0 date host) (file_type si rq)"
  unfolding file_type_def Let_def
  by (intro results_any results_if results_value results_bind [where Q = "typed rq0 date host" and m = "if _ then _ else _"])
    (auto intro: typed_error_path typed_path typed_lister typed_startLine results_of results_return)

lemma set_length_field:
  "fields4 date host code ext rq \<Longrightarrow>
     fields5 date host code ext n (set_htx ''Content-Length'' [''Content-Length: '', decimal n, CRLF] rq)"
  by (auto simp: fields4_def fields5_def status_line_of_def field_order)

lemma gen_CLength_fields:
  assumes "gen_CLength si rq os t = (Ret rq', t')" "fields4 date host code ext rq"
  shows "\<exists>code' n. fields5 date host code' ext n rq' \<and> rq_hrx rq' = rq_hrx rq \<and> rq_path rq' = rq_path rq
    \<and> rq_body rq' = rq_body rq \<and> rq_status rq' = rq_status rq
    \<and> n = (if rq_body rq = [] then os_count os (t @ [Sys_File_Size (c_str (rq_path rq))])
           else int (length (rq_body rq)))"
proof -
  let ?set = "\<lambda>n. set_htx ''Content-Length'' [''Content-Length: '', decimal n, CRLF] rq"
  from assms(1) obtain n t1 where
    n: "n = (if rq_body rq = [] then os_count os (t @ [Sys_File_Size (c_str (rq_path rq))])
           else int (length (rq_body rq)))"
    and r: "rq' = ?set n \<or> gen_startLine ''413'' (?set n) os t1 = (Ret rq', t')"
    by (fastforce simp: gen_CLength_def io_bind_Ret io_base Let_def split: if_splits)
  from set_length_field [OF assms(2)] have f: "fields5 date host code ext n (?set n)" .
  from r show ?thesis
  proof
    assume "rq' = ?set n"
    with f n show ?thesis by auto
  next
    assume "gen_startLine ''413'' (?set n) os t1 = (Ret rq', t')"
    from startLine_fields(3) [OF this f] startLine_fields(4-7) [OF this] n show ?thesis by auto
  qed
qed

text \<open>The text of an answer.\<close>

definition answer_text :: "string \<Rightarrow> string \<Rightarrow> int \<Rightarrow> string \<Rightarrow> string list \<Rightarrow> string \<Rightarrow> string \<Rightarrow> string" where
  "answer_text code msg n ext date host body =
     ''HTTP/1.1 '' @ code @ msg @ CRLF @ ''Content-Length: '' @ decimal n @ CRLF @ content_type ext
     @ concat date @ ''Server: '' @ host @ CRLF @ CRLF @ body"

lemma add_all_field_text:
  assumes "fields5 date host code ext n rq"
  shows "\<exists>msg. rq_status rq code = Some msg \<and> rq_response (add_all_field rq) = answer_text code msg n ext date host []"
  using assms by (auto simp: fields5_def status_line_of_def add_all_field_def answer_text_def)

lemma add_body_Ret:
  assumes "add_body rq os t = (Ret rq', t')"
  shows "\<exists>b. rq_response rq' = rq_response rq @ b \<and> rq_hrx rq' = rq_hrx rq \<and> rq_status rq' = rq_status rq
    \<and> (if htx ''A'' rq ! 1 = ''413'' then b = [] \<and> rq_body rq' = rq_body rq
       else if rq_body rq \<noteq> [] then b = rq_body rq \<and> rq_body rq' = []
       else rq_body rq' = [] \<and> (if take 1 (rq_hrx rq ''A'') \<in> {[''GET''], [''POST'']}
            then b = (case os_data os (t @ [Sys_Read_File (c_str (rq_path rq))]) of None \<Rightarrow> [] | Some s \<Rightarrow> s)
            else b = []))"
proof -
  have h: "take 1 v = [x] \<longleftrightarrow> v \<noteq> [] \<and> v ! 0 = x" for v :: "string list" and x by (cases v) auto
  from assms show ?thesis
    by (auto simp: add_body_def io_bind_Ret io_base vec_at_Ret h [unfolded One_nat_def] split: if_splits)
qed

section \<open>Properties\<close>

text \<open>
  C10. Every answer to a request that is no CGI request is framed: the status line with a message of the
  table, \<^verbatim>\<open>Content-Length\<close>, \<^verbatim>\<open>Content-Type\<close>, \<^verbatim>\<open>Date\<close> and
  \<^verbatim>\<open>Server\<close>, the empty line and a body.  As long as the files do not change, the announced length is the
  length of the body for \<^verbatim>\<open>GET\<close> and \<^verbatim>\<open>POST\<close>, but for an answer 413, whose body is
  left out, and a file that cannot be opened, announced with the length -1.  A body stays behind for the next answer
  only when this one is a 413.
\<close>

theorem answer_framed:
  assumes "writer si rq os t = (Ret rq', t')" "rq_htx rq = []" "\<not> at_is_cgi (rq_hrx rq ''A'')"
    "\<forall>t p. os_count os (t @ [Sys_File_Size p]) = (case file p of None \<Rightarrow> -1 | Some s \<Rightarrow> int (length s))"
    "\<forall>t p. os_data os (t @ [Sys_Read_File p]) = file p"
  shows "\<exists>code msg n ext date host body. rq_status rq code = Some msg
    \<and> rq_response rq' = answer_text code msg n ext [''Date: '' @ date @ CRLF] host body
    \<and> (n = int (length body) \<or> code = ''413'' \<or> n = -1 \<and> body = []
        \<or> take 1 (rq_hrx rq ''A'') \<notin> {[''GET''], [''POST'']} \<and> body = [])
    \<and> (rq_body rq' = [] \<or> code = ''413'' \<and> body = [])"
proof -
  from assms(1) obtain rq1 t1 rq2 t2 rq3 t3 rq4 t4 rq5 rq6 t6 rq7 t7 where
    w: "gen_startLine ''200'' rq os t = (Ret rq1, t1)" "gen_date rq1 os t1 = (Ret rq2, t2)"
      "dispatch si (gen_serv rq2) os t2 = (Ret rq3, t3)" "file_type si rq3 os t3 = (Ret rq4, t4)"
      "gen_CType [] rq4 = Ret rq5" "gen_CLength si rq5 os t4 = (Ret rq6, t6)"
      "add_body (add_all_field rq6) os t6 = (Ret rq7, t7)"
    and e: "rq' = rq7\<lparr>rq_hrx := (\<lambda>_. []), rq_htx := []\<rparr>"
    by (auto simp: writer_def io_bind_Ret io_base)
  from gen_date_serv [OF w(1,2) assms(2)] obtain date host
    where u: "under_way rq [''Date: '' @ date @ CRLF] host (gen_serv rq2)" by blast
  let ?date = "[''Date: '' @ date @ CRLF]"
  have h: "rq_hrx (gen_serv rq2) = rq_hrx rq"
    using startLine_fields(4) [OF w(1)] w(2) by (auto simp: gen_date_def gen_serv_def io_bind_Ret io_base)
  from framed.keep_dispatch [OF u] h assms(3) have "results (under_way rq ?date host) (dispatch si (gen_serv rq2))"
    by simp
  from resultsD [OF this w(3)] have u3: "under_way rq ?date host rq3" .
  then have "typed rq3 ?date host rq3" by (auto simp: typed_def under_way_def)
  from resultsD [OF typed_file_type [OF this] w(4)] have t4: "typed rq3 ?date host rq4" .
  from typed_CType [OF w(5) t4] obtain code4 ext where
    f5: "fields4 ?date host code4 ext rq5" and t5: "typed rq3 ?date host rq5" by blast
  from gen_CLength_fields [OF w(6) f5] obtain code n where
    f6: "fields5 ?date host code ext n rq6"
    and r6: "rq_hrx rq6 = rq_hrx rq5" "rq_path rq6 = rq_path rq5" "rq_body rq6 = rq_body rq5" "rq_status rq6 = rq_status rq5"
    and n: "n = (if rq_body rq5 = [] then os_count os (t4 @ [Sys_File_Size (c_str (rq_path rq5))]) else int (length (rq_body rq5)))"
    by blast
  from add_all_field_text [OF f6] obtain msg where m: "rq_status rq6 code = Some msg"
    "rq_response (add_all_field rq6) = answer_text code msg n ext ?date host []" by blast
  have a: "htx ''A'' (add_all_field rq6) ! 1 = code"
    using f6 by (auto simp: fields5_def status_line_of_def htx_def map_at_def add_all_field_def)
  have s: "rq_status rq5 = rq_status rq" "take 1 (rq_hrx rq5 ''A'') = take 1 (rq_hrx rq ''A'')"
    using t5 u3 by (auto simp: typed_def under_way_def)
  have p: "rq_hrx (add_all_field rq6) = rq_hrx rq5" "rq_body (add_all_field rq6) = rq_body rq5" "rq_path (add_all_field rq6) = rq_path rq5"
    using r6 by (simp_all add: add_all_field_def)
  have t: "answer_text code msg n ext ?date host [] @ b = answer_text code msg n ext ?date host b" for b
    by (simp add: answer_text_def)
  from add_body_Ret [OF w(7)] obtain b where
    b: "rq_response rq7 = answer_text code msg n ext ?date host b"
    and c: "if code = ''413'' then b = [] \<and> rq_body rq7 = rq_body rq5
       else if rq_body rq5 \<noteq> [] then b = rq_body rq5 \<and> rq_body rq7 = []
       else rq_body rq7 = [] \<and> (if take 1 (rq_hrx rq ''A'') \<in> {[''GET''], [''POST'']}
            then b = (case os_data os (t6 @ [Sys_Read_File (c_str (rq_path rq5))]) of None \<Rightarrow> [] | Some s \<Rightarrow> s)
            else b = [])"
    unfolding a p s(2) m(2) t by (elim exE conjE) (rule that)
  have "n = int (length b) \<or> code = ''413'' \<or> n = -1 \<and> b = []
        \<or> take 1 (rq_hrx rq ''A'') \<notin> {[''GET''], [''POST'']} \<and> b = []"
  proof (cases "code = ''413'' \<or> rq_body rq5 \<noteq> []")
    case True
    with c n show ?thesis by auto
  next
    case False
    with n assms(4) have "n = (case file (c_str (rq_path rq5)) of None \<Rightarrow> -1 | Some s \<Rightarrow> int (length s))" by simp
    moreover from False c assms(5) have "if take 1 (rq_hrx rq ''A'') \<in> {[''GET''], [''POST'']}
        then b = (case file (c_str (rq_path rq5)) of None \<Rightarrow> [] | Some s \<Rightarrow> s) else b = []" by simp
    ultimately show ?thesis by (auto split: option.splits if_splits)
  qed
  moreover have "rq_body rq7 = [] \<or> code = ''413'' \<and> b = []" using c by (auto split: if_splits)
  moreover have "rq_status rq code = Some msg" using m(1) s(1) r6(4) by simp
  moreover have "rq_response rq' = answer_text code msg n ext ?date host b" "rq_body rq' = rq_body rq7"
    using b e by simp_all
  ultimately show ?thesis by metis
qed


definition page_os :: os where
  "page_os = \<lparr>os_fs = (\<lambda>_. \<lparr>fs_stat = (\<lambda>_. Some 0x8000), fs_uninit = 0\<rparr>), os_ok = (\<lambda>_. True),
     os_fd = (\<lambda>_. 5), os_data = (\<lambda>_. Some ''hello''), os_count = (\<lambda>_. 5), os_time = (\<lambda>_. 0),
     os_text = (\<lambda>_. ''today''), os_exit = (\<lambda>_. None), os_ready = (\<lambda>_. None), os_events = (\<lambda>_. [])\<rparr>"

lemma numerals_atoi: "c_atoi ''200'' = Ret 200" "c_atoi ''404'' = Ret 404" "c_atoi ''405'' = Ret 405"
  by (simp_all add: c_atoi_def port_number_def isdigit_def digit_value_def isspace_def c_str_def int32_def)

lemma page_run:
  "\<exists>rq' t'. writer [img_server] (img_request ''GET'' ''/img/x'') page_os [] = (Ret rq', t')"
  by (simp add: writer_def gen_startLine_def img_defs numerals_atoi io_simps gen_date_def gen_serv_def dispatch_def
      at_is_cgi_def contains_find resolve_path_def vec_at_def img_cleaned cur_server_def cur_location_def
      take_location_def root_path_def set_hrx_def set_htx_def Let_def numeral_2_eq_2 file_type_def page_os_def
      error_path_def cur_code_def htx_def map_at_def field_order gen_CType_def find_last_of_def gen_CLength_def
      add_body_def add_all_field_def)

theorem answer_framed_witness:
  "\<exists>rq' t' code body. writer [img_server] (img_request ''GET'' ''/img/x'') page_os [] = (Ret rq', t')
     \<and> (\<exists>msg n ext date host. rq_response rq' = answer_text code msg n ext [''Date: '' @ date @ CRLF] host body)"
proof -
  from page_run obtain rq' t' where w: "writer [img_server] (img_request ''GET'' ''/img/x'') page_os [] = (Ret rq', t')"
    by blast
  have "rq_htx (img_request ''GET'' ''/img/x'') = []" "\<not> at_is_cgi (rq_hrx (img_request ''GET'' ''/img/x'') ''A'')"
    by (simp_all add: img_defs at_is_cgi_def contains_find)
  from answer_framed [OF w this, of "\<lambda>_. Some ''hello''"] w show ?thesis
    by (simp add: page_os_def) blast
qed


text \<open>The calls that change files.\<close>

definition patches :: "syscall \<Rightarrow> bool" where
  "patches c \<longleftrightarrow> (\<exists>k s. c = Sys_Patch_File ''files/error_pages/error_4xx.html'' k s)"

lemma makes_startLine [makes_intros]: "(\<And>c. patches c \<Longrightarrow> P c) \<Longrightarrow> makes P (gen_startLine code rq)"
  by (auto simp: gen_startLine_def patches_def split: option.split intro!: makes_intros)

lemma makes_follow_return: "makes patches (follow_return locs l rq)"
  by (auto simp: follow_return_def Let_def split: option.split intro!: makes_intros)

lemma makes_take_location: "makes patches (take_location locs uri i rq)"
  unfolding take_location_def Let_def by (intro makes_intros makes_follow_return)

lemma makes_location_loop: "makes patches (location_loop locs uri n len rq)"
  by (induction n arbitrary: len rq) (auto simp: Let_def intro!: makes_intros makes_take_location)

lemma makes_resolve_path: "makes patches (resolve_path si rq)"
  unfolding resolve_path_def Let_def by (intro makes_intros makes_location_loop) auto

definition writes_upload :: "string \<Rightarrow> syscall \<Rightarrow> bool" where
  "writes_upload url c \<longleftrightarrow> patches c \<or> (\<exists>p out. c = Sys_Write_File p out \<and> (p = c_str url \<or> prefix ''./files/'' p))"

definition removes_url :: "string \<Rightarrow> syscall \<Rightarrow> bool" where
  "removes_url url c \<longleftrightarrow> patches c \<or> c = Sys_Remove (c_str (if take 1 url = [SLASH] then CHR ''.'' # url else url))"

lemma split_body_url: "split_body b rq = (tmp, rq') \<Longrightarrow> rq_hrx rq' ''A'' = rq_hrx rq ''A''"
  by (auto simp: split_body_def split: list.splits if_splits option.splits)

lemma name_upload_url:
  "name_upload tmp rq = Ret rq' \<Longrightarrow> rq_hrx rq' ''A'' = rq_hrx rq ''A'' \<or>
     (\<exists>name. 1 < length (rq_hrx rq ''A'') \<and> rq_hrx rq' ''A'' = (rq_hrx rq ''A'')[1 := ''./files/'' @ name])"
  by (auto simp: name_upload_def Let_def rbind_eq_Inr vec_at_Ret split: option.splits)

lemma makes_upload:
  assumes "rq_hrx rq ''A'' ! 1 = url" 
    and m: "\<And>target rq. (\<And>s. writes_upload url (Sys_Write_File (c_str target) s)) \<Longrightarrow> makes (writes_upload url) (m target rq)"
  shows "makes (writes_upload url) (io_bind (io_of (name_upload tmp rq)) (\<lambda>rq.
     io_bind (io_of (vec_at (rq_hrx rq ''A'') 1)) (\<lambda>target.
     io_bind (m target rq) (\<lambda>body. io_bind (call os_ok (Sys_Write_File (c_str target) (out body))) (\<lambda>_.
     gen_startLine ''200'' rq)))))"
proof (rule makes_value, rule makes_value)
  fix rq' target
  assume "name_upload tmp rq = Ret rq'" "vec_at (rq_hrx rq' ''A'') 1 = Ret target"
  with name_upload_url [of tmp rq rq'] assms(1) have "target = url \<or> (\<exists>name. target = ''./files/'' @ name)"
    by (auto simp: vec_at_Ret)
  then have "writes_upload url (Sys_Write_File (c_str target) s)" for s
    by (auto simp: writes_upload_def c_str_def)
  then show "makes (writes_upload url) (io_bind (m target rq') (\<lambda>body.
      io_bind (call os_ok (Sys_Write_File (c_str target) (out body))) (\<lambda>_. gen_startLine ''200'' rq')))"
    by (intro makes_intros m) (simp_all add: writes_upload_def)
qed

lemma makes_first_body:
  "(\<And>s. writes_upload url (Sys_Write_File (c_str target) s)) \<Longrightarrow> makes (writes_upload url) (first_body target rq)"
  unfolding first_body_def by (cases "rq_hrx rq ''BODY''") (auto intro!: makes_intros)

lemma makes_post: "makes (writes_upload (rq_hrx rq ''A'' ! 1)) (handle_post_rqst si rq)"
  unfolding handle_post_rqst_def Let_def
  by (intro makes_value makes_if makes_startLine)
    (auto simp: writes_upload_def split: prod.split intro!: makes_upload makes_first_body dest: split_body_url)

lemma makes_delete: "makes (removes_url (rq_hrx rq ''A'' ! 1)) (handle_delete rq)"
  unfolding handle_delete_def Let_def
  by (intro makes_value makes_intros) (auto simp: removes_url_def vec_at_Ret)

text \<open>
  C17. Which files a request that is no CGI request changes, where no location redirects: \<^verbatim>\<open>DELETE\<close> removes the
  file the cleaned URL names below the working directory, whatever the root of the location;
  \<^verbatim>\<open>POST\<close> writes the file the URL names from the root of the file system, or one below
  \<^verbatim>\<open>./files/\<close>; both only when the location in force allows the method.  Apart from that only the error
  page is patched.
\<close>

definition allowed_at :: "locati_info list \<Rightarrow> string \<Rightarrow> string \<Rightarrow> bool" where
  "allowed_at locs uri meth \<longleftrightarrow> (\<exists>i<length locs. meth \<in> set (li_allowed_method (locs ! i))
     \<and> (longest locs uri (length locs) i \<or> i = 0 \<and> none_longer locs uri (length locs) 0))"

theorem changes_follow_url:
  assumes "dispatch si rq os t = (r, t')" "\<not> at_is_cgi (rq_hrx rq ''A'')" "rq_s_id rq = Some s"
    "plain_locations (si_location (si ! nat s))" "uri = clean_url (rq_hrx rq ''A'' ! 1)"
  shows "\<exists>u. t' = t @ u \<and> (\<forall>c\<in>set u. patches c
    \<or> allowed_at (si_location (si ! nat s)) uri (hd (rq_hrx rq ''A''))
      \<and> (hd (rq_hrx rq ''A'') = ''DELETE'' \<and> removes_url uri c
         \<or> hd (rq_hrx rq ''A'') = ''POST'' \<and> writes_upload uri c))"
proof -
  let ?rest = "\<lambda>(over, rq). if over then io_return rq
     else let meth = hd (rq_hrx rq ''A'') in if meth = ''POST'' then handle_post_rqst si rq
          else if meth = ''DELETE'' then handle_delete rq else io_return rq"
  from assms(1,2) have "io_bind (resolve_path si rq) ?rest os t = (r, t')" by (simp add: dispatch_def)
  then show ?thesis
  proof (cases rule: io_bind_cases)
    case (throws e)
    from makesD [OF makes_resolve_path throws(1)] show ?thesis by auto
  next
    case (runs x t1)
    obtain over rq1 where x: "x = (over, rq1)" by (cases x)
    show ?thesis
    proof (cases over)
      case True
      from makesD [OF makes_resolve_path runs(1)] runs(2) True show ?thesis by (auto simp: x io_base)
    next
      case False
      with runs(1) have rp: "resolve_path si rq os t = (Ret (False, rq1), t1)" by (simp add: x)
      from resolve_path_location [OF rp assms(3,4)] obtain i where
        a: "rq_hrx rq1 ''A'' = (rq_hrx rq ''A'')[1 := uri]" and t1: "t1 = t"
        and al: "allowed_at (si_location (si ! nat s)) uri (hd (rq_hrx rq ''A''))"
        unfolding Let_def assms(5) allowed_at_def by blast
      have l: "1 < length (rq_hrx rq ''A'')"
        using rp by (auto simp: resolve_path_def io_bind_Ret io_of_apply_Ret vec_at_Ret)
      then have h: "hd (rq_hrx rq1 ''A'') = hd (rq_hrx rq ''A'')" "rq_hrx rq1 ''A'' ! 1 = uri"
        unfolding a by (cases "rq_hrx rq ''A''"; simp)+
      have run: "(if hd (rq_hrx rq ''A'') = ''POST'' then handle_post_rqst si rq1
          else if hd (rq_hrx rq ''A'') = ''DELETE'' then handle_delete rq1 else io_return rq1) os t = (r, t')"
        using runs(2) False unfolding x prod.case t1 Let_def h(1) by simp
      show ?thesis
      proof (cases "hd (rq_hrx rq ''A'') = ''POST''")
        case True
        with run makesD [OF makes_post, of si rq1 os t r t'] al h(2) show ?thesis by auto
      next
        case np: False
        with run makesD [OF makes_delete, of rq1 os t r t'] al h(2) show ?thesis
          by (auto simp: io_base split: if_splits)
      qed
    qed
  qed
qed

lemma delete_resolved:
  "resolve_path [img_server] (img_request ''DELETE'' ''/img/x'') os t
     = (Ret (False, (img_request ''DELETE'' ''/img/x'')\<lparr>rq_path := ''pic/x'', rq_l_id := 1\<rparr>), t)"
  by (simp add: resolve_path_def img_defs vec_at_def img_cleaned cur_server_def cur_location_def
      take_location_def root_path_def io_simps numeral_2_eq_2 set_hrx_def Let_def fun_eq_iff)

theorem changes_follow_url_witness:
  "\<exists>r t'. dispatch [img_server] (img_request ''DELETE'' ''/img/x'') page_os [] = (r, t')
     \<and> t' = [Sys_Remove ''./img/x''] \<and> allowed_at (si_location img_server) ''/img/x'' ''DELETE''"
proof -
  have n: "\<not> at_is_cgi (rq_hrx (img_request ''DELETE'' ''/img/x'') ''A'')"
    by (simp add: img_defs at_is_cgi_def contains_find)
  have r: "\<exists>r. dispatch [img_server] (img_request ''DELETE'' ''/img/x'') page_os [] = (r, [Sys_Remove ''./img/x''])"
    using n delete_resolved [of page_os "[]"]
    by (simp add: dispatch_def io_simps handle_delete_def vec_at_def c_str_def page_os_def img_request_def set_hrx_def Let_def)
  then obtain r where d: "dispatch [img_server] (img_request ''DELETE'' ''/img/x'') page_os [] = (r, [Sys_Remove ''./img/x''])"
    by blast
  from changes_follow_url [OF d n, of 0] show ?thesis
    using d by (auto simp: img_defs plain_locations_def img_cleaned patches_def)
qed


text \<open>
  C30. A CGI request is never answered: the run of the script empties the vector of the start line, and
  \<open>gen_CType\<close> then reads its second element.
\<close>

lemma go_cgi_no_start_line:
  assumes "go_cgi mp s os t = (Ret mp', t')" "\<forall>t. os_ok os (t @ [Sys_Pipe])" "\<forall>t. os_fd os (t @ [Sys_Fork]) \<noteq> -1"
  shows "mp' ''A'' = []"
proof -
  have "os_fd os (t @ [Sys_Pipe, Sys_Pipe, Sys_Fork]) \<noteq> -1" "os_ok os (t @ [Sys_Pipe, Sys_Pipe])"
    using assms(2) [rule_format, of "t @ [Sys_Pipe]"] assms(3) [rule_format, of "t @ [Sys_Pipe, Sys_Pipe]"] by simp_all
  with assms(1,2) show ?thesis
    by (auto simp: go_cgi_def io_bind_Ret io_base Let_def split: if_splits option.splits)
qed

lemma handle_cgi_typed:
  assumes "handle_cgi si rq os t = (Ret rq', t')" "under_way rq0 date host rq" "rq_s_id rq \<noteq> Some (-1)"
    "\<forall>t. os_ok os (t @ [Sys_Pipe])" "\<forall>t. os_fd os (t @ [Sys_Fork]) \<noteq> -1"
  shows "typed rq' date host rq' \<and> rq_hrx rq' ''A'' = []"
proof -
  from assms(1) obtain over rq1 t1 where r: "resolve_path si rq os t = (Ret (over, rq1), t1)"
    and c: "(let rq = push_words ''query'' [rq_path rq1] rq1 in
     if rq_s_id rq = Some (-1) then io_return rq
     else io_bind (io_of (cur_server si rq)) (\<lambda>s. io_bind (go_cgi (rq_hrx rq) s) (\<lambda>mp.
       let rq = rq\<lparr>rq_hrx := mp\<rparr> in io_return (rq\<lparr>rq_response := cgi_response rq\<rparr>)))) os t1 = (Ret rq', t')"
    by (auto simp: handle_cgi_def io_bind_Ret)
  from resultsD [OF framed.keep_resolve_path [OF assms(2)] r] assms(2,3)
  have u: "under_way rq0 date host rq1" and s: "rq_s_id rq1 \<noteq> Some (-1)" by (auto simp: under_way_def)
  from c s obtain mp where "rq_hrx rq' = mp" "mp ''A'' = []" and h: "rq_htx rq' = rq_htx rq1" "rq_status rq' = rq_status rq1"
    by (auto simp: Let_def push_words_def io_bind_Ret io_base dest!: go_cgi_no_start_line [OF _ assms(4,5)])
  moreover have "fields3 date host code rq' = fields3 date host code rq1" for code
    by (simp add: fields3_def status_line_of_def h)
  then have "\<exists>code. fields3 date host code rq'" using u by (simp add: under_way_def)
  ultimately show ?thesis by (auto simp: typed_def)
qed

theorem cgi_never_answered:
  assumes "at_is_cgi (rq_hrx rq ''A'')" "rq_htx rq = []" "rq_s_id rq \<noteq> Some (-1)"
    "\<forall>t. os_ok os (t @ [Sys_Pipe])" "\<forall>t. os_fd os (t @ [Sys_Fork]) \<noteq> -1"
  shows "writer si rq os t \<noteq> (Ret rq', t')"
proof
  assume "writer si rq os t = (Ret rq', t')"
  then obtain rq1 t1 rq2 t2 rq3 t3 rq4 t4 rq5 where
    w: "gen_startLine ''200'' rq os t = (Ret rq1, t1)" "gen_date rq1 os t1 = (Ret rq2, t2)"
      "dispatch si (gen_serv rq2) os t2 = (Ret rq3, t3)" "file_type si rq3 os t3 = (Ret rq4, t4)"
      "gen_CType [] rq4 = Ret rq5"
    by (auto simp: writer_def io_bind_Ret io_base)
  have h: "rq_hrx (gen_serv rq2) = rq_hrx rq" "rq_s_id (gen_serv rq2) = rq_s_id rq"
    using startLine_fields(4,8) [OF w(1)] w(2) by (auto simp: gen_date_def gen_serv_def io_bind_Ret io_base)
  from gen_date_serv [OF w(1,2) assms(2)] obtain date host where "under_way rq date host (gen_serv rq2)" by blast
  moreover from w(3) h assms(1) have "handle_cgi si (gen_serv rq2) os t2 = (Ret rq3, t3)" by (simp add: dispatch_def)
  ultimately have "typed rq3 date host rq3" and e: "rq_hrx rq3 ''A'' = []"
    using handle_cgi_typed assms(3-5) h(2) by metis+
  from resultsD [OF typed_file_type [OF this(1)] w(4)] e have "rq_hrx rq4 ''A'' = []" by (simp add: typed_def)
  with w(5) show False by (simp add: gen_CType_def vec_at_def)
qed

theorem cgi_never_answered_witness:
  "\<forall>rq' t'. writer [img_server] (img_request ''GET'' ''/a.php'') page_os [] \<noteq> (Ret rq', t')"
  by (intro allI cgi_never_answered) (simp_all add: img_defs at_is_cgi_def contains_find page_os_def)


end
