(* ===== verification/ATServer.thy ===== *)
theory ATServer
  imports ATClientHandler ATWriter
begin

text \<open>
  \<^verbatim>\<open>ATwebserv/server.cpp/.hpp\<close> and \<^verbatim>\<open>ATwebserv/main.cpp\<close>: the listening sockets, one round of the
  event loop, and the program.  An exception ends the process, so an operation that throws
  needs no state.  \<open>send\<close> to a closed connection is taken to return -1; the signal that comes
  with it where \<^verbatim>\<open>MSG_NOSIGNAL\<close> is not set is not modelled.
\<close>

section \<open>Listening\<close>

text \<open>Has an earlier virtual server the same host and port?\<close>

definition bound_before :: "server_info list \<Rightarrow> nat \<Rightarrow> bool" where
  "bound_before s i \<longleftrightarrow>
     (\<exists>j<i. si_host (s ! j) = si_host (s ! i) \<and> si_port (s ! j) = si_port (s ! i))"

definition open_server :: "server_info \<Rightarrow> server_info io" where
  "open_server s =
     io_bind (io_of (c_atoi (si_port s))) (\<lambda>port.
     io_bind (call os_fd Sys_Socket) (\<lambda>fd.
     if fd < 0 then io_throw (Runtime_Error ''ERROR IN SOCKET ATTRIBUTION'')
     else io_bind (call os_ok (Sys_Bind fd (word_of_int port))) (\<lambda>ok.
     if \<not> ok then io_throw (Runtime_Error ''ERROR IN SOCKET ATTRIBUTION'')
     else io_bind (call os_ok (Sys_Listen fd 0)) (\<lambda>ok.
     if \<not> ok then io_throw (Runtime_Error ''ERROR IN SOCKET ATTRIBUTION'')
     else io_bind (call os_ok (Sys_Setsockopt fd)) (\<lambda>_.
          io_bind (call os_ok (Sys_Fcntl fd)) (\<lambda>ok.
          if \<not> ok then io_throw (Exit 1)
          else io_bind (call os_ok (Sys_Epoll_Ctl EPOLL_CTL_ADD fd fd)) (\<lambda>ok.
               if \<not> ok then io_throw (Runtime_Error ''ERROR IN EPOLL_CTL MANIPULATION'')
               else io_return (s\<lparr>si_socket := fd\<rparr>))))))))"

text \<open>The loop over the servers; the result is their list and \<^verbatim>\<open>_event.data.fd\<close>.\<close>

fun init_loop :: "nat \<Rightarrow> nat \<Rightarrow> server_info list \<Rightarrow> int \<Rightarrow> (server_info list \<times> int) io" where
  "init_loop 0 i s ev = io_return (s, ev)"
| "init_loop (Suc n) i s ev =
     (if bound_before s i
      then io_bind (io_of (c_atoi (si_port (s ! i)))) (\<lambda>_. init_loop n (i + 1) s ev)
      else io_bind (open_server (s ! i)) (\<lambda>x. init_loop n (i + 1) (s[i := x]) (si_socket x)))"

definition at_initialize :: "server_info list \<Rightarrow> (server_info list \<times> int) io" where
  "at_initialize s =
     io_bind (call os_fd Sys_Epoll_Create) (\<lambda>fd.
     if fd = -1 then io_throw (Runtime_Error ''ERROR IN EPOLL INSTANCE CREATION'')
     else init_loop (length s) 0 s 0)"

section \<open>The loop\<close>

record at_server =
  at_s :: "server_info list"
  at_ev :: int
  at_clients :: clients
  at_header :: request_handler

text \<open>-1 for a descriptor of no server.\<close>

definition is_new_client :: "server_info list \<Rightarrow> int \<Rightarrow> int" where
  "is_new_client s fd = (case find_idx (\<lambda>x. fd = si_socket x) s of None \<Rightarrow> -1 | Some i \<Rightarrow> int i)"

definition get_time_out :: "server_info list \<Rightarrow> int \<Rightarrow> int res" where
  "get_time_out s id_serv = rbind (vec_at s id_serv) (\<lambda>x. c_atoi (si_time_out x))"

definition set_at_clients :: "clients \<Rightarrow> at_server \<Rightarrow> at_server" where
  "set_at_clients m st = st\<lparr>at_clients := m\<rparr>"

definition rearm_client :: "int \<Rightarrow> at_server \<Rightarrow> at_server io" where
  "rearm_client fd st =
     io_bind (rearm (at_ev st) (ci_time_out (client_of fd (at_clients st))) fd (at_clients st)) (\<lambda>m.
     io_return (set_at_clients m st))"

text \<open>Sending the answer: a long one in chunks.\<close>

definition send_answer :: "int \<Rightarrow> string \<Rightarrow> int \<Rightarrow> clients \<Rightarrow> clients io" where
  "send_answer ev response fd m =
     (if MAX_LEN < length response
      then io_bind (chunked_resp fd (fill_resp fd response m)) (\<lambda>(over, m).
           if over then remove_fd ev fd m else io_return m)
      else io_bind (call os_count (Sys_Send fd response)) (\<lambda>_. remove_fd ev fd m))"

definition response_handler :: "int \<Rightarrow> at_server \<Rightarrow> at_server io" where
  "response_handler fd st =
     io_bind (io_of (is_request_fulfilled fd (at_clients st))) (\<lambda>(complete, m).
     let st = set_at_clients m st in
     if \<not> complete then rearm_client fd st
     else io_bind (io_of (reader (at_s st) (get_rqst fd m) (at_header st))) (\<lambda>rq.
          io_bind (writer (at_s st) rq) (\<lambda>rq.
          io_bind (send_answer (at_ev st) (rq_response rq) fd (clear_rqst fd m)) (\<lambda>m.
          io_return (st\<lparr>at_header := rq, at_clients := m\<rparr>)))))"

fun respond_all :: "int list \<Rightarrow> at_server \<Rightarrow> at_server io" where
  "respond_all [] st = io_return st"
| "respond_all (fd # fds) st = io_bind (response_handler fd st) (respond_all fds)"

definition accept_event :: "int \<Rightarrow> int \<Rightarrow> at_server \<Rightarrow> at_server io" where
  "accept_event fd serv_id st =
     io_bind (io_of (get_time_out (at_s st) serv_id)) (\<lambda>time_out.
     io_bind (at_add fd time_out (at_clients st)) (\<lambda>(ev, m).
     io_return (st\<lparr>at_ev := ev, at_clients := m\<rparr>)))"

definition client_event :: "int \<Rightarrow> at_server \<Rightarrow> at_server io" where
  "client_event fd st =
     io_bind (call os_data (Sys_Recv fd)) (\<lambda>answer.
     case answer of
       Some str \<Rightarrow> response_handler fd (set_at_clients (rqst_append fd str (at_clients st)) st)
     | None \<Rightarrow> rearm_client fd st)"

fun event_loop :: "int list \<Rightarrow> at_server \<Rightarrow> at_server io" where
  "event_loop [] st = io_return st"
| "event_loop (fd # fds) st =
     (let serv_id = is_new_client (at_s st) fd
      in io_bind (if 0 \<le> serv_id then accept_event fd serv_id st else client_event fd st)
           (event_loop fds))"

definition at_round :: "at_server \<Rightarrow> at_server io" where
  "at_round st =
     io_bind (handle_chunks (at_ev st) (at_clients st)) (\<lambda>(chunks, m).
     io_bind (respond_all chunks (set_at_clients m st)) (\<lambda>st.
     io_bind (call os_events Sys_Epoll_Wait) (\<lambda>events.
     io_bind (event_loop events st) (\<lambda>st.
     io_bind (check_all_timeout (at_ev st) (at_clients st)) (\<lambda>m.
     io_return (set_at_clients m st))))))"

section \<open>The program\<close>

text \<open>
  The constructor of \<^verbatim>\<open>server\<close>.  It copies the servers its \<^verbatim>\<open>config_checker\<close> has read, which is deleted with it,
  also when an exception leaves the constructor; both use \<^verbatim>\<open>_si\<close>, which is set to nothing when the reference
  file is missing.
\<close>

definition at_server_init :: "(string \<Rightarrow> string option) \<Rightarrow> string \<Rightarrow> server_info list res option" where
  "at_server_init files av =
     map_option (\<lambda>r. if config_checker_init files then r else Throw (Undef ''_si''))
       (check_conFile files (config_checker_init files) av)"

text \<open>Everything before the loop.  \<open>None\<close>: the configuration file is read for ever.\<close>

definition at_start :: "(string \<Rightarrow> string option) \<Rightarrow> string list \<Rightarrow> (at_server io) option" where
  "at_start files argv =
     (let path = (if length argv \<noteq> 2 then ''./configuration_files/valid/simple.conf'' else argv ! 1) in
      map_option (\<lambda>r.
        io_bind (io_of r) (\<lambda>s.
        io_bind (at_initialize s) (\<lambda>(s, ev).
        io_bind (io_of (request_handler_init files)) (\<lambda>header.
        io_return \<lparr>at_s = s, at_ev = ev, at_clients = [], at_header = header\<rparr>))))
      (at_server_init files path))"

text \<open>
  What \<^verbatim>\<open>main\<close> returns when an exception leaves the \<^verbatim>\<open>try\<close> block: 0, since one of the
  handlers takes it; \<open>None\<close> where nothing is known or nothing is returned.
\<close>

fun at_main_end :: "exn \<Rightarrow> int option" where
  "at_main_end (Exit n) = Some n"
| "at_main_end (Undef s) = None"
| "at_main_end Never_Returns = None"
| "at_main_end (Str_Exn s) = Some 0"
| "at_main_end Out_Of_Range = Some 0"
| "at_main_end (Runtime_Error s) = Some 0"
| "at_main_end (Invalid_Argument s) = Some 0"

text \<open>The states \<open>st\<close> of the loop that was started in \<open>st0\<close>.\<close>

definition at_reaches :: "(string \<Rightarrow> string option) \<Rightarrow> string list \<Rightarrow> os \<Rightarrow> at_server \<Rightarrow> at_server \<Rightarrow> history \<Rightarrow> bool" where
  "at_reaches files argv os st0 st t \<longleftrightarrow> (case at_start files argv of
     None \<Rightarrow> False
   | Some m \<Rightarrow> fst (m os []) = Ret st0 \<and> loop_reaches m at_round os st t)"

section \<open>The map of clients stays a map\<close>

lemma sorted_erase [simp]: "sorted_map m \<Longrightarrow> sorted_map (map_erase k m)"
  by (rule sorted_map_erase)

lemma sorted_setters [simp]:
  assumes "sorted_map m"
  shows "sorted_map (clear_rqst fd m)" "sorted_map (rqst_append fd s m)" "sorted_map (set_resp fd s m)"
    "sorted_map (fill_resp fd s m)"
  using assms by (auto simp: upd_defs fill_resp_def Let_def split: option.split)

lemma sorted_fulfilled: "is_request_fulfilled fd m = Ret (b, m') \<Longrightarrow> sorted_map m \<Longrightarrow> sorted_map m'"
  by (auto simp: is_request_fulfilled_def rbind_eq_Inr sorted_map_put)

lemma sorted_timer: "sorted_map m \<Longrightarrow> results sorted_map (start_timer fd n m)"
  unfolding start_timer_def by (intro results_any results_return) simp

lemma sorted_reset: "sorted_map m \<Longrightarrow> results sorted_map (time_reset n fd m)"
  unfolding time_reset_def by (intro results_if results_return sorted_timer)

lemma sorted_reset_of: "sorted_map m \<Longrightarrow> results sorted_map (reset_of fd m)"
  unfolding reset_of_def by (rule sorted_reset)

lemma sorted_rearm: "sorted_map m \<Longrightarrow> results sorted_map (rearm ev n fd m)"
  unfolding rearm_def by (intro results_any results_if results_throw sorted_timer)

lemma sorted_remove: "sorted_map m \<Longrightarrow> results sorted_map (remove_fd ev fd m)"
  unfolding remove_fd_def by (intro results_any results_return) simp

lemma sorted_add: "sorted_map m \<Longrightarrow> results (\<lambda>(ev, m). sorted_map m) (at_add fd n m)"
  unfolding at_add_def
  by (rule results_any, rule results_if, rule results_throw, rule results_any, rule results_any, rule results_if,
      rule results_throw, rule results_any, rule results_if, rule results_throw, rule results_bind [OF sorted_timer])
    (simp_all add: results_return)

abbreviation sorted_snd :: "'a \<times> clients \<Rightarrow> bool" where
  "sorted_snd \<equiv> \<lambda>(b, m). sorted_map m"

lemma sorted_send:
  "sorted_map m \<Longrightarrow> (\<And>m. sorted_map m \<Longrightarrow> results sorted_snd (k m)) \<Longrightarrow> results sorted_snd (send_or_clear fd s m k)"
  unfolding send_or_clear_def by (rule results_any) (auto intro!: results_if results_return)

lemma sorted_send_chunk: "sorted_map m \<Longrightarrow> results sorted_snd (send_chunk fd m)"
  unfolding send_chunk_def Let_def
  by (auto intro!: results_if sorted_send results_bind [OF sorted_reset_of] results_return)

lemma sorted_resp: "sorted_map m \<Longrightarrow> results sorted_snd (chunked_resp fd m)"
  unfolding chunked_resp_def send_head_def Let_def
  by (auto intro!: results_if results_value sorted_send results_bind [OF sorted_reset_of] sorted_send_chunk)

lemma sorted_rqst:
  assumes "sorted_map m"
  shows "results sorted_snd (chunked_rqst fd m)"
  unfolding chunked_rqst_def
proof (rule results_any, rule results_bind)
  fix answer :: "string option"
  show "results sorted_map (case answer of None \<Rightarrow> io_return m
     | Some str \<Rightarrow> let m = rqst_append fd str m in time_reset (ci_time_out (client_of fd m)) fd m)"
    using assms by (cases answer) (simp_all add: results_return sorted_reset Let_def)
  fix m :: clients assume "sorted_map m"
  then show "results sorted_snd (io_of (is_request_fulfilled fd m))"
    by (auto intro!: results_of dest: sorted_fulfilled)
qed

lemma sorted_chunks_loop: "sorted_map m \<Longrightarrow> results sorted_snd (chunks_loop ev fds m)"
proof (induction fds arbitrary: m)
  case Nil
  then show ?case by (simp add: results_return)
next
  case (Cons fd fds)
  have r: "results sorted_snd (if over then io_bind (chunks_loop ev fds m) (\<lambda>(ret, m). io_return (fd # ret, m))
      else io_bind (rearm ev n fd m) (chunks_loop ev fds))" if "sorted_map m" for over m n
    using that by (intro results_if results_bind [OF Cons.IH] results_bind [OF sorted_rearm] Cons.IH)
      (auto intro: results_return)
  have s: "results sorted_snd (if over then io_bind (remove_fd ev fd m) (\<lambda>_. io_throw e)
      else chunks_loop ev fds m)" if "sorted_map m" for over m e
    using that by (intro results_if results_any results_throw Cons.IH)
  show ?case
    using Cons.prems by (auto intro!: results_bind [OF sorted_rqst] results_bind [OF sorted_resp] r s Cons.IH)
qed

lemma sorted_handle: "sorted_map m \<Longrightarrow> results sorted_snd (handle_chunks ev m)"
  unfolding handle_chunks_def by (rule sorted_chunks_loop)

lemma sorted_timeouts: "sorted_map m \<Longrightarrow> results sorted_map (check_all_timeout ev m)"
  unfolding check_all_timeout_def by (intro results_any results_return)

section \<open>The states of the loop\<close>

definition id_in :: "server_info list \<Rightarrow> request_handler \<Rightarrow> bool" where
  "id_in s rq \<longleftrightarrow> (case rq_s_id rq of None \<Rightarrow> True | Some i \<Rightarrow> 0 \<le> i \<and> i < int (length s))"

definition fresh :: "(string \<Rightarrow> string option) \<Rightarrow> server_info list \<Rightarrow> request_handler \<Rightarrow> bool" where
  "fresh table s rq \<longleftrightarrow> rq_hrx rq = (\<lambda>_. []) \<and> rq_htx rq = [] \<and> rq_status rq = table \<and> id_in s rq"

definition at_ok :: "(string \<Rightarrow> string option) \<Rightarrow> server_info list \<Rightarrow> at_server \<Rightarrow> bool" where
  "at_ok table s st \<longleftrightarrow> at_s st = s \<and> sorted_map (at_clients st) \<and> fresh table s (at_header st)"

lemma header_lines_fields:
  "rq_s_id (header_lines str ls rq) = rq_s_id rq" "rq_htx (header_lines str ls rq) = rq_htx rq"
  "rq_status (header_lines str ls rq) = rq_status rq"
  by (induction str ls rq rule: header_lines.induct) (auto simp: push_words_def split: list.splits)

lemma set_server_id_fields:
  assumes "set_server_id si rq = Ret rq'" "id_in si rq"
  shows "id_in si rq' \<and> rq_htx rq' = rq_htx rq \<and> rq_status rq' = rq_status rq"
proof -
  from assms(1) obtain host port where r: "rq' = (case find_idx (\<lambda>s. (si_host s = host \<or> si_server_name s = host) \<and> si_port s = port) si of
            Some i \<Rightarrow> rq\<lparr>rq_s_id := Some (int i)\<rparr>
          | None \<Rightarrow>
              (case find_idx (\<lambda>s. si_port s = port) (rev si) of
                 Some k \<Rightarrow> rq\<lparr>rq_s_id := Some (int (length si - 1 - k))\<rparr>
               | None \<Rightarrow> rq))" (is "rq' = (case ?f of Some i \<Rightarrow> _ i | None \<Rightarrow> (case ?g of Some k \<Rightarrow> _ k | None \<Rightarrow> _))")
    by (auto simp: set_server_id_def rbind_eq_Inr Let_def)
  show ?thesis
  proof (cases ?f)
    case (Some i)
    with r find_idx_bound [OF Some] show ?thesis by (simp add: id_in_def)
  next
    case f: None
    show ?thesis
    proof (cases ?g)
      case None
      with r f assms(2) show ?thesis by simp
    next
      case (Some k)
      with find_idx_bound [OF Some] r f show ?thesis by (simp add: id_in_def)
    qed
  qed
qed

lemma reader_fields:
  assumes "reader si rqst rq = Ret rq'" "fresh table si rq"
  shows "id_in si rq' \<and> rq_htx rq' = [] \<and> rq_status rq' = table"
proof -
  define rq1 where "rq1 = (case getlines (c_str rqst) of [] \<Rightarrow> rq
      | line # ls \<Rightarrow> header_lines (c_str rqst) ls (push_words ''A'' (words_of line) rq))"
  then have f: "rq_s_id rq1 = rq_s_id rq" "rq_htx rq1 = rq_htx rq" "rq_status rq1 = rq_status rq"
    by (simp_all add: header_lines_fields push_words_def split: list.split)
  have r: "set_server_id si rq1 = Ret rq'" using assms(1) by (simp add: reader_def rq1_def Let_def)
  from set_server_id_fields [OF r] f assms(2) show ?thesis by (auto simp: fresh_def id_in_def)
qed

lemma fresh_writer:
  assumes "id_in si rq" "rq_status rq = table"
  shows "results (fresh table si) (writer si rq)"
  unfolding results_def
proof (intro allI impI)
  fix os t rq' t' assume w: "writer si rq os t = (Ret rq', t')"
  from resultsD [OF settled.keep_writer w] assms have "rq_status rq' = table" "rq_s_id rq' = rq_s_id rq" by auto
  moreover from w have "rq_hrx rq' = (\<lambda>_. []) \<and> rq_htx rq' = []"
    by (auto simp: writer_def io_bind_Ret io_base)
  ultimately show "fresh table si rq'" using assms(1) by (simp add: fresh_def id_in_def)
qed

lemma at_ok_clients: "at_ok table s st \<Longrightarrow> sorted_map m \<Longrightarrow> at_ok table s (set_at_clients m st)"
  by (simp add: at_ok_def set_at_clients_def)

lemma ok_rearm: "at_ok table s st \<Longrightarrow> results (at_ok table s) (rearm_client fd st)"
  unfolding rearm_client_def
  by (rule results_bind [OF sorted_rearm]) (auto simp: at_ok_def set_at_clients_def intro!: results_return)

lemma sorted_answer: "sorted_map m \<Longrightarrow> results sorted_map (send_answer ev r fd m)"
  unfolding send_answer_def
  by (rule results_if, rule results_bind [OF sorted_resp], simp)
    (auto intro!: results_if sorted_remove results_return results_any [where m = "call _ _"])

lemma ok_response:
  assumes "at_ok table s st"
  shows "results (at_ok table s) (response_handler fd st)"
  unfolding response_handler_def
proof (rule results_value)
  fix x assume x: "is_request_fulfilled fd (at_clients st) = Ret x"
  obtain b m where [simp]: "x = (b, m)" by (cases x)
  have m: "sorted_map m" using x assms by (auto simp: at_ok_def dest: sorted_fulfilled)
  have w: "results (at_ok table s) (io_bind (writer (at_s st) rq) (\<lambda>rq.
      io_bind (send_answer ev (rq_response rq) fd (clear_rqst fd m)) (\<lambda>m.
      io_return (st\<lparr>at_header := rq, at_clients := m\<rparr>))))"
    if "reader (at_s st) r (at_header st) = Ret rq" for rq r ev
  proof (rule results_bind [OF fresh_writer])
    show "id_in (at_s st) rq" "rq_status rq = table"
      using reader_fields [OF that, of table] assms by (auto simp: at_ok_def)
    fix rq' assume "fresh table (at_s st) rq'"
    then show "results (at_ok table s) (io_bind (send_answer ev (rq_response rq') fd (clear_rqst fd m)) (\<lambda>m.
      io_return (st\<lparr>at_header := rq', at_clients := m\<rparr>)))"
      using m assms by (intro results_bind [OF sorted_answer] results_return) (auto simp: at_ok_def)
  qed
  show "results (at_ok table s) (case x of (complete, m) \<Rightarrow>
     let st = set_at_clients m st in
     if \<not> complete then rearm_client fd st
     else io_bind (io_of (reader (at_s st) (get_rqst fd m) (at_header st))) (\<lambda>rq.
          io_bind (writer (at_s st) rq) (\<lambda>rq.
          io_bind (send_answer (at_ev st) (rq_response rq) fd (clear_rqst fd m)) (\<lambda>m.
          io_return (st\<lparr>at_header := rq, at_clients := m\<rparr>)))))"
    using ok_rearm [OF at_ok_clients [OF assms m]]
    by (auto simp: Let_def set_at_clients_def intro!: results_value w)
qed

lemma ok_respond_all: "at_ok table s st \<Longrightarrow> results (at_ok table s) (respond_all fds st)"
  by (induction fds arbitrary: st) (auto intro: results_return results_bind [OF ok_response])

lemma ok_accept:
  assumes "at_ok table s st"
  shows "results (at_ok table s) (accept_event fd i st)"
  unfolding accept_event_def
  by (rule results_value, rule results_bind [OF sorted_add])
    (use assms in \<open>auto simp: at_ok_def intro!: results_return\<close>)

lemma ok_client:
  assumes "at_ok table s st"
  shows "results (at_ok table s) (client_event fd st)"
  unfolding client_event_def
proof (rule results_any)
  fix answer :: "string option"
  have "at_ok table s (set_at_clients (rqst_append fd str (at_clients st)) st)" for str
    using assms by (intro at_ok_clients) (simp_all add: at_ok_def)
  then show "results (at_ok table s) (case answer of
       Some str \<Rightarrow> response_handler fd (set_at_clients (rqst_append fd str (at_clients st)) st)
     | None \<Rightarrow> rearm_client fd st)"
    using assms by (cases answer) (simp_all add: ok_rearm ok_response)
qed

lemma ok_events: "at_ok table s st \<Longrightarrow> results (at_ok table s) (event_loop fds st)"
proof (induction fds arbitrary: st)
  case (Cons fd fds)
  then show ?case
    by (auto simp: Let_def intro!: results_bind [OF ok_accept] results_bind [OF ok_client])
qed (simp add: results_return)

lemma ok_round:
  assumes "at_ok table s st"
  shows "results (at_ok table s) (at_round st)"
  unfolding at_round_def
proof (rule results_bind [OF sorted_handle])
  show "sorted_map (at_clients st)" using assms by (simp add: at_ok_def)
  fix x :: "int list \<times> clients" assume "sorted_snd x"
  moreover obtain chunks m where "x = (chunks, m)" by (cases x)
  moreover have "results (at_ok table s) (io_bind (check_all_timeout ev (at_clients st)) (\<lambda>m.
      io_return (set_at_clients m st)))" if "at_ok table s st" for ev st
    using that by (intro results_bind [OF sorted_timeouts] results_return at_ok_clients) (simp_all add: at_ok_def)
  ultimately show "results (at_ok table s) (case x of (chunks, m) \<Rightarrow>
     io_bind (respond_all chunks (set_at_clients m st)) (\<lambda>st.
     io_bind (call os_events Sys_Epoll_Wait) (\<lambda>events.
     io_bind (event_loop events st) (\<lambda>st.
     io_bind (check_all_timeout (at_ev st) (at_clients st)) (\<lambda>m.
     io_return (set_at_clients m st))))))"
    using at_ok_clients [OF assms] by (auto intro!: results_bind [OF ok_respond_all] results_any [where m = "call _ _"] results_bind [OF ok_events])
qed


section \<open>Before the loop\<close>

lemma open_server_keeps: "P (s\<lparr>si_socket := 0\<rparr>) \<Longrightarrow> (\<And>fd s. P (s\<lparr>si_socket := fd\<rparr>) = P s) \<Longrightarrow> results P (open_server s)"
  unfolding open_server_def
  by (rule results_value, rule results_any, rule results_if, rule results_throw, rule results_any, rule results_if,
      rule results_throw, rule results_any, rule results_if, rule results_throw, rule results_any, rule results_any,
      rule results_if, rule results_throw, rule results_any, rule results_if, rule results_throw) (auto intro: results_return)

lemma init_loop_ports:
  "list_all port_ok s \<Longrightarrow> i + n \<le> length s \<Longrightarrow> results (\<lambda>(s, ev). list_all port_ok s) (init_loop n i s ev)"
proof (induction n arbitrary: i s ev)
  case (Suc n)
  then have "port_ok (s ! i)" by (simp add: list_all_length)
  then have o: "results port_ok (open_server (s ! i))"
    by (intro open_server_keeps) (simp_all add: port_ok_def)
  have u: "list_all port_ok (s[i := x])" if "port_ok x" for x
    using Suc.prems(1) that by (auto simp: list_all_iff dest: set_update_subset_insert [THEN subsetD])
  show ?case
    using Suc.prems u by (auto intro!: results_value results_bind [OF o] Suc.IH)
qed (simp add: results_return)

lemma start_ok:
  assumes "at_start files argv = Some m" "m os [] = (Ret st, t)"
  shows "\<exists>table. at_ok table (at_s st) st \<and> list_all port_ok (at_s st)"
proof -
  from assms(1) obtain path r where c: "at_server_init files path = Some r"
    and m: "m = io_bind (io_of r) (\<lambda>s. io_bind (at_initialize s) (\<lambda>(s, ev).
        io_bind (io_of (request_handler_init files)) (\<lambda>header.
        io_return \<lparr>at_s = s, at_ev = ev, at_clients = [], at_header = header\<rparr>)))"
    by (auto simp: at_start_def Let_def)
  from assms(2) obtain sis s ev header t1 where r: "r = Ret sis"
    and i: "at_initialize sis os [] = (Ret (s, ev), t1)"
    and h: "request_handler_init files = Ret header"
    and st: "st = \<lparr>at_s = s, at_ev = ev, at_clients = [], at_header = header\<rparr>"
    by (auto simp: m io_bind_Ret io_base)
  from c r have "check_conFile files (config_checker_init files) path = Some (Ret sis)"
    by (auto simp: at_server_init_def split: if_splits)
  then have "list_all port_ok sis" by (rule check_conFile_port_ok)
  then have "results (\<lambda>(s, ev). list_all port_ok s) (at_initialize sis)"
    unfolding at_initialize_def by (intro results_any results_if results_throw init_loop_ports) simp_all
  from resultsD [OF this i] have "list_all port_ok s" by simp
  moreover have "fresh (rq_status header) s header"
    using h by (auto simp: request_handler_init_def fresh_def id_in_def split: option.splits)
  ultimately show ?thesis by (auto simp: st at_ok_def)
qed

text \<open>The loop from a start of the program, which fixes the servers and the table of messages.\<close>

interpretation serving: server_loop m at_round os
  "\<lambda>st t. \<forall>files argv st0. at_start files argv = Some m \<and> fst (m os []) = Ret st0 \<longrightarrow>
     at_ok (rq_status (at_header st0)) (at_s st0) st \<and> list_all port_ok (at_s st0)" for m os
proof unfold_locales
  fix st t
  assume m: "m os [] = (Ret st, t)"
  have "at_ok (rq_status (at_header st)) (at_s st) st \<and> list_all port_ok (at_s st)"
    if "at_start files argv = Some m" for files argv
    using start_ok [where files = files and argv = argv and m = m and os = os and st = st and t = t] that m
    by (auto simp: at_ok_def fresh_def)
  with m show "\<forall>files argv st0. at_start files argv = Some m \<and> fst (m os []) = Ret st0 \<longrightarrow>
     at_ok (rq_status (at_header st0)) (at_s st0) st \<and> list_all port_ok (at_s st0)" by auto
qed (blast dest: resultsD [OF ok_round])

section \<open>Properties\<close>

text \<open>
  C5. Every state the second server's loop reaches keeps the servers and the table of messages it was started with, each
  port empty or between 80 and 65535, a map of clients in order, and a handler with no field of an
  earlier request or answer in it, whose virtual server, when one was chosen, exists.
\<close>

theorem at_reachable_states:
  assumes "at_reaches files argv os st0 st t"
  shows "at_s st = at_s st0 \<and> rq_status (at_header st) = rq_status (at_header st0)
    \<and> list_all (\<lambda>s. si_port s = [] \<or> good_port (si_port s)) (at_s st) \<and> sorted_map (at_clients st)
    \<and> rq_hrx (at_header st) = (\<lambda>_. []) \<and> rq_htx (at_header st) = [] \<and> id_in (at_s st) (at_header st)"
proof -
  from assms obtain m where m: "at_start files argv = Some m" "fst (m os []) = Ret st0" "loop_reaches m at_round os st t"
    by (auto simp: at_reaches_def split: option.splits)
  from serving.reached [OF m(3)] m(1,2) show ?thesis by (auto simp: at_ok_def fresh_def port_ok_def [abs_def])
qed

definition at_files :: "string \<Rightarrow> string option" where
  "at_files = (\<lambda>_. None)(''./configuration_files/webserv_config.txt'' := Some [],
     ''a.conf'' := Some (conf_text [sample_info]),
     ''configuration_files/HTML_status_msg.txt'' := Some (''200 OK'' @ [LF] @ ''404 Not Found''))"

lemma at_files_read: "at_server_init at_files ''a.conf'' = Some (Ret [sample_info])"
proof -
  have "config_checker_init at_files" by (simp add: config_checker_init_def at_files_def)
  moreover have "check_conFile at_files True ''a.conf'' = Some (Ret [sample_info])"
    by (rule check_conFile_printed) (simp_all add: sample_info_printable at_files_def c_str_def)
  ultimately show ?thesis by (simp add: at_server_init_def)
qed

lemma sample_initialized:
  "\<exists>ev t. at_initialize [sample_info] quiet_os [] = (Ret ([sample_info\<lparr>si_socket := 5\<rparr>], ev), t)"
proof -
  have "c_atoi ''8080'' = Ret 8080"
    by (simp add: c_atoi_def port_number_def isdigit_def digit_value_def isspace_def c_str_def int32_def)
  then show ?thesis
    by (simp add: at_initialize_def open_server_def bound_before_def io_simps quiet_os_def sample_info_def)
qed

lemma start_from:
  assumes "at_server_init files path = Some (Ret sis)"
    "at_initialize sis os [] = (Ret (s, ev), t)" "request_handler_init files = Ret header"
  shows "\<exists>m. at_start files [prog, path] = Some m
    \<and> m os [] = (Ret \<lparr>at_s = s, at_ev = ev, at_clients = [], at_header = header\<rparr>, t)"
  using assms by (simp add: at_start_def io_simps)

lemma at_files_start:
  "\<exists>m st t. at_start at_files [''webserv'', ''a.conf''] = Some m \<and> m quiet_os [] = (Ret st, t)"
proof -
  obtain header where "request_handler_init at_files = Ret header"
    by (simp add: request_handler_init_def at_files_def)
  with start_from [OF at_files_read _ this] sample_initialized show ?thesis by metis
qed

theorem at_reachable_states_witness:
  "\<exists>st t. at_reaches at_files [''webserv'', ''a.conf''] quiet_os st st t \<and> sorted_map (at_clients st)"
proof -
  from at_files_start obtain m st t where m: "at_start at_files [''webserv'', ''a.conf''] = Some m" "m quiet_os [] = (Ret st, t)"
    by blast
  then have r: "at_reaches at_files [''webserv'', ''a.conf''] quiet_os st st t" by (auto simp: at_reaches_def intro: reaches_start)
  from at_reachable_states [OF r] r show ?thesis by blast
qed

text \<open>
  C16. A complete request whose answer fits into 8192 bytes gets exactly this answer, in one call of
  \<^verbatim>\<open>send\<close>, and its client is forgotten and closed, whether or not \<^verbatim>\<open>send\<close> took all of it.
\<close>

theorem answered_and_closed:
  assumes "is_request_fulfilled fd (at_clients st) = Ret (True, m)" "sorted_map (at_clients st)"
    "reader (at_s st) (get_rqst fd m) (at_header st) = Ret rq" "writer (at_s st) rq os t = (Ret rq', t1)"
    "length (rq_response rq') \<le> MAX_LEN"
    "os_ok os (t1 @ [Sys_Send fd (rq_response rq'), Sys_Epoll_Ctl EPOLL_CTL_DEL fd (at_ev st), Sys_Close fd])"
  shows "\<exists>st'. response_handler fd st os t = (Ret st',
      t1 @ [Sys_Send fd (rq_response rq'), Sys_Epoll_Ctl EPOLL_CTL_DEL fd (at_ev st), Sys_Close fd])
    \<and> map_of (at_clients st') = (map_of m)(fd := None) \<and> at_header st' = rq' \<and> at_s st' = at_s st"
proof -
  have "sorted_map m" using assms(1,2) by (rule sorted_fulfilled)
  then have "map_of (map_erase fd (clear_rqst fd m)) = (map_of m)(fd := None)"
    by (simp add: map_of_map_erase clear_rqst_def)
  with assms show ?thesis
    by (simp add: response_handler_def io_simps Let_def set_at_clients_def send_answer_def remove_fd_def at_close_def)
qed

definition img_state :: "string \<Rightarrow> at_server" where
  "img_state rqst = \<lparr>at_s = [img_server], at_ev = 9, at_clients = [(4, client_info_init\<lparr>ci_rqst := rqst, ci_time_out := 10\<rparr>)],
     at_header = blank_request\<rparr>"

definition img_text :: string where
  "img_text = ''GET /img/x HTTP/1.1'' @ CRLF @ ''Host: h:80'' @ CRLF2"

lemma img_text_read:
  "\<exists>h. reader [img_server] img_text blank_request = Ret ((blank_request\<lparr>rq_s_id := Some 0, rq_hrx := h\<rparr>))
     \<and> h ''A'' = [''GET'', ''/img/x'', ''HTTP/1.1''] \<and> h ''Host:'' = [''h:80'']"
  by (simp add: reader_def img_text_def c_str_def getlines_def words_of_def isspace_def push_words_def
      set_server_id_def vec_at_def blank_request_def find_first_of_def find_pred_def img_server_def server_info_init_def
      set_hrx_def)

lemma img_answered:
  assumes "h ''A'' = [''GET'', ''/img/x'', ''HTTP/1.1'']" "h ''Host:'' = [''h:80'']"
  shows "\<exists>rq' t'. writer [img_server] (blank_request\<lparr>rq_s_id := Some 0, rq_hrx := h\<rparr>) page_os [] = (Ret rq', t')
    \<and> length (rq_response rq') \<le> MAX_LEN"
  using assms
  by (simp add: writer_def gen_startLine_def img_server_def server_info_init_def locati_info_init_def blank_request_def
      numerals_atoi io_simps gen_date_def gen_serv_def dispatch_def
      at_is_cgi_def contains_find resolve_path_def vec_at_def img_cleaned cur_server_def cur_location_def
      take_location_def root_path_def set_hrx_def set_htx_def Let_def numeral_2_eq_2 file_type_def page_os_def
      error_path_def cur_code_def htx_def map_at_def field_order gen_CType_def find_last_of_def gen_CLength_def
      add_body_def add_all_field_def content_type_def decimal_def dec_digits.simps)

lemma img_fulfilled:
  "is_request_fulfilled 4 (at_clients (img_state img_text)) = Ret (True, at_clients (img_state img_text))"
  by (simp add: img_state_def is_request_fulfilled_def fulfilled_def img_text_def client_of_def map_at_def)

theorem answered_and_closed_witness:
  "\<exists>st' u r. response_handler 4 (img_state img_text) page_os [] = (Ret st', u @ [Sys_Send 4 r, Sys_Epoll_Ctl EPOLL_CTL_DEL 4 9, Sys_Close 4])
     \<and> map_of (at_clients st') 4 = None"
proof -
  let ?st = "img_state img_text"
  have g: "get_rqst 4 (at_clients ?st) = img_text" "at_s ?st = [img_server]" "at_header ?st = blank_request"
    "sorted_map (at_clients ?st)" "at_ev ?st = 9"
    by (simp_all add: img_state_def get_rqst_def client_of_def map_at_def sorted_map_def)
  from img_text_read obtain h where
    r: "reader [img_server] img_text blank_request = Ret (blank_request\<lparr>rq_s_id := Some 0, rq_hrx := h\<rparr>)"
    and h: "h ''A'' = [''GET'', ''/img/x'', ''HTTP/1.1'']" "h ''Host:'' = [''h:80'']" by blast
  from img_answered [OF h] obtain rq' t' where
    w: "writer [img_server] (blank_request\<lparr>rq_s_id := Some 0, rq_hrx := h\<rparr>) page_os [] = (Ret rq', t')"
    and l: "length (rq_response rq') \<le> MAX_LEN" by blast
  have "os_ok page_os x" for x by (simp add: page_os_def)
  have "reader (at_s ?st) (get_rqst 4 (at_clients ?st)) (at_header ?st)
      = Ret (blank_request\<lparr>rq_s_id := Some 0, rq_hrx := h\<rparr>)"
    "writer (at_s ?st) (blank_request\<lparr>rq_s_id := Some 0, rq_hrx := h\<rparr>) page_os [] = (Ret rq', t')"
    using r w g by simp_all
  from answered_and_closed [OF img_fulfilled g(4) this l \<open>\<And>x. os_ok page_os x\<close>] g(5)
  show ?thesis by auto
qed

text \<open>
  C28. After a connection was accepted, a client that waits on is registered again under the descriptor of the connection
  accepted last: \<open>rearm\<close> leaves \<^verbatim>\<open>_event.data.fd\<close> as \<open>add\<close> set it, so what happens on the
  one connection is reported for the other.
\<close>

theorem rearmed_as_last_client:
  assumes "accept_event sfd i st os t = (Ret st1, t1)" "os_ok os (t2 @ [Sys_Epoll_Ctl EPOLL_CTL_MOD a (at_ev st1)])"
  shows "at_ev st1 = os_fd os (t @ [Sys_Accept4 sfd])
    \<and> (\<exists>st2. rearm_client a st1 os t2
         = (Ret st2, t2 @ [Sys_Epoll_Ctl EPOLL_CTL_MOD a (os_fd os (t @ [Sys_Accept4 sfd])), Sys_Time])
       \<and> at_ev st2 = at_ev st1)"
proof -
  have e: "at_ev st1 = os_fd os (t @ [Sys_Accept4 sfd])"
    using assms(1) by (auto simp: accept_event_def at_add_def start_timer_def io_bind_Ret io_base split: if_splits)
  with assms(2) show ?thesis
    by (simp add: rearm_client_def rearm_def start_timer_def io_simps set_at_clients_def)
qed

theorem rearmed_as_last_client_witness:
  "\<exists>st1 st2 t1. accept_event 3 0 (img_state ''GET'') quiet_os [] = (Ret st1, t1)
     \<and> rearm_client 4 st1 quiet_os [] = (Ret st2, [Sys_Epoll_Ctl EPOLL_CTL_MOD 4 5, Sys_Time])"
proof -
  have "get_time_out [img_server] 0 = Ret 0"
    by (simp add: get_time_out_def vec_at_def img_server_def server_info_init_def c_atoi_def c_str_def port_number_def int32_def)
  then have "\<exists>st1 t1. accept_event 3 0 (img_state ''GET'') quiet_os [] = (Ret st1, t1)"
    by (simp add: accept_event_def at_add_def start_timer_def io_simps img_state_def quiet_os_def)
  then obtain st1 t1 where a: "accept_event 3 0 (img_state ''GET'') quiet_os [] = (Ret st1, t1)" by blast
  have "os_ok quiet_os x" "os_fd quiet_os x = 5" for x by (simp_all add: quiet_os_def)
  with rearmed_as_last_client [OF a, of "[]" 4] a show ?thesis by auto
qed

text \<open>
  C18. One request ends the server for every client: an exception of the treatment of a request leaves the loop, and
  the program returns 0 when it is one of the library's.
\<close>

theorem request_ends_server:
  assumes "\<forall>(fd, c)\<in>set (at_clients st). ci_rqst c = [] \<and> ci_resp c = []" "sorted_map (at_clients st)"
    "os_events os (t @ [Sys_Epoll_Wait]) = fd # fds" "\<forall>s\<in>set (at_s st). si_socket s \<noteq> fd"
    "os_data os (t @ [Sys_Epoll_Wait, Sys_Recv fd]) = Some rqst" "map_of (at_clients st) fd = Some c"
    "fulfilled (c\<lparr>ci_rqst := rqst\<rparr>) = Ret (True, c')" "ci_rqst c' = r"
    "reader (at_s st) r (at_header st) = Ret rq"
    "writer (at_s st) rq os (t @ [Sys_Epoll_Wait, Sys_Recv fd]) = (Throw e, t')"
  shows "at_round st os t = (Throw e, t') \<and> (e = Out_Of_Range \<longrightarrow> at_main_end e = Some 0)"
proof -
  have idle: "chunks_loop ev (map fst m') (at_clients st) = io_return ([], at_clients st)"
    if "set m' \<subseteq> set (at_clients st)" for ev m'
    using that
  proof (induction m')
    case (Cons x m')
    obtain k d where x: "x = (k, d)" by (cases x)
    from Cons.prems x have in_map: "(k, d) \<in> set (at_clients st)" by simp
    with assms(2) have "map_of (at_clients st) k = Some d"
      by (intro map_of_is_SomeI) (simp_all add: sorted_map_def strict_sorted_iff)
    then have "client_of k (at_clients st) = d" by (simp add: client_of_def map_at_def)
    moreover from in_map assms(1) have "ci_rqst d = [] \<and> ci_resp d = []" by auto
    ultimately show ?case using Cons x by simp
  qed simp
  let ?m = "rqst_append fd rqst (at_clients st)"
  have m: "sorted_map ?m" using assms(2) by simp
  have "(fd, c) \<in> set (at_clients st)" using assms(6) by (rule map_of_SomeD)
  then have "ci_rqst c = []" using assms(1) by auto
  then have "client_of fd ?m = c\<lparr>ci_rqst := rqst\<rparr>"
    using assms(2,6) by (simp add: rqst_append_def client_of_def [of fd "at_clients st"] map_at_def)
  then have f: "is_request_fulfilled fd ?m = Ret (True, map_put fd c' ?m)"
    using assms(7) by (simp add: is_request_fulfilled_def)
  have g: "get_rqst fd (map_put fd c' ?m) = r" using m assms(8) by (simp add: get_rqst_def)
  have n: "is_new_client (at_s st) fd = -1"
    using assms(4) by (auto simp: is_new_client_def find_idx_None_iff split: option.split dest!: find_idx_SomeD)
  have "client_event fd st os (t @ [Sys_Epoll_Wait]) = (Throw e, t')"
    using assms(5,9,10) f g by (simp add: client_event_def io_simps response_handler_def set_at_clients_def Let_def)
  then show ?thesis
    using n assms(3) idle [of "at_clients st"]
    by (simp add: at_round_def handle_chunks_def io_simps set_at_clients_def)
qed

definition api_80 :: server_info where
  "api_80 = api_server\<lparr>si_port := ''80''\<rparr>"

definition api_state :: at_server where
  "api_state = \<lparr>at_s = [api_80], at_ev = 9, at_clients = [(4, client_info_init)], at_header = blank_request\<rparr>"

definition api_text :: string where
  "api_text = ''GET / HTTP/1.1'' @ CRLF @ ''Host: h:80'' @ CRLF2"



lemma api_text_read:
  "\<exists>h. reader [api_80] api_text blank_request = Ret (blank_request\<lparr>rq_s_id := Some 0, rq_hrx := h\<rparr>)
     \<and> h ''A'' = [''GET'', ''/'', ''HTTP/1.1'']"
  by (simp add: reader_def api_text_def c_str_def getlines_def words_of_def isspace_def push_words_def
      set_server_id_def vec_at_def blank_request_def find_first_of_def find_pred_def api_80_def api_server_def server_info_init_def
      set_hrx_def)

lemma api_throws:
  assumes "h ''A'' = [''GET'', ''/'', ''HTTP/1.1'']"
  shows "\<exists>t'. writer [api_80] (blank_request\<lparr>rq_s_id := Some 0, rq_hrx := h\<rparr>) os t = (Throw Out_Of_Range, t')"
proof -
  have c: "clean_url ''/'' = ''/''" using url.clean_norm [of "''/''"] by (simp add: url_clean_def)
  have "\<exists>rq t1. io_bind (gen_startLine ''200'' (blank_request\<lparr>rq_s_id := Some 0, rq_hrx := h\<rparr>)) gen_date os t = (Ret rq, t1)
     \<and> rq_s_id rq = Some 0 \<and> rq_hrx rq = h"
    using assms by (simp add: gen_startLine_def gen_date_def blank_request_def numerals_atoi io_simps Let_def set_htx_def)
  then obtain rq t1 where
    r: "io_bind (gen_startLine ''200'' (blank_request\<lparr>rq_s_id := Some 0, rq_hrx := h\<rparr>)) gen_date os t = (Ret rq, t1)"
    and q: "rq_s_id rq = Some 0" "rq_hrx rq = h" by blast
  let ?rq = "gen_serv rq"
  have s: "rq_s_id ?rq = Some 0" "rq_hrx ?rq = h" using q by (simp_all add: gen_serv_def set_htx_def Let_def)
  have "resolve_path [api_80] ?rq os t1 = (Throw Out_Of_Range, t1)"
    using assms s c
    by (intro short_url [where s = 0 and uri = "''/''" and l = "hd (si_location api_80)" and ls = "[]"])
      (simp_all add: api_80_def api_server_def plain_locations_def server_info_init_def locati_info_init_def)
  then have "dispatch [api_80] ?rq os t1 = (Throw Out_Of_Range, t1)"
    using assms s by (simp add: dispatch_def at_is_cgi_def contains_find io_simps)
  with r show ?thesis by (auto simp: writer_def io_bind_def split: prod.splits sum.splits)
qed

definition api_os :: os where
  "api_os = page_os\<lparr>os_events := (\<lambda>_. [4]), os_data := (\<lambda>_. Some api_text)\<rparr>"

lemma api_fulfilled:
  "fulfilled (client_info_init\<lparr>ci_rqst := api_text\<rparr>) = Ret (True, client_info_init\<lparr>ci_rqst := api_text\<rparr>)"
  by (simp add: fulfilled_def api_text_def)

lemma api_80_parts:
  "ci_rqst client_info_init = []" "ci_resp client_info_init = []" "si_socket api_80 = 0"
  by (simp_all add: client_info_init_def api_80_def api_server_def server_info_init_def)

theorem request_ends_server_witness:
  "\<exists>t'. at_round api_state api_os [] = (Throw Out_Of_Range, t')"
proof -
  from api_text_read obtain h where
    r: "reader [api_80] api_text blank_request = Ret (blank_request\<lparr>rq_s_id := Some 0, rq_hrx := h\<rparr>)"
    and h: "h ''A'' = [''GET'', ''/'', ''HTTP/1.1'']" by blast
  from api_throws [where h = h, OF h] obtain t' where
    w: "writer [api_80] (blank_request\<lparr>rq_s_id := Some 0, rq_hrx := h\<rparr>) api_os [Sys_Epoll_Wait, Sys_Recv 4]
      = (Throw Out_Of_Range, t')" by blast
  have "at_round api_state api_os [] = (Throw Out_Of_Range, t') \<and>
      (Out_Of_Range = Out_Of_Range \<longrightarrow> at_main_end Out_Of_Range = Some 0)"
    by (rule request_ends_server [where fd = 4 and fds = "[]" and rqst = api_text and c = client_info_init
          and c' = "client_info_init\<lparr>ci_rqst := api_text\<rparr>" and r = api_text
          and rq = "blank_request\<lparr>rq_s_id := Some 0, rq_hrx := h\<rparr>"])
      (use r w in \<open>simp_all add: api_state_def api_os_def sorted_map_def api_fulfilled api_80_parts\<close>)
  then show ?thesis by blast
qed

end
