(* ===== verification/ClientList.thy ===== *)
theory ClientList
  imports System
begin

text \<open>
  The clients of \<^verbatim>\<open>src/exam06/mini_serv_original.c\<close>: a list of \<^verbatim>\<open>t_client\<close> cells, chained by
  \<^verbatim>\<open>next\<close> and reached from \<^verbatim>\<open>g_clients\<close>.  The cells live in a heap, a map from addresses (0 is
  \<^verbatim>\<open>NULL\<close>) to cells; using an address without a cell is undefined.  A walk along \<^verbatim>\<open>next\<close> that does
  not end is \<open>None\<close> of its partial function, and \<open>Never_Returns\<close> for the caller.  The second half
  shows that the operations on the heap are those of a list of pairs (descriptor, number), and
  that no cell is lost.
\<close>

section \<open>Cells and walks\<close>

record t_client =
  tc_fd :: int
  tc_id :: int
  tc_next :: nat

record client_store =
  g_clients :: nat
  cells :: "nat \<rightharpoonup> t_client"
  next_cell :: nat

definition ended :: "'a res option \<Rightarrow> 'a res" where
  "ended r = (case r of None \<Rightarrow> Throw Never_Returns | Some r \<Rightarrow> r)"

abbreviation dead :: "'a res" where
  "dead \<equiv> Throw (Undef ''no cell at this address'')"

partial_function (option) id_from :: "(nat \<rightharpoonup> t_client) \<Rightarrow> nat \<Rightarrow> int \<Rightarrow> int res option" where
  "id_from h temp fd =
     (if temp = 0 then Some (Ret (-1))
      else case h temp of
        None \<Rightarrow> Some dead
      | Some c \<Rightarrow> if tc_fd c = fd then Some (Ret (tc_id c)) else id_from h (tc_next c) fd)"

definition get_id :: "int \<Rightarrow> client_store \<Rightarrow> int res" where
  "get_id fd s = ended (id_from (cells s) (g_clients s) fd)"

partial_function (option) max_from :: "(nat \<rightharpoonup> t_client) \<Rightarrow> nat \<Rightarrow> int \<Rightarrow> int res option" where
  "max_from h temp m =
     (if temp = 0 then Some (Ret m)
      else case h temp of
        None \<Rightarrow> Some dead
      | Some c \<Rightarrow> max_from h (tc_next c) (if m < tc_fd c then tc_fd c else m))"

definition get_max_fd :: "int \<Rightarrow> client_store \<Rightarrow> int res" where
  "get_max_fd sock_fd s = ended (max_from (cells s) (g_clients s) sock_fd)"

text \<open>The last cell of a list that is not empty.\<close>

partial_function (option) last_from :: "(nat \<rightharpoonup> t_client) \<Rightarrow> nat \<Rightarrow> nat res option" where
  "last_from h temp =
     (case h temp of
        None \<Rightarrow> Some dead
      | Some c \<Rightarrow> if tc_next c = 0 then Some (Ret temp) else last_from h (tc_next c))"

definition deref :: "(nat \<rightharpoonup> t_client) \<Rightarrow> nat \<Rightarrow> t_client res" where
  "deref h a = (case h a of None \<Rightarrow> dead | Some c \<Rightarrow> Ret c)"

definition set_next :: "nat \<Rightarrow> nat \<Rightarrow> client_store \<Rightarrow> client_store res" where
  "set_next a q s =
     rbind (deref (cells s) a) (\<lambda>c. Ret (s\<lparr>cells := (cells s)(a \<mapsto> c\<lparr>tc_next := q\<rparr>)\<rparr>))"

text \<open>Linking the new cell, \<^verbatim>\<open>calloc\<close> having found room; its address was never used before.\<close>

definition link_client :: "int \<Rightarrow> int \<Rightarrow> client_store \<Rightarrow> client_store res" where
  "link_client fd i s =
     (let new = next_cell s;
          s = s\<lparr>cells := (cells s)(new \<mapsto> \<lparr>tc_fd = fd, tc_id = i, tc_next = 0\<rparr>), next_cell := new + 1\<rparr>
      in if g_clients s = 0 then Ret (s\<lparr>g_clients := new\<rparr>)
         else rbind (ended (last_from (cells s) (g_clients s))) (\<lambda>temp. set_next temp new s))"

text \<open>The cell before the one of the descriptor, or the last cell.\<close>

partial_function (option) before_from :: "(nat \<rightharpoonup> t_client) \<Rightarrow> nat \<Rightarrow> int \<Rightarrow> nat res option" where
  "before_from h temp fd =
     (if temp = 0 then Some (Ret 0)
      else case h temp of
        None \<Rightarrow> Some dead
      | Some c \<Rightarrow>
          if tc_next c = 0 then Some (Ret temp)
          else case h (tc_next c) of
            None \<Rightarrow> Some dead
          | Some d \<Rightarrow> if tc_fd d \<noteq> fd then before_from h (tc_next c) fd else Some (Ret temp))"

definition free_cell :: "nat \<Rightarrow> client_store \<Rightarrow> client_store" where
  "free_cell a s = s\<lparr>cells := (cells s)(a := None)\<rparr>"

definition rm_client :: "int \<Rightarrow> client_store \<Rightarrow> (int \<times> client_store) res" where
  "rm_client fd s =
     rbind (get_id fd s) (\<lambda>i.
     let temp = g_clients s in
     rbind (if temp = 0 then Ret False else rbind (deref (cells s) temp) (\<lambda>c. Ret (tc_fd c = fd))) (\<lambda>first.
     if first
     then rbind (deref (cells s) temp) (\<lambda>c. Ret (i, free_cell temp (s\<lparr>g_clients := tc_next c\<rparr>)))
     else rbind (ended (before_from (cells s) temp fd)) (\<lambda>temp.
          rbind (deref (cells s) temp) (\<lambda>c.
          let del = tc_next c in
          rbind (deref (cells s) del) (\<lambda>d.
          rbind (set_next temp (tc_next d) s) (\<lambda>s. Ret (i, free_cell del s)))))))"


section \<open>The list a store holds\<close>

text \<open>The addresses met on the way from \<open>p\<close> to \<open>q\<close>.\<close>

fun path :: "(nat \<rightharpoonup> t_client) \<Rightarrow> nat \<Rightarrow> nat list \<Rightarrow> nat \<Rightarrow> bool" where
  "path h p [] q \<longleftrightarrow> p = q"
| "path h p (a # as) q \<longleftrightarrow> p = a \<and> a \<noteq> 0 \<and> (\<exists>c. h a = Some c \<and> path h (tc_next c) as q)"

abbreviation chain :: "(nat \<rightharpoonup> t_client) \<Rightarrow> nat \<Rightarrow> nat list \<Rightarrow> bool" where
  "chain h p as \<equiv> path h p as 0"

definition cell_client :: "(nat \<rightharpoonup> t_client) \<Rightarrow> nat \<Rightarrow> int \<times> int" where
  "cell_client h a = (tc_fd (the (h a)), tc_id (the (h a)))"

definition chained :: "client_store \<Rightarrow> (int \<times> int) list \<Rightarrow> bool" where
  "chained s xs \<longleftrightarrow> (\<exists>as. chain (cells s) (g_clients s) as \<and> distinct as \<and> dom (cells s) = set as
     \<and> xs = map (cell_client (cells s)) as \<and> 0 < next_cell s \<and> (\<forall>a\<in>set as. a < next_cell s))"

lemma client_at_cell [simp]: "h a = Some c \<Longrightarrow> cell_client h a = (tc_fd c, tc_id c)"
  by (simp add: cell_client_def)

lemma client_at_upd: "a \<noteq> b \<Longrightarrow> cell_client (h(a := v)) b = cell_client h b"
  by (simp add: cell_client_def)

lemma map_client_at_upd [simp]: "a \<notin> set as \<Longrightarrow> map (cell_client (h(a := v))) as = map (cell_client h) as"
  by (intro map_cong refl client_at_upd) auto

lemma chain_0 [simp]: "chain h 0 as \<longleftrightarrow> as = []"
  by (cases as) auto

lemma path_fun_upd [simp]: "a \<notin> set as \<Longrightarrow> path (h(a := v)) p as q \<longleftrightarrow> path h p as q"
  by (induction as arbitrary: p) auto

lemma path_append [simp]: "path h p (as @ bs) q \<longleftrightarrow> (\<exists>r. path h p as r \<and> path h r bs q)"
  by (induction as arbitrary: p) auto

lemma path_nonzero: "path h p as q \<Longrightarrow> 0 \<notin> set as"
  by (induction as arbitrary: p) auto

section \<open>The walks\<close>

lemma id_from_chain:
  "chain h p as \<Longrightarrow> id_from h p fd =
     Some (Ret (case map_of (map (cell_client h) as) fd of None \<Rightarrow> -1 | Some i \<Rightarrow> i))"
proof (induction as arbitrary: p)
  case Nil
  then show ?case by (simp add: id_from.simps)
next
  case (Cons a as)
  then show ?case by (subst id_from.simps) auto
qed

lemma if_less_max: "(if m < x then x else m) = max x (m :: int)"
  by (simp add: max_def)

lemma max_from_chain:
  "chain h p as \<Longrightarrow> max_from h p m = Some (Ret (fold (\<lambda>(fd, i). max fd) (map (cell_client h) as) m))"
proof (induction as arbitrary: p m)
  case Nil
  then show ?case by (simp add: max_from.simps)
next
  case (Cons a as)
  then show ?case by (subst max_from.simps) (auto simp: if_less_max)
qed

lemma last_from_chain:
  "chain h p as \<Longrightarrow> as \<noteq> [] \<Longrightarrow> last_from h p = Some (Ret (last as))"
proof (induction as arbitrary: p)
  case (Cons a as)
  then show ?case by (subst last_from.simps) (cases as; auto)
qed simp

lemma before_from_chain:
  "chain h p (bs @ a # d # cs) \<Longrightarrow> fst (cell_client h d) = fd \<Longrightarrow>
     \<forall>b\<in>set (tl (bs @ [a])). fst (cell_client h b) \<noteq> fd \<Longrightarrow> before_from h p fd = Some (Ret a)"
proof (induction bs arbitrary: p)
  case Nil
  then show ?case by (subst before_from.simps) auto
next
  case (Cons b bs)
  then show ?case
    by (subst before_from.simps) (cases bs; auto)
qed

section \<open>The operations on the list\<close>

text \<open>What the operations promise on the list \<open>xs\<close> a store holds.\<close>

fun number_of :: "(int \<times> int) list \<Rightarrow> int \<Rightarrow> int" where
  "number_of xs fd = (case map_of xs fd of None \<Rightarrow> -1 | Some i \<Rightarrow> i)"

definition without :: "int \<Rightarrow> (int \<times> int) list \<Rightarrow> (int \<times> int) list" where
  "without fd xs = filter (\<lambda>x. fst x \<noteq> fd) xs"

lemma get_id_holds: "chained s xs \<Longrightarrow> get_id fd s = Ret (number_of xs fd)"
  by (auto simp: chained_def get_id_def id_from_chain ended_def)

lemma get_max_fd_holds: "chained s xs \<Longrightarrow> get_max_fd sock s = Ret (fold (\<lambda>(fd, i). max fd) xs sock)"
  by (auto simp: chained_def get_max_fd_def max_from_chain ended_def)

lemma link_client_holds:
  assumes "chained s xs"
  shows "\<exists>s'. link_client fd i s = Ret s' \<and> chained s' (xs @ [(fd, i)])"
proof -
  from assms obtain as where c: "chain (cells s) (g_clients s) as" "distinct as" "dom (cells s) = set as"
    "xs = map (cell_client (cells s)) as" "0 < next_cell s" "\<forall>a\<in>set as. a < next_cell s"
    unfolding chained_def by blast
  let ?n = "next_cell s"
  let ?v = "\<lparr>tc_fd = fd, tc_id = i, tc_next = 0\<rparr>"
  have n: "?n \<notin> set as" using c(6) by auto
  show ?thesis
  proof (cases as rule: rev_cases)
    case Nil
    with c have "chain ((cells s)(?n \<mapsto> ?v)) ?n [?n]" "g_clients s = 0" by auto
    with c Nil show ?thesis
      by (auto simp: link_client_def Let_def chained_def intro!: exI [of _ "[?n]"])
  next
    case (snoc bs l)
    with c(1) obtain d where l: "path (cells s) (g_clients s) bs l" "l \<noteq> 0" "cells s l = Some d" "tc_next d = 0"
      by auto
    with snoc c(2) n have "g_clients s \<noteq> 0" "l \<notin> set bs" "?n \<noteq> l" "?n \<notin> set bs" by (cases bs; auto)+
    moreover have "last_from ((cells s)(?n \<mapsto> ?v)) (g_clients s) = Some (Ret l)"
      using last_from_chain [of "(cells s)(?n \<mapsto> ?v)" "g_clients s" as] c(1) n snoc by simp
    ultimately show ?thesis
      using l c snoc n
      by (auto simp: link_client_def Let_def ended_def set_next_def deref_def chained_def cell_client_def
          less_Suc_eq intro!: exI [of _ "bs @ [l, ?n]"])
  qed
qed

lemma rm_client_holds:
  assumes "chained s xs" "distinct (map fst xs)" "fd \<in> fst ` set xs"
  shows "\<exists>s'. rm_client fd s = Ret (number_of xs fd, s') \<and> chained s' (without fd xs)"
proof -
  from assms(1) obtain as where c: "chain (cells s) (g_clients s) as" "distinct as" "dom (cells s) = set as"
    "xs = map (cell_client (cells s)) as" "0 < next_cell s" "\<forall>a\<in>set as. a < next_cell s"
    unfolding chained_def by blast
  let ?fd = "\<lambda>a. fst (cell_client (cells s) a)"
  from assms(3) c(4) obtain d where "d \<in> set as" "?fd d = fd" by auto
  then obtain bs cs where as: "as = bs @ d # cs" and fd: "?fd d = fd" by (metis split_list)
  have m: "distinct (map ?fd as)" using assms(2) c(4) by (simp add: comp_def)
  have ne: "\<forall>b\<in>set bs. ?fd b \<noteq> fd" "\<forall>b\<in>set cs. ?fd b \<noteq> fd"
    using m fd as by (auto intro: rev_image_eqI)
  have keep: "without fd xs = map (cell_client (cells s)) (bs @ cs)"
    using ne fd as c(4) by (auto simp: without_def filter_id_conv)
  from c(1) as obtain x where x: "cells s d = Some x" "d \<noteq> 0" "chain (cells s) (tc_next x) cs" by auto
  have id: "get_id fd s = Ret (number_of xs fd)" using assms(1) by (rule get_id_holds)
  have dom: "dom ((cells s)(d := None)) = set (bs @ cs)" using c(2,3) as by auto
  show ?thesis
  proof (cases bs rule: rev_cases)
    case Nil
    with c(1) as x have "g_clients s = d" by simp
    then have "rm_client fd s = Ret (number_of xs fd, free_cell d (s\<lparr>g_clients := tc_next x\<rparr>))"
      using x fd by (simp add: rm_client_def id deref_def)
    moreover have "chained (free_cell d (s\<lparr>g_clients := tc_next x\<rparr>)) (without fd xs)"
      using c as x Nil keep dom by (auto simp: chained_def free_cell_def intro!: exI [of _ cs])
    ultimately show ?thesis by blast
  next
    case (snoc es a)
    with c(1) as obtain y where y: "path (cells s) (g_clients s) es a" "a \<noteq> 0" "cells s a = Some y" "tc_next y = d"
      by auto
    have g: "g_clients s \<noteq> 0" "tc_fd (the (cells s (g_clients s))) \<noteq> fd" "cells s (g_clients s) \<noteq> None"
      using y ne(1) snoc by (cases es; auto simp: cell_client_def)+
    have t: "\<forall>b\<in>set (tl (es @ [a])). ?fd b \<noteq> fd" using ne(1) snoc by (cases es) auto
    have "chain (cells s) (g_clients s) (es @ a # d # cs)" using c(1) as snoc by simp
    then have b: "before_from (cells s) (g_clients s) fd = Some (Ret a)" using fd t by (rule before_from_chain)
    let ?s = "free_cell d (s\<lparr>cells := (cells s)(a \<mapsto> y\<lparr>tc_next := tc_next x\<rparr>)\<rparr>)"
    have "rm_client fd s = Ret (number_of xs fd, ?s)"
      using g b x y by (auto simp: rm_client_def id deref_def ended_def set_next_def Let_def)
    moreover have "chained ?s (without fd xs)"
      using c(2,3,5,6) as x y snoc keep
      by (auto simp: chained_def free_cell_def cell_client_def intro!: exI [of _ "es @ a # cs"])
    ultimately show ?thesis by blast
  qed
qed

text \<open>A descriptor the list does not have: the cell after the last one, \<^verbatim>\<open>NULL\<close>, is used.\<close>

lemma before_from_none:
  "chain h p as \<Longrightarrow> as \<noteq> [] \<Longrightarrow> \<forall>b\<in>set as. fst (cell_client h b) \<noteq> fd \<Longrightarrow> before_from h p fd = Some (Ret (last as))"
proof (induction as arbitrary: p)
  case (Cons b as)
  then show ?case by (subst before_from.simps) (cases as; auto)
qed simp

lemma rm_client_unknown:
  assumes "chained s xs" "fd \<notin> fst ` set xs"
  shows "rm_client fd s = dead"
proof -
  from assms(1) obtain as where c: "chain (cells s) (g_clients s) as" "dom (cells s) = set as"
    "xs = map (cell_client (cells s)) as" unfolding chained_def by blast
  have ne: "\<forall>b\<in>set as. fst (cell_client (cells s) b) \<noteq> fd" using assms(2) c(3) by force
  have z: "cells s 0 = None" using c(2) path_nonzero [OF c(1)] by auto
  show ?thesis
  proof (cases as rule: rev_cases)
    case Nil
    with c have "g_clients s = 0" by simp
    then show ?thesis using get_id_holds [OF assms(1), of fd] z
      by (simp add: rm_client_def before_from.simps ended_def deref_def)
  next
    case (snoc bs l)
    with c(1) obtain y where y: "cells s l = Some y" "tc_next y = 0" by auto
    have g: "g_clients s \<noteq> 0" "tc_fd (the (cells s (g_clients s))) \<noteq> fd" "cells s (g_clients s) \<noteq> None"
      using c(1) ne snoc by (cases bs; auto simp: cell_client_def)+
    have "before_from (cells s) (g_clients s) fd = Some (Ret l)"
      using before_from_none [OF c(1) _ ne] snoc by simp
    with g y z show ?thesis
      using get_id_holds [OF assms(1), of fd] by (auto simp: rm_client_def deref_def ended_def Let_def)
  qed
qed

section \<open>The interface\<close>

text \<open>What the server relies on: the operations are those of a list without doubled descriptors.\<close>

locale client_directory =
  fixes content :: "'s \<Rightarrow> (int \<times> int) list \<Rightarrow> bool"
    and lookup :: "int \<Rightarrow> 's \<Rightarrow> int res"
    and insert_at_end :: "int \<Rightarrow> int \<Rightarrow> 's \<Rightarrow> 's res"
    and unlink :: "int \<Rightarrow> 's \<Rightarrow> (int \<times> 's) res"
  assumes lookup_content: "content s xs \<Longrightarrow> lookup fd s = Ret (number_of xs fd)"
    and insert_content: "content s xs \<Longrightarrow> \<exists>s'. insert_at_end fd i s = Ret s' \<and> content s' (xs @ [(fd, i)])"
    and unlink_content: "content s xs \<Longrightarrow> distinct (map fst xs) \<Longrightarrow> fd \<in> fst ` set xs \<Longrightarrow>
      \<exists>s'. unlink fd s = Ret (number_of xs fd, s') \<and> content s' (without fd xs)"
begin

lemma insert_lookup:
  assumes "content s xs" "fd \<notin> fst ` set xs" "insert_at_end fd i s = Ret s'"
  shows "lookup fd s' = Ret i" and "fd' \<noteq> fd \<Longrightarrow> lookup fd' s' = lookup fd' s"
proof -
  from insert_content [OF assms(1), of fd i] assms(3) have c: "content s' (xs @ [(fd, i)])" by auto
  from assms(2) have "map_of xs fd = None" by (simp add: map_of_eq_None_iff)
  with c show "lookup fd s' = Ret i" by (simp add: lookup_content map_add_def)
  show "lookup fd' s' = lookup fd' s" if "fd' \<noteq> fd"
    using that c assms(1) by (simp add: lookup_content map_add_def split: option.split)
qed

lemma insert_unlink:
  assumes "content s xs" "distinct (map fst xs)" "fd \<notin> fst ` set xs"
  shows "\<exists>s1 s2. insert_at_end fd i s = Ret s1 \<and> unlink fd s1 = Ret (i, s2) \<and> content s2 xs"
proof -
  from insert_content [OF assms(1), of fd i] obtain s1 where
    s1: "insert_at_end fd i s = Ret s1" "content s1 (xs @ [(fd, i)])" by blast
  from assms(3) have n: "map_of xs fd = None" by (simp add: map_of_eq_None_iff)
  from unlink_content [OF s1(2), of fd] assms(2,3) obtain s2 where
    "unlink fd s1 = Ret (number_of (xs @ [(fd, i)]) fd, s2)" "content s2 (without fd (xs @ [(fd, i)]))" by auto
  moreover have "without fd (xs @ [(fd, i)]) = xs"
    using assms(3) by (auto simp: without_def filter_id_conv)
  ultimately show ?thesis using s1(1) n by (simp add: map_add_def)
qed

end

interpretation directory: client_directory chained get_id link_client rm_client
  by unfold_locales (rule get_id_holds link_client_holds rm_client_holds; assumption)+

text \<open>
  C25. The chained list loses nothing: a client linked in at the end is found by its number, and taking
  it out again gives its number back and leaves the list, and the cells in use, as they were.
\<close>

theorem client_comes_and_goes:
  assumes "chained s xs" "distinct (map fst xs)" "fd \<notin> fst ` set xs"
  shows "\<exists>s1 s2. link_client fd i s = Ret s1 \<and> get_id fd s1 = Ret i
    \<and> rm_client fd s1 = Ret (i, s2) \<and> chained s2 xs \<and> card (dom (cells s2)) = card (dom (cells s))"
proof -
  from directory.insert_unlink [OF assms] obtain s1 s2 where
    s: "link_client fd i s = Ret s1" "rm_client fd s1 = Ret (i, s2)" "chained s2 xs" by blast
  have "card (dom (cells s)) = length xs" if "chained s xs" for s
    using that by (auto simp: chained_def distinct_card)
  with s assms(1) directory.insert_lookup(1) [OF assms(1,3) s(1)] show ?thesis by auto
qed

definition empty_store :: client_store where
  "empty_store = \<lparr>g_clients = 0, cells = Map.empty, next_cell = 1\<rparr>"

lemma holds_empty: "chained empty_store []"
  by (simp add: chained_def empty_store_def)

theorem client_comes_and_goes_witness:
  "\<exists>s1 s2. link_client 4 0 empty_store = Ret s1 \<and> rm_client 4 s1 = Ret (0, s2) \<and> chained s2 []"
  using client_comes_and_goes [OF holds_empty, of 4 0] by auto

end
