(* ===== verification/MiniServ.thy ===== *)
theory MiniServ
  imports ClientList ConfigChecker
begin

text \<open>
  The chat server of \<^verbatim>\<open>src/exam06/mini_serv_original.c\<close>: its globals, the broadcast, arrivals and
  departures, the buffers that cut what is received into lines, and the loop over
  \<^verbatim>\<open>select\<close>.  A buffer is a function from positions to bytes with its size written out; reading
  or writing past it is undefined.  The loop over the descriptors is \<open>None\<close> when it does not end.
\<close>

section \<open>Buffers\<close>

type_synonym buffer = "nat \<Rightarrow> char"

abbreviation STR_SIZE :: nat where "STR_SIZE \<equiv> 172032"

text \<open>The string that starts at a position, up to the first NUL.\<close>

function string_at :: "nat \<Rightarrow> buffer \<Rightarrow> nat \<Rightarrow> string res" where
  "string_at len b i =
     (if len \<le> i then Throw (Undef ''read behind a buffer'')
      else if b i = NUL then Ret []
      else rbind (string_at len b (i + 1)) (\<lambda>s. Ret (b i # s)))"
  by pat_completeness auto
termination by (relation "measure (\<lambda>(len, b, i). len - i)") auto

declare string_at.simps [simp del]

definition put_bytes :: "string \<Rightarrow> buffer \<Rightarrow> buffer" where
  "put_bytes s b = (\<lambda>i. if i < length s then s ! i else b i)"

definition zero_bytes :: "nat \<Rightarrow> buffer \<Rightarrow> buffer" where
  "zero_bytes n b = (\<lambda>i. if i < n then NUL else b i)"

text \<open>\<^verbatim>\<open>bzero (&b, strlen (b))\<close>.\<close>

definition clear_string :: "nat \<Rightarrow> buffer \<Rightarrow> buffer res" where
  "clear_string len b = rbind (string_at len b 0) (\<lambda>s. Ret (zero_bytes (length s) b))"

text \<open>\<^verbatim>\<open>sprintf\<close> of a text.\<close>

definition print_to :: "nat \<Rightarrow> string \<Rightarrow> buffer \<Rightarrow> buffer res" where
  "print_to len s b =
     (if len < length s + 1 then Throw (Undef ''write behind a buffer'') else Ret (put_bytes (s @ [NUL]) b))"

section \<open>The globals\<close>

record mini =
  ms_clients :: client_store
  ms_sock :: int
  ms_g_id :: int
  ms_curr :: "int set"
  ms_read :: "int set"
  ms_write :: "int set"
  ms_msg :: buffer
  ms_str :: buffer
  ms_tmp :: buffer
  ms_buf :: buffer

abbreviation no_bytes :: buffer where "no_bytes \<equiv> \<lambda>_. NUL"

definition fatal :: "int \<Rightarrow> 'a io" where
  "fatal sock =
     io_bind (call os_count (Sys_Write 2 (''Fatal error'' @ [LF]))) (\<lambda>_.
     io_bind (call os_ok (Sys_Close sock)) (\<lambda>_. io_throw (Exit 1)))"

text \<open>\<^verbatim>\<open>FD_SET\<close>; an \<^verbatim>\<open>fd_set\<close> has room for 1024 descriptors.\<close>

definition fd_set_add :: "int \<Rightarrow> int set \<Rightarrow> int set res" where
  "fd_set_add fd s =
     (if 0 \<le> fd \<and> fd < 1024 then Ret (insert fd s) else Throw (Undef ''FD_SET''))"

section \<open>Broadcast\<close>

partial_function (option) send_from ::
  "(nat \<rightharpoonup> t_client) \<Rightarrow> nat \<Rightarrow> int \<Rightarrow> string \<Rightarrow> int set \<Rightarrow> int \<Rightarrow> os \<Rightarrow> history \<Rightarrow> (unit res \<times> history) option" where
  "send_from h temp fd s writable sock os t =
     (if temp = 0 then Some (Ret (), t)
      else case h temp of
        None \<Rightarrow> Some (dead, t)
      | Some c \<Rightarrow>
          if tc_fd c \<noteq> fd \<and> tc_fd c \<in> writable
          then (let t1 = t @ [Sys_Send (tc_fd c) s]
                in if os_count os t1 < 0 then Some (fatal sock os t1)
                   else send_from h (tc_next c) fd s writable sock os t1)
          else send_from h (tc_next c) fd s writable sock os t)"

text \<open>A walk that does not end.\<close>

definition ended_io :: "(os \<Rightarrow> history \<Rightarrow> ('a res \<times> history) option) \<Rightarrow> 'a io" where
  "ended_io m = (\<lambda>os t. case m os t of None \<Rightarrow> (Throw Never_Returns, t) | Some r \<Rightarrow> r)"

definition mini_send_all :: "int \<Rightarrow> string \<Rightarrow> mini \<Rightarrow> unit io" where
  "mini_send_all fd s st =
     ended_io (send_from (cells (ms_clients st)) (g_clients (ms_clients st)) fd s (ms_write st) (ms_sock st))"

section \<open>Arrivals and departures\<close>

definition add_client_to_list :: "int \<Rightarrow> mini \<Rightarrow> (int \<times> mini) io" where
  "add_client_to_list fd st =
     io_bind (call os_ok Sys_Calloc) (\<lambda>ok.
     if \<not> ok then fatal (ms_sock st)
     else if \<not> int32 (ms_g_id st + 1) then io_throw (Undef ''g_id'')
     else io_bind (io_of (link_client fd (ms_g_id st) (ms_clients st))) (\<lambda>s.
          io_return (ms_g_id st, st\<lparr>ms_clients := s, ms_g_id := ms_g_id st + 1\<rparr>)))"

text \<open>Printing a message about a client into \<^verbatim>\<open>msg\<close>, 42 bytes, and sending it.\<close>

definition announce :: "int \<Rightarrow> string \<Rightarrow> mini \<Rightarrow> mini io" where
  "announce fd s st =
     io_bind (io_of (print_to 42 s (ms_msg st))) (\<lambda>msg.
     let st = st\<lparr>ms_msg := msg\<rparr> in
     io_bind (io_of (string_at 42 msg 0)) (\<lambda>s.
     io_bind (mini_send_all fd s st) (\<lambda>_. io_return st)))"

definition mini_add_client :: "mini \<Rightarrow> mini io" where
  "mini_add_client st =
     io_bind (call os_fd (Sys_Accept (ms_sock st))) (\<lambda>client_fd.
     if client_fd < 0 then fatal (ms_sock st)
     else io_bind (add_client_to_list client_fd st) (\<lambda>(i, st).
          io_bind (announce client_fd (''server: client '' @ decimal i @ '' just arrived'' @ [LF]) st) (\<lambda>st.
          io_bind (io_of (fd_set_add client_fd (ms_curr st))) (\<lambda>curr.
          io_return (st\<lparr>ms_curr := curr\<rparr>)))))"

definition client_left :: "int \<Rightarrow> mini \<Rightarrow> mini io" where
  "client_left fd st =
     io_bind (io_of (rm_client fd (ms_clients st))) (\<lambda>(i, s).
     io_bind (announce fd (''server: client '' @ decimal i @ '' just left'' @ [LF])
       (st\<lparr>ms_clients := s, ms_msg := no_bytes\<rparr>)) (\<lambda>st.
     io_bind (call os_ok (Sys_Close fd)) (\<lambda>_.
     io_return (st\<lparr>ms_curr := ms_curr st - {fd}\<rparr>))))"

section \<open>Messages\<close>

text \<open>A complete line in \<^verbatim>\<open>tmp\<close>: it is sent, and \<^verbatim>\<open>tmp\<close> and \<^verbatim>\<open>buf\<close> are cleared.\<close>

definition relay_line :: "int \<Rightarrow> mini \<Rightarrow> mini io" where
  "relay_line fd st =
     io_bind (io_of (get_id fd (ms_clients st))) (\<lambda>i.
     io_bind (io_of (string_at STR_SIZE (ms_tmp st) 0)) (\<lambda>line.
     io_bind (io_of (print_to (STR_SIZE + 42) (''client '' @ decimal i @ '': '' @ line) (ms_buf st))) (\<lambda>buf.
     io_bind (io_of (string_at (STR_SIZE + 42) buf 0)) (\<lambda>s.
     io_bind (mini_send_all fd s st) (\<lambda>_.
     io_bind (io_of (clear_string STR_SIZE (ms_tmp st))) (\<lambda>tmp.
     io_bind (io_of (clear_string (STR_SIZE + 42) buf)) (\<lambda>buf.
     io_return (st\<lparr>ms_tmp := tmp, ms_buf := buf\<rparr>))))))))"

function ex_loop :: "int \<Rightarrow> nat \<Rightarrow> nat \<Rightarrow> mini \<Rightarrow> mini io" where
  "ex_loop fd i j st =
     (if STR_SIZE \<le> i then io_throw (Undef ''read behind str'')
      else let c = ms_str st i
           in if c = NUL then io_return st
              else let st = st\<lparr>ms_tmp := (ms_tmp st)(j := c)\<rparr>
                   in if c = LF then io_bind (relay_line fd st) (ex_loop fd (i + 1) 0)
                      else ex_loop fd (i + 1) (j + 1) st)"
  by pat_completeness auto
termination by (relation "measure (\<lambda>(fd, i, j, st). STR_SIZE - i)") auto

declare ex_loop.simps [simp del]

definition ex_msg :: "int \<Rightarrow> mini \<Rightarrow> mini io" where
  "ex_msg fd st =
     io_bind (ex_loop fd 0 0 st) (\<lambda>st.
     io_bind (io_of (clear_string STR_SIZE (ms_str st))) (\<lambda>str.
     io_return (st\<lparr>ms_str := str\<rparr>)))"

section \<open>The loop\<close>

definition mini_receive :: "int \<Rightarrow> mini \<Rightarrow> (bool \<times> mini) io" where
  "mini_receive fd st =
     io_bind (call os_data (Sys_Recv fd)) (\<lambda>answer.
     case answer of
       None \<Rightarrow> io_bind (client_left fd st) (\<lambda>st. io_return (True, st))
     | Some d \<Rightarrow>
         if d = [] then io_bind (client_left fd st) (\<lambda>st. io_return (True, st))
         else io_bind (ex_msg fd (st\<lparr>ms_str := put_bytes (take STR_SIZE d) (ms_str st)\<rparr>)) (\<lambda>st.
              io_return (False, st)))"

text \<open>From one descriptor on, up to the greatest; an arrival or a departure ends the loop.\<close>

partial_function (option) fd_loop ::
  "int \<Rightarrow> mini \<Rightarrow> os \<Rightarrow> history \<Rightarrow> (mini res \<times> history) option" where
  "fd_loop fd st os t =
     (case get_max_fd (ms_sock st) (ms_clients st) of
        Inl e \<Rightarrow> Some (Inl e, t)
      | Inr m \<Rightarrow>
          if m < fd then Some (Ret st, t)
          else if fd \<in> ms_read st
          then (if fd = ms_sock st then Some (mini_add_client (st\<lparr>ms_msg := no_bytes\<rparr>) os t)
                else case mini_receive fd st os t of
                  (Inl e, t1) \<Rightarrow> Some (Inl e, t1)
                | (Inr (over, st1), t1) \<Rightarrow> if over then Some (Ret st1, t1) else fd_loop (fd + 1) st1 os t1)
          else fd_loop (fd + 1) st os t)"

definition mini_round :: "mini \<Rightarrow> mini io" where
  "mini_round st =
     (let st = st\<lparr>ms_read := ms_curr st, ms_write := ms_curr st\<rparr>
      in io_bind (io_of (get_max_fd (ms_sock st) (ms_clients st))) (\<lambda>m.
         io_bind (call os_ready (Sys_Select (m + 1) (ms_read st) {})) (\<lambda>answer.
         case answer of
           None \<Rightarrow> io_return st
         | Some (r, w) \<Rightarrow> ended_io (fd_loop 0 (st\<lparr>ms_read := ms_curr st \<inter> r\<rparr>)))))"

section \<open>The start\<close>

definition mini_start :: "string list \<Rightarrow> mini io" where
  "mini_start argv =
     (if length argv \<noteq> 2
      then io_bind (call os_count (Sys_Write 2 (''Wrong number of arguments'' @ [LF]))) (\<lambda>_. io_throw (Exit 1))
      else io_bind (io_of (c_atoi (argv ! 1))) (\<lambda>port.
           io_bind (call os_fd Sys_Socket) (\<lambda>sock.
           if sock < 0 then fatal sock
           else io_bind (call os_ok (Sys_Bind sock (word_of_int port))) (\<lambda>ok.
           if \<not> ok then fatal sock
           else io_bind (call os_ok (Sys_Listen sock 0)) (\<lambda>ok.
           if \<not> ok then fatal sock
           else io_bind (io_of (fd_set_add sock {})) (\<lambda>curr.
                io_return \<lparr>ms_clients = empty_store, ms_sock = sock, ms_g_id = 0, ms_curr = curr,
                  ms_read = {}, ms_write = {}, ms_msg = no_bytes, ms_str = no_bytes,
                  ms_tmp = no_bytes, ms_buf = no_bytes\<rparr>))))))"

abbreviation mini_reaches :: "string list \<Rightarrow> os \<Rightarrow> mini \<Rightarrow> history \<Rightarrow> bool" where
  "mini_reaches argv \<equiv> loop_reaches (mini_start argv) mini_round"

section \<open>Buffers as strings\<close>

text \<open>The buffer that holds a string and is NUL behind it.\<close>

definition buf_of :: "string \<Rightarrow> buffer" where
  "buf_of w = (\<lambda>i. if i < length w then w ! i else NUL)"

lemma buf_of_Nil [simp]: "buf_of [] = no_bytes"
  by (simp add: buf_of_def)

lemma string_at_buf_of:
  "i \<le> length w \<Longrightarrow> NUL \<notin> set w \<Longrightarrow> length w < n \<Longrightarrow> string_at n (buf_of w) i = Ret (drop i w)"
proof (induction "length w - i" arbitrary: i)
  case 0
  then show ?case by (subst string_at.simps) (simp add: buf_of_def)
next
  case (Suc k)
  then have i: "i < length w" by simp
  with Suc.prems have "w ! i \<noteq> NUL" by (metis nth_mem)
  moreover have "string_at n (buf_of w) (i + 1) = Ret (drop (i + 1) w)" using Suc i by simp
  ultimately show ?case
    using i Suc.prems by (subst string_at.simps) (simp add: buf_of_def Cons_nth_drop_Suc)
qed

lemma put_bytes_buf_of: "put_bytes s (buf_of w) = buf_of (s @ drop (length s) w)"
  by (auto simp: put_bytes_def buf_of_def fun_eq_iff nth_append)

lemma buf_of_upd: "j \<le> length w \<Longrightarrow> (buf_of w)(j := c) = buf_of (take j w @ c # drop (j + 1) w)"
  by (auto simp: buf_of_def fun_eq_iff nth_append nth_Cons' min_def)

lemma buf_of_NUL: "buf_of (s @ [NUL]) = buf_of s"
  by (auto simp: buf_of_def fun_eq_iff nth_append)

lemma clear_buf_of:
  "NUL \<notin> set w \<Longrightarrow> length w < n \<Longrightarrow> clear_string n (buf_of w) = Ret no_bytes"
  by (simp add: clear_string_def string_at_buf_of) (auto simp: zero_bytes_def buf_of_def)

lemma print_to_no_bytes: "length s < n \<Longrightarrow> print_to n s no_bytes = Ret (buf_of s)"
  using put_bytes_buf_of [of "s @ [NUL]" "[]"] by (simp add: print_to_def buf_of_NUL)

lemma string_at_put:
  "NUL \<notin> set s \<Longrightarrow> length s < n \<Longrightarrow> i \<le> length s \<Longrightarrow> string_at n (put_bytes (s @ [NUL]) b) i = Ret (drop i s)"
proof (induction "length s - i" arbitrary: i)
  case 0
  then show ?case by (subst string_at.simps) (simp add: put_bytes_def nth_append)
next
  case (Suc k)
  then have i: "i < length s" by simp
  with Suc.prems have "s ! i \<noteq> NUL" by (metis nth_mem)
  moreover have "string_at n (put_bytes (s @ [NUL]) b) (i + 1) = Ret (drop (i + 1) s)" using Suc i by simp
  ultimately show ?case
    using i Suc.prems by (subst string_at.simps) (simp add: put_bytes_def nth_append Cons_nth_drop_Suc)
qed

section \<open>Broadcast\<close>

definition receivers :: "int \<Rightarrow> int set \<Rightarrow> (int \<times> int) list \<Rightarrow> int list" where
  "receivers fd writable xs = filter (\<lambda>c. c \<noteq> fd \<and> c \<in> writable) (map fst xs)"

definition sends :: "int list \<Rightarrow> string \<Rightarrow> history" where
  "sends fds s = map (\<lambda>c. Sys_Send c s) fds"

definition sends_ok :: "os \<Rightarrow> bool" where
  "sends_ok os \<longleftrightarrow> (\<forall>t c s. 0 \<le> os_count os (t @ [Sys_Send c s]))"

lemma sends_simps [simp]: "sends [] s = []" "sends (c # cs) s = Sys_Send c s # sends cs s"
  by (simp_all add: sends_def)

text \<open>What is expected, or the exit after a call of \<^verbatim>\<open>send\<close> failed.\<close>

definition outcome :: "os \<Rightarrow> 'a res \<times> history \<Rightarrow> 'a \<Rightarrow> history \<Rightarrow> bool" where
  "outcome os r x t \<longleftrightarrow> r = (Ret x, t) \<or> \<not> sends_ok os \<and> (\<exists>u. r = (Throw (Exit 1), u))"

lemma outcome_Ret [simp]: "outcome os (Ret x, t) y u \<longleftrightarrow> x = y \<and> t = u"
  by (auto simp: outcome_def)

lemma outcome_bind:
  "outcome os (m os t) x t1 \<Longrightarrow> outcome os (f x os t1) y t2 \<Longrightarrow> outcome os (io_bind m f os t) y t2"
  by (auto simp: outcome_def io_simps)

lemma fatal_exits: "\<exists>u. fatal sock os t = (Throw (Exit 1), u)"
  by (simp add: fatal_def io_simps)

lemma send_from_chain:
  assumes "chain h p as"
  shows "\<exists>r. send_from h p fd s wr sock os t = Some r
    \<and> outcome os r () (t @ sends (receivers fd wr (map (cell_client h) as)) s)"
  using assms
proof (induction as arbitrary: p t)
  case Nil
  then show ?case by (simp add: send_from.simps receivers_def)
next
  case (Cons a as)
  then obtain c where a: "p = a" "a \<noteq> 0" "h a = Some c" "chain h (tc_next c) as" by auto
  let ?t = "t @ [Sys_Send (tc_fd c) s]"
  show ?case
  proof (cases "tc_fd c \<noteq> fd \<and> tc_fd c \<in> wr")
    case True
    show ?thesis
    proof (cases "os_count os ?t < 0")
      case True
      moreover from this have "\<not> sends_ok os" by (auto simp: sends_ok_def not_le)
      ultimately show ?thesis
        using a \<open>tc_fd c \<noteq> fd \<and> tc_fd c \<in> wr\<close> fatal_exits [of sock os ?t]
        by (subst send_from.simps) (auto simp: Let_def outcome_def)
    next
      case False
      with a \<open>tc_fd c \<noteq> fd \<and> tc_fd c \<in> wr\<close> Cons.IH [OF a(4), of ?t] show ?thesis
        by (subst send_from.simps) (auto simp: Let_def receivers_def)
    qed
  next
    case False
    with a Cons.IH [OF a(4), of t] show ?thesis
      by (subst send_from.simps) (auto simp: receivers_def)
  qed
qed

lemma send_all_clients:
  assumes "chained (ms_clients st) xs"
  shows "outcome os (mini_send_all fd s st os t) () (t @ sends (receivers fd (ms_write st) xs) s)"
proof -
  from assms obtain as where c: "chain (cells (ms_clients st)) (g_clients (ms_clients st)) as"
    and xs: "xs = map (cell_client (cells (ms_clients st))) as" unfolding chained_def by blast
  from send_from_chain [OF c, of fd s "ms_write st" "ms_sock st" os t] xs show ?thesis
    unfolding mini_send_all_def ended_io_def by auto
qed

section \<open>Messages\<close>

abbreviation from_client :: "int \<Rightarrow> string \<Rightarrow> string" where
  "from_client i l \<equiv> ''client '' @ decimal i @ '': '' @ l"

text \<open>
  The lines sent and what is left in \<^verbatim>\<open>tmp\<close>: \<open>cur\<close> was copied there from the message, behind
  it stand the bytes \<open>old\<close> of an earlier message.
\<close>

fun relayed :: "string \<Rightarrow> string \<Rightarrow> string \<Rightarrow> string list \<times> string" where
  "relayed cur old [] = ([], cur @ old)"
| "relayed cur old (c # d) =
     (if c = LF then (case relayed [] [] d of (ls, r) \<Rightarrow> ((cur @ c # tl old) # ls, r))
      else relayed (cur @ [c]) (tl old) d)"

fun_cases relayed_ConsE: "relayed cur old (c # d) = (ls, r)"

definition ready_to_relay :: "mini \<Rightarrow> (int \<times> int) list \<Rightarrow> bool" where
  "ready_to_relay st xs \<longleftrightarrow> chained (ms_clients st) xs \<and> ms_buf st = no_bytes
     \<and> (\<forall>(fd, i)\<in>set xs. 0 \<le> i \<and> int32 i)"

lemma dec_digits_length: "n < 10 ^ k \<Longrightarrow> 0 < k \<Longrightarrow> length (dec_digits n) \<le> k"
proof (induction n arbitrary: k rule: dec_digits.induct)
  case (1 n)
  show ?case
  proof (cases "n < 10")
    case True
    with 1 show ?thesis by (simp add: dec_digits.simps)
  next
    case False
    with 1(2,3) obtain l where k: "k = Suc l" "0 < l" by (cases k; cases "k - 1") auto
    with 1(2) have "n div 10 < 10 ^ l" by (simp add: less_mult_imp_div_less mult.commute)
    with 1(1) [OF False _ k(2)] False k show ?thesis by (simp add: dec_digits.simps)
  qed
qed

lemma decimal_length: "int32 i \<Longrightarrow> 0 \<le> i \<Longrightarrow> length (decimal i) \<le> 10"
  using dec_digits_length [of "nat i" 10] by (simp add: decimal_def int32_def)

lemma number_length:
  assumes "ready_to_relay st xs"
  shows "length (decimal (number_of xs fd)) \<le> 10"
proof (cases "map_of xs fd")
  case None
  then show ?thesis by (simp add: decimal_def dec_digits.simps)
next
  case (Some i)
  then have "(fd, i) \<in> set xs" by (rule map_of_SomeD)
  with assms Some show ?thesis by (auto simp: ready_to_relay_def intro: decimal_length)
qed

lemma relay_line_sends:
  assumes "ready_to_relay st xs" "ms_tmp st = buf_of l" "NUL \<notin> set l" "length l < STR_SIZE"
  shows "outcome os (relay_line fd st os t) (st\<lparr>ms_tmp := no_bytes\<rparr>)
    (t @ sends (receivers fd (ms_write st) xs) (from_client (number_of xs fd) l))"
proof -
  let ?s = "from_client (number_of xs fd) l"
  have h: "chained (ms_clients st) xs" "ms_buf st = no_bytes" using assms(1) by (simp_all add: ready_to_relay_def)
  have n: "NUL \<notin> set ?s" using assms(3) decimal_no_NUL by auto
  have len: "length ?s < STR_SIZE + 42" using number_length [OF assms(1), of fd] assms(4) by simp
  have "outcome os (mini_send_all fd ?s st os t) () (t @ sends (receivers fd (ms_write st) xs) ?s)"
    using h(1) by (rule send_all_clients)
  moreover have "st\<lparr>ms_tmp := no_bytes, ms_buf := no_bytes\<rparr> = st\<lparr>ms_tmp := no_bytes\<rparr>" using h(2) by simp
  ultimately show ?thesis
    unfolding relay_line_def
    using h assms(2-4) n len get_id_holds [OF h(1), of fd]
    by (simp del: number_of.simps add: string_at_buf_of print_to_no_bytes clear_buf_of outcome_bind io_base)
qed

lemma buf_of_write: "(buf_of (cur @ old))(length cur := c) = buf_of (cur @ c # tl old)"
  by (simp add: buf_of_upd) (cases old; simp)

lemma relayed_rest:
  "relayed cur old d = (ls, r) \<Longrightarrow> NUL \<notin> set (cur @ old @ d) \<Longrightarrow>
     NUL \<notin> set r \<and> length r \<le> max (length (cur @ d)) (length (cur @ old))"
proof (induction cur old d arbitrary: ls r rule: relayed.induct)
  case (1 cur old)
  then show ?case by auto
next
  case (2 cur old c d)
  have tl: "set (tl old) \<subseteq> set old" by (cases old) auto
  show ?case
  proof (cases "c = LF")
    case True
    with 2(3) obtain ls' where "relayed [] [] d = (ls', r)" by (auto elim!: relayed_ConsE split: prod.splits)
    from 2(1) [OF True this] 2(4) show ?thesis by auto
  next
    case False
    with 2(3) have "relayed (cur @ [c]) (tl old) d = (ls, r)" by simp
    from 2(2) [OF False this] 2(4) tl show ?thesis by (cases old) (auto simp: max_def split: if_splits)
  qed
qed

lemma ex_loop_relays:
  assumes "ready_to_relay st xs" "ms_str st = buf_of D" "NUL \<notin> set D" "length D < STR_SIZE"
    "ms_tmp st = buf_of (cur @ old)" "NUL \<notin> set (cur @ old)" "length (cur @ old) < STR_SIZE"
    "d = drop i D" "i \<le> length D" "length cur \<le> i" "relayed cur old d = (ls, r)"
  shows "outcome os (ex_loop fd i (length cur) st os t) (st\<lparr>ms_tmp := buf_of r\<rparr>)
    (t @ concat (map (\<lambda>l. sends (receivers fd (ms_write st) xs) (from_client (number_of xs fd) l)) ls))"
  using assms
proof (induction d arbitrary: i cur old st t ls r)
  case Nil
  then have "ms_str st i = NUL" "\<not> STR_SIZE \<le> i" by (simp_all add: buf_of_def)
  moreover have "ls = []" "r = cur @ old" using Nil by simp_all
  ultimately show ?case
    using Nil(5) by (subst ex_loop.simps) (simp add: io_base)
next
  case (Cons c d)
  from Cons.prems(8,9) have i: "i < length D" by (cases "i = length D") auto
  then have c: "D ! i = c" and d: "d = drop (i + 1) D"
    using Cons.prems(8) by (metis Cons_nth_drop_Suc list.inject Suc_eq_plus1)+
  have str: "ms_str st i = c" "c \<noteq> NUL" "\<not> STR_SIZE \<le> i"
    using c i Cons.prems(2-4) by (auto simp: buf_of_def dest: nth_mem)
  let ?st = "st\<lparr>ms_tmp := buf_of (cur @ c # tl old)\<rparr>"
  have w: "(ms_tmp st)(length cur := c) = buf_of (cur @ c # tl old)"
    using Cons.prems(5) by (simp add: buf_of_write)
  have tl: "set (tl old) \<subseteq> set old" "length (tl old) \<le> length old" by (cases old; auto)+
  have ok: "ready_to_relay ?st xs" "NUL \<notin> set (cur @ c # tl old)" "length (cur @ c # tl old) < STR_SIZE"
    using Cons.prems(1,4,6,7,10) str(2) tl i by (auto simp: ready_to_relay_def)
  show ?case
  proof (cases "c = LF")
    case True
    with Cons.prems(11) obtain ls' where r: "relayed [] [] d = (ls', r)" "ls = (cur @ c # tl old) # ls'"
      by (auto elim!: relayed_ConsE split: prod.splits)
    let ?t = "t @ sends (receivers fd (ms_write st) xs) (from_client (number_of xs fd) (cur @ c # tl old))"
    have 1: "outcome os (relay_line fd ?st os t) (st\<lparr>ms_tmp := no_bytes\<rparr>) ?t"
      using relay_line_sends [OF ok(1) _ ok(2,3), of os fd t] by simp
    have 2: "outcome os (ex_loop fd (i + 1) 0 (st\<lparr>ms_tmp := no_bytes\<rparr>) os ?t) (st\<lparr>ms_tmp := buf_of r\<rparr>)
        (?t @ concat (map (\<lambda>l. sends (receivers fd (ms_write st) xs) (from_client (number_of xs fd) l)) ls'))"
      using Cons.IH [of "st\<lparr>ms_tmp := no_bytes\<rparr>" "[]" "[]" "i + 1" ls' r ?t] Cons.prems(1-4) d i r(1)
      by (simp add: ready_to_relay_def)
    have "outcome os (io_bind (relay_line fd ?st) (ex_loop fd (i + 1) 0) os t) (st\<lparr>ms_tmp := buf_of r\<rparr>)
        (?t @ concat (map (\<lambda>l. sends (receivers fd (ms_write st) xs) (from_client (number_of xs fd) l)) ls'))"
      using 1 2 by (rule outcome_bind)
    then show ?thesis
      using str w r(2) True by (subst ex_loop.simps) (simp add: Let_def)
  next
    case False
    with Cons.prems(11) have "relayed (cur @ [c]) (tl old) d = (ls, r)" by simp
    with Cons.IH [of ?st "cur @ [c]" "tl old" "i + 1" ls r t] Cons.prems(2-4,10) ok d i
    have "outcome os (ex_loop fd (i + 1) (length cur + 1) ?st os t) (st\<lparr>ms_tmp := buf_of r\<rparr>)
      (t @ concat (map (\<lambda>l. sends (receivers fd (ms_write st) xs) (from_client (number_of xs fd) l)) ls))"
      by simp
    with str w False show ?thesis by (subst ex_loop.simps) (simp add: Let_def)
  qed
qed

lemma ex_msg_relays:
  assumes "ready_to_relay st xs" "ms_str st = buf_of d" "NUL \<notin> set d" "length d < STR_SIZE"
    "ms_tmp st = buf_of old" "NUL \<notin> set old" "length old < STR_SIZE" "relayed [] old d = (ls, r)"
  shows "outcome os (ex_msg fd st os t) (st\<lparr>ms_tmp := buf_of r, ms_str := no_bytes\<rparr>)
    (t @ concat (map (\<lambda>l. sends (receivers fd (ms_write st) xs) (from_client (number_of xs fd) l)) ls))"
proof -
  have "outcome os (ex_loop fd 0 0 st os t) (st\<lparr>ms_tmp := buf_of r\<rparr>)
    (t @ concat (map (\<lambda>l. sends (receivers fd (ms_write st) xs) (from_client (number_of xs fd) l)) ls))"
    using ex_loop_relays [OF assms(1-4), of "[]" old d 0 ls r os fd t] assms(5-8) by simp
  then show ?thesis
    unfolding ex_msg_def
    by (rule outcome_bind) (use assms(2-4) in \<open>simp add: clear_buf_of io_simps\<close>)
qed

section \<open>What is received and what is sent\<close>

lemma relayed_line:
  "LF \<notin> set l \<Longrightarrow> relayed cur old (l @ LF # d) =
     (case relayed [] [] d of (ls, r) \<Rightarrow> ((cur @ l @ LF # drop (length l + 1) old) # ls, r))"
proof (induction l arbitrary: cur old)
  case Nil
  then show ?case by (simp add: drop_Suc)
next
  case (Cons c l)
  then have "c \<noteq> LF" "LF \<notin> set l" by auto
  with Cons.IH show ?case by (simp add: drop_Suc split: prod.split)
qed

lemma relayed_unfinished: "LF \<notin> set w \<Longrightarrow> relayed cur old w = ([], cur @ w @ drop (length w) old)"
  by (induction w arbitrary: cur old) (auto simp: drop_Suc)

abbreviation lines_text :: "string list \<Rightarrow> string" where
  "lines_text ls \<equiv> concat (map (\<lambda>l. l @ [LF]) ls)"

lemma relayed_lines:
  "\<forall>l\<in>set ls. LF \<notin> set l \<Longrightarrow> relayed [] [] (lines_text ls) = (map (\<lambda>l. l @ [LF]) ls, [])"
  by (induction ls) (auto simp: relayed_line)

lemma receive_relays:
  assumes "ready_to_relay st xs" "ms_str st = no_bytes" "ms_tmp st = buf_of old" "NUL \<notin> set old" "length old < STR_SIZE"
    "os_data os (t @ [Sys_Recv fd]) = Some d" "d \<noteq> []" "NUL \<notin> set d" "length d < STR_SIZE" "relayed [] old d = (ls, r)"
  shows "outcome os (mini_receive fd st os t) (False, st\<lparr>ms_tmp := buf_of r\<rparr>)
    (t @ Sys_Recv fd # concat (map (\<lambda>l. sends (receivers fd (ms_write st) xs) (from_client (number_of xs fd) l)) ls))"
proof -
  let ?st = "st\<lparr>ms_str := buf_of d\<rparr>"
  have s: "put_bytes (take STR_SIZE d) (ms_str st) = buf_of d"
    using assms(2,9) put_bytes_buf_of [of d "[]"] by simp
  have "outcome os (ex_msg fd ?st os (t @ [Sys_Recv fd])) (?st\<lparr>ms_tmp := buf_of r, ms_str := no_bytes\<rparr>)
    ((t @ [Sys_Recv fd]) @ concat (map (\<lambda>l. sends (receivers fd (ms_write ?st) xs) (from_client (number_of xs fd) l)) ls))"
    using assms by (intro ex_msg_relays [where d = d and old = old]) (simp_all add: ready_to_relay_def)
  moreover have "?st\<lparr>ms_tmp := buf_of r, ms_str := no_bytes\<rparr> = st\<lparr>ms_tmp := buf_of r\<rparr>" using assms(2) by simp
  ultimately show ?thesis
    using assms(6,7) s by (auto simp: mini_receive_def io_simps outcome_def split: option.splits)
qed

text \<open>
  C26. Complete lines, received from a client while no unfinished line is pending: every other client the
  last call of \<^verbatim>\<open>select\<close> was about gets each of them, in order and behind the number of the
  sender, and the state of the server is unchanged.
\<close>

theorem lines_relayed:
  assumes "ready_to_relay st xs" "ms_str st = no_bytes" "ms_tmp st = no_bytes" "sends_ok os"
    "os_data os (t @ [Sys_Recv fd]) = Some (lines_text ls)" "ls \<noteq> []"
    "\<forall>l\<in>set ls. LF \<notin> set l \<and> NUL \<notin> set l" "length (lines_text ls) < STR_SIZE"
  shows "mini_receive fd st os t = (Ret (False, st),
    t @ Sys_Recv fd # concat (map (\<lambda>l. sends (receivers fd (ms_write st) xs) (from_client (number_of xs fd) (l @ [LF]))) ls))"
proof -
  have "NUL \<notin> set (lines_text ls)" "lines_text ls \<noteq> []" using assms(6,7) by auto
  moreover have "relayed [] [] (lines_text ls) = (map (\<lambda>l. l @ [LF]) ls, [])" using assms(7) by (simp add: relayed_lines)
  ultimately have "outcome os (mini_receive fd st os t) (False, st\<lparr>ms_tmp := buf_of []\<rparr>)
    (t @ Sys_Recv fd # concat (map (\<lambda>l. sends (receivers fd (ms_write st) xs) (from_client (number_of xs fd) l)) (map (\<lambda>l. l @ [LF]) ls)))"
    using assms(1-3,5,8) by (intro receive_relays [where old = "[]"]) simp_all
  moreover have "st\<lparr>ms_tmp := no_bytes\<rparr> = st" using assms(3) by simp
  ultimately show ?thesis using assms(4) by (simp add: outcome_def comp_def)
qed

definition two_clients :: client_store where
  "two_clients = \<lparr>g_clients = 1, cells = [1 \<mapsto> \<lparr>tc_fd = 4, tc_id = 0, tc_next = 2\<rparr>, 2 \<mapsto> \<lparr>tc_fd = 5, tc_id = 1, tc_next = 0\<rparr>],
     next_cell = 3\<rparr>"

definition chat_state :: mini where
  "chat_state = \<lparr>ms_clients = two_clients, ms_sock = 3, ms_g_id = 2, ms_curr = {3, 4, 5}, ms_read = {}, ms_write = {3, 4, 5},
     ms_msg = no_bytes, ms_str = no_bytes, ms_tmp = no_bytes, ms_buf = no_bytes\<rparr>"

definition chat_os :: "(history \<Rightarrow> string option) \<Rightarrow> os" where
  "chat_os d = \<lparr>os_fs = (\<lambda>_. \<lparr>fs_stat = (\<lambda>_. None), fs_uninit = 0\<rparr>), os_ok = (\<lambda>_. True),
     os_fd = (\<lambda>t. int (length t) + 2), os_data = d, os_count = (\<lambda>_. 1), os_time = (\<lambda>_. 0),
     os_text = (\<lambda>_. []), os_exit = (\<lambda>_. None), os_ready = (\<lambda>_. None), os_events = (\<lambda>_. [])\<rparr>"

lemma two_clients_hold: "chained two_clients [(4, 0), (5, 1)]"
  unfolding chained_def two_clients_def by (intro exI [of _ "[1, 2]"]) (auto simp: cell_client_def)

lemma chat_state_ready: "ready_to_relay chat_state [(4, 0), (5, 1)]"
  by (simp add: ready_to_relay_def chat_state_def two_clients_hold int32_def)

theorem lines_relayed_witness:
  "mini_receive 4 chat_state (chat_os (\<lambda>_. Some (lines_text [''hi'', ''you'']))) [] = (Ret (False, chat_state),
     [Sys_Recv 4, Sys_Send 5 (''client 0: hi'' @ [LF]), Sys_Send 5 (''client 0: you'' @ [LF])])"
  using lines_relayed [OF chat_state_ready, of "chat_os (\<lambda>_. Some (lines_text [''hi'', ''you'']))" "[]" 4 "[''hi'', ''you'']"]
  by (simp add: chat_state_def chat_os_def sends_ok_def receivers_def decimal_def dec_digits.simps digit_char_lit)

text \<open>
  A line that is not finished stays in \<^verbatim>\<open>tmp\<close>, whoever sent it.  The next line, of any client, is
  written over its beginning, and what sticks out is sent behind it as the words of that client.
\<close>

theorem unfinished_line_mixed:
  assumes "ready_to_relay st xs" "ms_str st = no_bytes" "ms_tmp st = no_bytes" "sends_ok os"
    "os_data os (t @ [Sys_Recv fd1]) = Some w" "os_data os (t @ [Sys_Recv fd1, Sys_Recv fd2]) = Some (l @ [LF])"
    "w \<noteq> []" "LF \<notin> set (w @ l)" "NUL \<notin> set (w @ l)" "length w < STR_SIZE" "length l + 1 < STR_SIZE"
  shows "io_bind (mini_receive fd1 st) (\<lambda>(over, st). mini_receive fd2 st) os t = (Ret (False, st),
    t @ Sys_Recv fd1 # Sys_Recv fd2
      # sends (receivers fd2 (ms_write st) xs) (from_client (number_of xs fd2) (l @ LF # drop (length l + 1) w)))"
proof -
  have "outcome os (mini_receive fd1 st os t) (False, st\<lparr>ms_tmp := buf_of w\<rparr>) (t @ Sys_Recv fd1 # concat (map (\<lambda>l. sends
      (receivers fd1 (ms_write st) xs) (from_client (number_of xs fd1) l)) []))"
    using assms relayed_unfinished [of w "[]" "[]"]
    by (intro receive_relays [where old = "[]"]) simp_all
  then have 1: "mini_receive fd1 st os t = (Ret (False, st\<lparr>ms_tmp := buf_of w\<rparr>), t @ [Sys_Recv fd1])"
    using assms(4) by (simp add: outcome_def)
  let ?st = "st\<lparr>ms_tmp := buf_of w\<rparr>"
  have "outcome os (mini_receive fd2 ?st os (t @ [Sys_Recv fd1])) (False, ?st\<lparr>ms_tmp := buf_of []\<rparr>) ((t @ [Sys_Recv fd1])
      @ Sys_Recv fd2 # concat (map (\<lambda>l. sends (receivers fd2 (ms_write ?st) xs) (from_client (number_of xs fd2) l))
        [l @ LF # drop (length l + 1) w]))"
    using assms relayed_line [of l "[]" w "[]"]
    by (intro receive_relays [where old = w]) (simp_all add: ready_to_relay_def)
  moreover have "?st\<lparr>ms_tmp := buf_of []\<rparr> = st" using assms(3) by simp
  ultimately show ?thesis using assms(4) 1 by (simp add: outcome_def io_simps)
qed

theorem unfinished_line_mixed_witness:
  "\<exists>os. io_bind (mini_receive 4 chat_state) (\<lambda>(over, st). mini_receive 5 st) os [] = (Ret (False, chat_state),
     [Sys_Recv 4, Sys_Recv 5, Sys_Send 4 (''client 1: hi'' @ [LF] @ ''lo'')])"
proof -
  let ?os = "chat_os (\<lambda>t. if length t = 1 then Some ''hello'' else Some (''hi'' @ [LF]))"
  have "io_bind (mini_receive 4 chat_state) (\<lambda>(over, st). mini_receive 5 st) ?os [] = (Ret (False, chat_state),
     [Sys_Recv 4, Sys_Recv 5, Sys_Send 4 (''client 1: hi'' @ [LF] @ ''lo'')])"
    using unfinished_line_mixed [OF chat_state_ready, of ?os "[]" 4 "''hello''" 5 "''hi''"]
    by (simp add: chat_state_def chat_os_def sends_ok_def receivers_def decimal_def dec_digits.simps digit_char_lit)
  then show ?thesis by blast
qed

end
