(* ===== verification/ChatRoom.thy ===== *)
theory ChatRoom
  imports MiniServ
begin

text \<open>
  What holds of the chat server of \<^verbatim>\<open>src/exam06/mini_serv_original.c\<close> in every state its loop
  reaches: the chained list, the set of descriptors for \<^verbatim>\<open>select\<close> and the descriptors that are open
  agree, the numbers of the clients rise, and the buffers are clean.  It follows that no round
  uses \<^verbatim>\<open>NULL\<close> or a freed cell, writes behind a buffer or runs for ever.
\<close>

section \<open>Open descriptors\<close>

text \<open>The descriptors a history (the last call first) opened and did not close.\<close>

fun open_rev :: "os \<Rightarrow> history \<Rightarrow> int set" where
  "open_rev os [] = {}"
| "open_rev os (Sys_Socket # r) =
     (let fd = os_fd os (rev r @ [Sys_Socket]) in if fd < 0 then open_rev os r else insert fd (open_rev os r))"
| "open_rev os (Sys_Accept s # r) =
     (let fd = os_fd os (rev r @ [Sys_Accept s]) in if fd < 0 then open_rev os r else insert fd (open_rev os r))"
| "open_rev os (Sys_Close fd # r) = open_rev os r - {fd}"
| "open_rev os (c # r) = open_rev os r"

definition open_fds :: "os \<Rightarrow> history \<Rightarrow> int set" where
  "open_fds os t = open_rev os (rev t)"

fun quiet :: "syscall \<Rightarrow> bool" where
  "quiet Sys_Socket = False"
| "quiet (Sys_Accept s) = False"
| "quiet (Sys_Close fd) = False"
| "quiet c = True"

lemma open_fds_Nil [simp]: "open_fds os [] = {}"
  by (simp add: open_fds_def)

lemma open_fds_quiet1: "quiet c \<Longrightarrow> open_fds os (t @ [c]) = open_fds os t"
  by (cases c) (simp_all add: open_fds_def)

lemma open_fds_quiet: "\<forall>c\<in>set u. quiet c \<Longrightarrow> open_fds os (t @ u) = open_fds os t"
proof (induction u rule: rev_induct)
  case (snoc c u)
  then show ?case using open_fds_quiet1 [of c os "t @ u"] by simp
qed simp

lemma open_fds_close [simp]: "open_fds os (t @ [Sys_Close fd]) = open_fds os t - {fd}"
  by (simp add: open_fds_def)

lemma open_fds_accept: "0 \<le> os_fd os (t @ [Sys_Accept s]) \<Longrightarrow>
    open_fds os (t @ [Sys_Accept s]) = insert (os_fd os (t @ [Sys_Accept s])) (open_fds os t)"
  by (simp add: open_fds_def)

lemma quiet_sends [simp]: "\<forall>c\<in>set (sends fds s). quiet c"
  by (simp add: sends_def)

text \<open>The system gives out no descriptor that is open, and what is received is text that fits.\<close>

definition fresh_fds :: "os \<Rightarrow> bool" where
  "fresh_fds os \<longleftrightarrow> (\<forall>t s. os_fd os (t @ [Sys_Accept s]) \<notin> open_fds os t)"

definition text_data :: "os \<Rightarrow> bool" where
  "text_data os \<longleftrightarrow> (\<forall>t d. os_data os t = Some d \<longrightarrow> NUL \<notin> set d \<and> length d < STR_SIZE)"

section \<open>The invariant\<close>

definition clean_buffers :: "mini \<Rightarrow> bool" where
  "clean_buffers st \<longleftrightarrow> ms_str st = no_bytes \<and> ms_buf st = no_bytes
     \<and> (\<exists>w. ms_tmp st = buf_of w \<and> NUL \<notin> set w \<and> length w < STR_SIZE)"

definition numbered :: "int \<Rightarrow> (int \<times> int) list \<Rightarrow> bool" where
  "numbered n xs \<longleftrightarrow> sorted_wrt (<) (map snd xs) \<and> (\<forall>(fd, i)\<in>set xs. 0 \<le> i \<and> i < n) \<and> 0 \<le> n \<and> int32 n"

definition chat_inv :: "os \<Rightarrow> (int \<times> int) list \<Rightarrow> mini \<Rightarrow> history \<Rightarrow> bool" where
  "chat_inv os xs st t \<longleftrightarrow> chained (ms_clients st) xs \<and> distinct (ms_sock st # map fst xs) \<and> numbered (ms_g_id st) xs
     \<and> ms_curr st = set (ms_sock st # map fst xs) \<and> open_fds os t = ms_curr st \<and> clean_buffers st"

text \<open>
  How a round may end otherwise: the exit after a call failed, the 2147483648th client, and a
  descriptor an \<^verbatim>\<open>fd_set\<close> has no room for.
\<close>

definition expected_end :: "exn \<Rightarrow> bool" where
  "expected_end e \<longleftrightarrow> e \<in> {Exit 1, Undef ''g_id'', Undef ''FD_SET''}"

definition goes_on :: "('a \<Rightarrow> history \<Rightarrow> bool) \<Rightarrow> 'a res \<times> history \<Rightarrow> bool" where
  "goes_on P r \<longleftrightarrow> (case r of (Inl e, t) \<Rightarrow> expected_end e | (Inr x, t) \<Rightarrow> P x t)"

lemma goes_on_Ret [simp]: "goes_on P (Inr x, t) \<longleftrightarrow> P x t"
  by (simp add: goes_on_def)

lemma goes_on_Throw [simp]: "goes_on P (Inl e, t) \<longleftrightarrow> expected_end e"
  by (simp add: goes_on_def)

lemma goes_on_bind:
  "goes_on Q (m os t) \<Longrightarrow> (\<And>x t'. Q x t' \<Longrightarrow> goes_on P (f x os t')) \<Longrightarrow> goes_on P (io_bind m f os t)"
  unfolding goes_on_def io_bind_def by (cases "m os t"; cases "fst (m os t)") force+

lemma io_bind_call: "io_bind (call answer c) f os t = f (answer os (t @ [c])) os (t @ [c])"
  by (simp add: io_simps)

lemma throw_bind: "io_bind (io_throw e) f = io_throw e"
  by (simp add: fun_eq_iff io_simps)

lemma fatal_bind: "io_bind (fatal sock) f = fatal sock"
  by (simp add: fun_eq_iff fatal_def io_simps)

lemma goes_on_outcome: "outcome os r x t \<Longrightarrow> P x t \<Longrightarrow> goes_on P r"
  by (auto simp: outcome_def expected_end_def)

lemma goes_on_fatal: "goes_on P (fatal sock os t)"
  by (simp add: fatal_def io_simps expected_end_def)

lemma chat_inv_ready: "chat_inv os xs st t \<Longrightarrow> ready_to_relay st xs"
  by (auto simp: chat_inv_def ready_to_relay_def clean_buffers_def numbered_def int32_def)

lemma chat_inv_setters [simp]:
  "chat_inv os xs (st\<lparr>ms_msg := m\<rparr>) t \<longleftrightarrow> chat_inv os xs st t"
  "chat_inv os xs (st\<lparr>ms_read := r\<rparr>) t \<longleftrightarrow> chat_inv os xs st t"
  "chat_inv os xs (st\<lparr>ms_write := r\<rparr>) t \<longleftrightarrow> chat_inv os xs st t"
  by (simp_all add: chat_inv_def clean_buffers_def)

lemma chat_inv_quiet: "\<forall>c\<in>set u. quiet c \<Longrightarrow> chat_inv os xs st (t @ u) \<longleftrightarrow> chat_inv os xs st t"
  by (simp add: chat_inv_def open_fds_quiet)

section \<open>The steps\<close>

lemma announce_outcome:
  assumes "chained (ms_clients st) xs" "NUL \<notin> set s" "length s < 42"
  shows "outcome os (announce fd s st os t) (st\<lparr>ms_msg := put_bytes (s @ [NUL]) (ms_msg st)\<rparr>)
    (t @ sends (receivers fd (ms_write st) xs) s)"
proof -
  let ?st = "st\<lparr>ms_msg := put_bytes (s @ [NUL]) (ms_msg st)\<rparr>"
  have "outcome os (mini_send_all fd s ?st os t) () (t @ sends (receivers fd (ms_write ?st) xs) s)"
    using assms(1) by (intro send_all_clients) simp
  then have "outcome os (io_bind (mini_send_all fd s ?st) (\<lambda>_. io_return ?st) os t) ?st (t @ sends (receivers fd (ms_write st) xs) s)"
    by (rule outcome_bind) (simp add: io_simps)
  then show ?thesis
    using assms string_at_put [of s 42 0 "ms_msg st"] by (simp add: announce_def print_to_def Let_def)
qed

lemma announce_goes_on:
  assumes "chained (ms_clients st) xs" "NUL \<notin> set s" "length s < 42"
    and "\<And>m u. \<forall>c\<in>set u. quiet c \<Longrightarrow> goes_on P (f (st\<lparr>ms_msg := m\<rparr>) os (t @ u))"
  shows "goes_on P (io_bind (announce fd s st) f os t)"
proof (rule goes_on_bind)
  show "goes_on (\<lambda>st' t'. \<exists>m u. (\<forall>c\<in>set u. quiet c) \<and> st' = st\<lparr>ms_msg := m\<rparr> \<and> t' = t @ u) (announce fd s st os t)"
    by (rule goes_on_outcome [OF announce_outcome [OF assms(1-3)]]) (use quiet_sends in blast)
qed (use assms(4) in blast)

lemma arrival_text:
  assumes "0 \<le> i" "int32 i"
  shows "NUL \<notin> set (''server: client '' @ decimal i @ '' just arrived'' @ [LF])"
    "length (''server: client '' @ decimal i @ '' just arrived'' @ [LF]) < 42"
    "NUL \<notin> set (''server: client '' @ decimal i @ '' just left'' @ [LF])"
    "length (''server: client '' @ decimal i @ '' just left'' @ [LF]) < 42"
  using decimal_no_NUL [of i] decimal_length [OF assms(2,1)] by simp_all


lemma add_client_shape:
  assumes h: "chained (ms_clients st) xs" and n: "numbered (ms_g_id st) xs"
  shows "goes_on (\<lambda>st' t'. \<exists>fd s m u. fd = os_fd os (t @ [Sys_Accept (ms_sock st)]) \<and> 0 \<le> fd \<and> fd < 1024
      \<and> chained s (xs @ [(fd, ms_g_id st)]) \<and> int32 (ms_g_id st + 1) \<and> (\<forall>c\<in>set u. quiet c)
      \<and> st' = st\<lparr>ms_clients := s, ms_g_id := ms_g_id st + 1, ms_curr := insert fd (ms_curr st), ms_msg := m\<rparr>
      \<and> t' = t @ [Sys_Accept (ms_sock st), Sys_Calloc] @ u) (mini_add_client st os t)" (is "goes_on ?P _")
proof -
  let ?t = "t @ [Sys_Accept (ms_sock st)]"
  let ?fd = "os_fd os ?t"
  let ?i = "ms_g_id st"
  show ?thesis
  proof (cases "?fd < 0 \<or> \<not> os_ok os (?t @ [Sys_Calloc]) \<or> \<not> int32 (?i + 1)")
    case True
    then consider "?fd < 0" | "0 \<le> ?fd" "\<not> os_ok os (?t @ [Sys_Calloc])"
      | "0 \<le> ?fd" "os_ok os (?t @ [Sys_Calloc])" "\<not> int32 (?i + 1)" by linarith
    then show ?thesis
      by cases (simp_all add: mini_add_client_def add_client_to_list_def io_bind_assoc io_bind_call fatal_bind
        goes_on_fatal throw_bind expected_end_def io_of_apply)
  next
    case False
    from link_client_holds [OF h, of ?fd ?i] obtain s where
      s: "link_client ?fd ?i (ms_clients st) = Ret s" "chained s (xs @ [(?fd, ?i)])" by blast
    let ?st = "st\<lparr>ms_clients := s, ms_g_id := ?i + 1\<rparr>"
    have i: "0 \<le> ?i" "int32 ?i" using n by (simp_all add: numbered_def)
    have "goes_on ?P (io_bind (announce ?fd (''server: client '' @ decimal ?i @ '' just arrived'' @ [LF]) ?st)
      (\<lambda>st. io_bind (io_of (fd_set_add ?fd (ms_curr st))) (\<lambda>curr. io_return (st\<lparr>ms_curr := curr\<rparr>))) os (?t @ [Sys_Calloc]))"
    proof (rule announce_goes_on [OF _ arrival_text(1,2) [OF i]])
      fix m u assume "\<forall>c\<in>set u. quiet c"
      with s(2) False show "goes_on ?P (io_bind (io_of (fd_set_add ?fd (ms_curr (?st\<lparr>ms_msg := m\<rparr>))))
          (\<lambda>curr. io_return (?st\<lparr>ms_msg := m, ms_curr := curr\<rparr>)) os ((?t @ [Sys_Calloc]) @ u))"
        by (auto simp: fd_set_add_def io_of_apply throw_bind expected_end_def intro!: exI [of _ m])
    qed (use s(2) in simp)
    then show ?thesis
      using False s(1) by (simp add: mini_add_client_def add_client_to_list_def io_simps)
  qed
qed

lemma goes_on_mono: "goes_on P r \<Longrightarrow> (\<And>x t. P x t \<Longrightarrow> Q x t) \<Longrightarrow> goes_on Q r"
  by (auto simp: goes_on_def split: sum.splits)

lemma numbered_next:
  "numbered n xs \<Longrightarrow> int32 (n + 1) \<Longrightarrow> numbered (n + 1) (xs @ [(fd, n)])"
  by (auto simp: numbered_def sorted_wrt_append)

lemma chat_inv_arrival:
  assumes "chat_inv os xs st t" "fd \<notin> ms_curr st" "chained s (xs @ [(fd, ms_g_id st)])" "int32 (ms_g_id st + 1)"
    "open_fds os t' = insert fd (ms_curr st)"
  shows "chat_inv os (xs @ [(fd, ms_g_id st)])
    (st\<lparr>ms_clients := s, ms_g_id := ms_g_id st + 1, ms_curr := insert fd (ms_curr st), ms_msg := m\<rparr>) t'"
  using assms by (auto simp: chat_inv_def clean_buffers_def numbered_next)

lemma add_client_goes_on:
  assumes "chat_inv os xs st t" "fresh_fds os"
  shows "goes_on (\<lambda>st' t'. \<exists>xs'. chat_inv os xs' st' t') (mini_add_client st os t)"
proof -
  from assms(1) have h: "chained (ms_clients st) xs" "numbered (ms_g_id st) xs"
    and c: "open_fds os t = ms_curr st" by (simp_all add: chat_inv_def)
  let ?t = "t @ [Sys_Accept (ms_sock st)]"
  let ?fd = "os_fd os ?t"
  have new: "?fd \<notin> ms_curr st" using assms(2) c by (auto simp: fresh_fds_def)
  have o: "open_fds os (t @ [Sys_Accept (ms_sock st), Sys_Calloc] @ u) = insert ?fd (ms_curr st)"
    if "\<forall>c\<in>set u. quiet c" "0 \<le> ?fd" for u
    using c that open_fds_quiet [of "Sys_Calloc # u" os ?t] by (simp add: open_fds_accept)
  show ?thesis
  proof (rule goes_on_mono [OF add_client_shape [OF h]], elim exE conjE)
    fix st' t' fd s m u
    assume "fd = ?fd" "0 \<le> fd" "chained s (xs @ [(fd, ms_g_id st)])" "int32 (ms_g_id st + 1)" "\<forall>c\<in>set u. quiet c"
      "st' = st\<lparr>ms_clients := s, ms_g_id := ms_g_id st + 1, ms_curr := insert fd (ms_curr st), ms_msg := m\<rparr>"
      "t' = t @ [Sys_Accept (ms_sock st), Sys_Calloc] @ u"
    with chat_inv_arrival [OF assms(1) new, of s t' m] o [of u] show "\<exists>xs'. chat_inv os xs' st' t'" by blast
  qed
qed

lemma client_left_goes_on:
  assumes "chat_inv os xs st t" "fd \<in> fst ` set xs"
  shows "goes_on (\<lambda>st' t'. chat_inv os (without fd xs) st' t') (client_left fd st os t)"
proof -
  from assms(1) have h: "chained (ms_clients st) xs" "distinct (map fst xs)" and n: "numbered (ms_g_id st) xs"
    and c: "ms_curr st = set (ms_sock st # map fst xs)" "open_fds os t = ms_curr st" "fd \<noteq> ms_sock st"
    using assms(2) by (auto simp: chat_inv_def intro: rev_image_eqI)
  from rm_client_holds [OF h assms(2)] obtain s where
    s: "rm_client fd (ms_clients st) = Ret (number_of xs fd, s)" "chained s (without fd xs)" by blast
  let ?st = "st\<lparr>ms_clients := s, ms_msg := no_bytes\<rparr>"
  from assms(2) h(2) obtain i where i: "(fd, i) \<in> set xs" "number_of xs fd = i" by force
  then have i': "0 \<le> i" "int32 i" using n by (auto simp: numbered_def int32_def)
  have inv: "chat_inv os (without fd xs) (?st\<lparr>ms_msg := m, ms_curr := ms_curr st - {fd}\<rparr>) (t @ u @ [Sys_Close fd])"
    if "\<forall>c\<in>set u. quiet c" for m u
    using assms(1) s(2) c n that open_fds_close [of os "t @ u" fd]
    by (auto simp: chat_inv_def clean_buffers_def without_def numbered_def open_fds_quiet sorted_wrt_map
        sorted_wrt_filter intro!: distinct_map_filter)
  have "goes_on (\<lambda>st' t'. chat_inv os (without fd xs) st' t')
    (io_bind (announce fd (''server: client '' @ decimal i @ '' just left'' @ [LF]) ?st) (\<lambda>st.
       io_bind (call os_ok (Sys_Close fd)) (\<lambda>_. io_return (st\<lparr>ms_curr := ms_curr st - {fd}\<rparr>))) os t)"
    by (rule announce_goes_on [OF _ arrival_text(3,4) [OF i']]) (use s(2) inv in \<open>simp_all add: io_simps\<close>)
  then show ?thesis using s(1) i(2) by (simp add: client_left_def)
qed

lemma receive_goes_on:
  assumes "chat_inv os xs st t" "text_data os" "fd \<in> fst ` set xs"
  shows "goes_on (\<lambda>(over, st') t'. (over \<longrightarrow> (\<exists>xs'. chat_inv os xs' st' t'))
    \<and> (\<not> over \<longrightarrow> chat_inv os xs st' t' \<and> ms_sock st' = ms_sock st \<and> ms_read st' = ms_read st)) (mini_receive fd st os t)"
    (is "goes_on ?P _")
proof -
  let ?t = "t @ [Sys_Recv fd]"
  have inv: "chat_inv os xs st ?t" using assms(1) by (subst chat_inv_quiet) simp_all
  show ?thesis
  proof (cases "os_data os ?t = None \<or> os_data os ?t = Some []")
    case True
    have "goes_on ?P (io_bind (client_left fd st) (\<lambda>st. io_return (True, st)) os ?t)"
      by (rule goes_on_bind, rule client_left_goes_on [OF inv assms(3)]) (auto simp: io_of_apply)
    with True show ?thesis by (auto simp: mini_receive_def io_bind_call)
  next
    case False
    then obtain d where d: "os_data os ?t = Some d" "d \<noteq> []" by auto
    with assms(2) have d': "NUL \<notin> set d" "length d < STR_SIZE" unfolding text_data_def by blast+
    from assms(1) obtain w where b: "ms_str st = no_bytes" "ms_tmp st = buf_of w" "NUL \<notin> set w" "length w < STR_SIZE"
      by (auto simp: chat_inv_def clean_buffers_def)
    obtain ls r where r: "relayed [] w d = (ls, r)" by force
    from relayed_rest [OF r] b d' have "NUL \<notin> set r" "length r < STR_SIZE" by auto
    then have "chat_inv os xs (st\<lparr>ms_tmp := buf_of r\<rparr>) (?t @ u)" if "\<forall>c\<in>set u. quiet c" for u
      using inv that unfolding chat_inv_quiet [OF that] by (auto simp: chat_inv_def clean_buffers_def)
    then have "?P (False, st\<lparr>ms_tmp := buf_of r\<rparr>) (?t @ concat (map (\<lambda>l. sends (receivers fd (ms_write st) xs)
        (from_client (number_of xs fd) l)) ls))" using quiet_sends by simp
    moreover have "outcome os (mini_receive fd st os t) (False, st\<lparr>ms_tmp := buf_of r\<rparr>)
      (?t @ concat (map (\<lambda>l. sends (receivers fd (ms_write st) xs) (from_client (number_of xs fd) l)) ls))"
      using receive_relays [OF chat_inv_ready [OF assms(1)] b d(1) d(2) d' r] by simp
    ultimately show ?thesis by (rule goes_on_outcome [rotated])
  qed
qed

section \<open>The loop over the descriptors\<close>

abbreviation some_chat :: "os \<Rightarrow> mini \<Rightarrow> history \<Rightarrow> bool" where
  "some_chat os st t \<equiv> \<exists>xs. chat_inv os xs st t"

lemma fd_loop_goes_on:
  assumes "chat_inv os xs st t" "fresh_fds os" "text_data os" "ms_read st \<subseteq> set (ms_sock st # map fst xs)"
    "fold (\<lambda>(fd, i). max fd) xs (ms_sock st) + 1 - fd \<le> int n"
  shows "\<exists>r. fd_loop fd st os t = Some r \<and> goes_on (some_chat os) r"
  using assms(1,4,5)
proof (induction n arbitrary: fd st t)
  case 0
  then have "chained (ms_clients st) xs" by (simp add: chat_inv_def)
  with 0 show ?case
    by (subst fd_loop.simps) (auto simp: get_max_fd_holds)
next
  case (Suc n)
  let ?m = "fold (\<lambda>(fd, i). max fd) xs (ms_sock st)"
  have g: "get_max_fd (ms_sock st) (ms_clients st) = Ret ?m"
    using Suc.prems(1) by (simp add: chat_inv_def get_max_fd_holds)
  consider "?m < fd" | "fd \<le> ?m" "fd \<notin> ms_read st" | "fd \<le> ?m" "fd \<in> ms_read st" "fd = ms_sock st"
    | "fd \<le> ?m" "fd \<in> ms_read st" "fd \<noteq> ms_sock st" by linarith
  then show ?case
  proof cases
    case 1
    with g Suc.prems(1) show ?thesis by (subst fd_loop.simps) auto
  next
    case 2
    with g Suc.IH [of st t "fd + 1"] Suc.prems show ?thesis by (subst fd_loop.simps) simp
  next
    case 3
    have "chat_inv os xs (st\<lparr>ms_msg := no_bytes\<rparr>) t" using Suc.prems(1) by simp
    from add_client_goes_on [OF this assms(2)] 3 g show ?thesis by (subst fd_loop.simps) simp
  next
    case 4
    then have "fd \<in> fst ` set xs" using Suc.prems(2) by auto
    from receive_goes_on [OF Suc.prems(1) assms(3) this] obtain r t1 where
      r: "mini_receive fd st os t = (r, t1)" and p: "goes_on (\<lambda>(over, st') t'. (over \<longrightarrow> some_chat os st' t')
        \<and> (\<not> over \<longrightarrow> chat_inv os xs st' t' \<and> ms_sock st' = ms_sock st \<and> ms_read st' = ms_read st)) (r, t1)"
      by (cases "mini_receive fd st os t") simp
    show ?thesis
    proof (cases r)
      case (Inl e)
      with r p g 4 show ?thesis by (subst fd_loop.simps) auto
    next
      case (Inr y)
      obtain over st1 where y: "y = (over, st1)" by (cases y)
      show ?thesis
      proof (cases over)
        case True
        with r p g 4 Inr y show ?thesis by (subst fd_loop.simps) auto
      next
        case False
        with p Inr y have "chat_inv os xs st1 t1" "ms_sock st1 = ms_sock st" "ms_read st1 = ms_read st" by auto
        with Suc.IH [of st1 t1 "fd + 1"] Suc.prems have "\<exists>r. fd_loop (fd + 1) st1 os t1 = Some r \<and> goes_on (some_chat os) r"
          by simp
        with r g 4 Inr y False show ?thesis by (subst fd_loop.simps) simp
      qed
    qed
  qed
qed

lemma round_goes_on:
  assumes "chat_inv os xs st t" "fresh_fds os" "text_data os"
  shows "goes_on (some_chat os) (mini_round st os t)"
proof -
  let ?st = "st\<lparr>ms_read := ms_curr st, ms_write := ms_curr st\<rparr>"
  let ?m = "fold (\<lambda>(fd, i). max fd) xs (ms_sock st)"
  let ?t = "t @ [Sys_Select (?m + 1) (ms_curr st) {}]"
  have g: "get_max_fd (ms_sock st) (ms_clients st) = Ret ?m" using assms(1) by (simp add: chat_inv_def get_max_fd_holds)
  have inv: "chat_inv os xs ?st ?t" using assms(1) by (subst chat_inv_quiet) simp_all
  show ?thesis
  proof (cases "os_ready os ?t")
    case None
    with g inv show ?thesis by (auto simp: mini_round_def io_bind_call io_of_apply)
  next
    case (Some rw)
    obtain r w where rw: "rw = (r, w)" by (cases rw)
    let ?st1 = "?st\<lparr>ms_read := ms_curr st \<inter> r\<rparr>"
    have "chat_inv os xs ?st1 ?t" using inv by simp
    moreover have "ms_read ?st1 \<subseteq> set (ms_sock ?st1 # map fst xs)" using assms(1) by (auto simp: chat_inv_def)
    ultimately have "\<exists>r. fd_loop 0 ?st1 os ?t = Some r \<and> goes_on (some_chat os) r"
      by (rule fd_loop_goes_on [OF _ assms(2,3), where n = "nat (?m + 1)"]) simp
    with g Some rw show ?thesis by (auto simp: mini_round_def io_bind_call ended_io_def)
  qed
qed

lemma clean_start: "ms_str st = no_bytes \<Longrightarrow> ms_buf st = no_bytes \<Longrightarrow> ms_tmp st = no_bytes \<Longrightarrow> clean_buffers st"
  unfolding clean_buffers_def by (auto intro: exI [of _ "[]"])

lemma start_inv:
  assumes "mini_start argv os [] = (Ret st, t)"
  shows "chat_inv os [] st t"
proof -
  have "open_fds os [Sys_Socket, Sys_Bind fd p, Sys_Listen fd 0] = {os_fd os [Sys_Socket]}"
    if "0 \<le> os_fd os [Sys_Socket]" for fd p
    using that by (simp add: open_fds_def)
  with assms show ?thesis
    by (auto simp: mini_start_def fatal_def io_simps fd_set_add_def chat_inv_def holds_empty numbered_def int32_def
        clean_start split: if_splits sum.splits)
qed

text \<open>The loop of the chat server, of a system that keeps its promises.\<close>

interpretation chat: server_loop "mini_start argv" mini_round os
  "\<lambda>st t. fresh_fds os \<and> text_data os \<longrightarrow> some_chat os st t" for argv os
proof unfold_locales
  show "mini_start argv os [] = (Ret st, t) \<Longrightarrow> fresh_fds os \<and> text_data os \<longrightarrow> some_chat os st t" for st t
    using start_inv by blast
next
  fix st t st' t'
  assume "fresh_fds os \<and> text_data os \<longrightarrow> some_chat os st t" "mini_round st os t = (Ret st', t')"
  then show "fresh_fds os \<and> text_data os \<longrightarrow> some_chat os st' t'"
    using round_goes_on by fastforce
qed

section \<open>The properties\<close>

text \<open>
  C23. In every state the loop reaches, when the system gives out no open descriptor and what arrives is
  text: the cells in use are those of one chain, its descriptors differ, their numbers rise and
  are below the next one; and the descriptors given to \<^verbatim>\<open>select\<close> are the listening one and those
  of the clients, which are also the ones that are open.  So neither cells nor descriptors leak.
\<close>

theorem chat_reachable:
  assumes "mini_reaches argv os st t" "fresh_fds os" "text_data os"
  shows "\<exists>xs. chained (ms_clients st) xs \<and> distinct (ms_sock st # map fst xs) \<and> sorted_wrt (<) (map snd xs)
    \<and> (\<forall>(fd, i)\<in>set xs. 0 \<le> i \<and> i < ms_g_id st)
    \<and> ms_curr st = insert (ms_sock st) (fst ` set xs) \<and> open_fds os t = ms_curr st"
  using chat.reached [OF assms(1)] assms(2,3) unfolding chat_inv_def numbered_def by auto

lemma chat_os_open: "\<forall>fd\<in>open_fds (chat_os d) t. fd < int (length t) + 3"
proof (induction t rule: rev_induct)
  case (snoc c t)
  have g: "os_fd (chat_os d) = (\<lambda>t. int (length t) + 2)" by (simp add: chat_os_def)
  show ?case
  proof (cases "quiet c")
    case True
    with snoc show ?thesis by (force simp: open_fds_quiet1)
  next
    case False
    then show ?thesis using snoc g by (cases c) (force simp: open_fds_def Let_def)+
  qed
qed simp

lemma chat_os_fresh: "fresh_fds (chat_os d)"
  unfolding fresh_fds_def
proof (intro allI notI)
  fix t s
  assume "os_fd (chat_os d) (t @ [Sys_Accept s]) \<in> open_fds (chat_os d) t"
  with chat_os_open [of d t] have "os_fd (chat_os d) (t @ [Sys_Accept s]) < int (length t) + 3" by blast
  then show False by (simp add: chat_os_def)
qed

definition started :: mini where
  "started = \<lparr>ms_clients = empty_store, ms_sock = 3, ms_g_id = 0, ms_curr = {3}, ms_read = {}, ms_write = {},
     ms_msg = no_bytes, ms_str = no_bytes, ms_tmp = no_bytes, ms_buf = no_bytes\<rparr>"

lemma chat_started:
  "mini_start [''serv'', ''80''] (chat_os d) [] = (Ret started, [Sys_Socket, Sys_Bind 3 80, Sys_Listen 3 0])"
  by (simp add: mini_start_def io_simps c_atoi_def c_str_def port_number_def int32_def isspace_def digit_value_def
      isdigit_def chat_os_def fd_set_add_def started_def)

lemma started_reached: "mini_reaches [''serv'', ''80''] (chat_os d) started [Sys_Socket, Sys_Bind 3 80, Sys_Listen 3 0]"
  using chat_started by (rule reaches_start)

lemma chat_os_text: "\<forall>t s. d t = Some s \<longrightarrow> NUL \<notin> set s \<and> length s < STR_SIZE \<Longrightarrow> text_data (chat_os d)"
  by (simp add: text_data_def chat_os_def)

theorem chat_reachable_witness:
  "open_fds (chat_os (\<lambda>_. Some ''hi'')) [Sys_Socket, Sys_Bind 3 80, Sys_Listen 3 0] = {3}"
proof -
  have "text_data (chat_os (\<lambda>_. Some ''hi''))" by (rule chat_os_text) simp
  from chat_reachable [OF started_reached chat_os_fresh this] show ?thesis by (auto simp: started_def)
qed

text \<open>
  C24. From such a state every round comes to an end: with a new state, or by the exit after a
  call failed; or after 2147483647 arrivals or with a descriptor above 1023.  It never uses \<^verbatim>\<open>NULL\<close> or a cell that was
  freed, reads or writes behind a buffer, or walks along the chain for ever.
\<close>

theorem chat_rounds_end:
  assumes "mini_reaches argv os st t" "fresh_fds os" "text_data os"
  shows "\<exists>r t'. mini_round st os t = (r, t')
    \<and> ((\<exists>st'. r = Ret st') \<or> r \<in> {Throw (Exit 1), Throw (Undef ''g_id''), Throw (Undef ''FD_SET'')})"
proof -
  from chat.reached [OF assms(1)] assms(2,3) obtain xs where "chat_inv os xs st t" by blast
  from round_goes_on [OF this assms(2,3)] show ?thesis
    by (cases "mini_round st os t"; cases "fst (mini_round st os t)") (auto simp: expected_end_def)
qed

theorem chat_rounds_end_witness:
  "\<exists>r t'. mini_round started (chat_os (\<lambda>_. Some ''hi'')) [Sys_Socket, Sys_Bind 3 80, Sys_Listen 3 0] = (r, t')
    \<and> r \<noteq> Throw Never_Returns"
proof -
  have "text_data (chat_os (\<lambda>_. Some ''hi''))" by (rule chat_os_text) simp
  from chat_rounds_end [OF started_reached chat_os_fresh this] show ?thesis by auto
qed

lemma add_client_runs:
  assumes "os_fd os (t @ [Sys_Accept (ms_sock st)]) = fd" "0 \<le> fd" "fd < 1024"
    "os_ok os (t @ [Sys_Accept (ms_sock st), Sys_Calloc])" "int32 (ms_g_id st + 1)"
    "link_client fd (ms_g_id st) (ms_clients st) = Ret s"
    "msg = ''server: client '' @ decimal (ms_g_id st) @ '' just arrived'' @ [LF]"
    "announce fd msg (st\<lparr>ms_clients := s, ms_g_id := ms_g_id st + 1\<rparr>) os (t @ [Sys_Accept (ms_sock st), Sys_Calloc])
      = (Ret st2, t2)"
  shows "mini_add_client st os t = (Ret (st2\<lparr>ms_curr := insert fd (ms_curr st2)\<rparr>), t2)"
  using assms(1-6) assms(8) [unfolded assms(7)]
  by (simp add: mini_add_client_def add_client_to_list_def io_simps fd_set_add_def)

text \<open>
  An arrival: the new client gets the next number and the place behind the others, and each of
  the others, no matter how many, is told this number, in one call of \<^verbatim>\<open>send\<close> each.
\<close>

theorem arrival_announced:
  assumes "chained (ms_clients st) xs" "ms_write st = insert (ms_sock st) (fst ` set xs)" "0 \<le> ms_g_id st" "int32 (ms_g_id st + 1)"
    "sends_ok os" "os_ok os (t @ [Sys_Accept (ms_sock st), Sys_Calloc])"
    "os_fd os (t @ [Sys_Accept (ms_sock st)]) = fd" "0 \<le> fd" "fd < 1024" "fd \<notin> fst ` set xs"
  shows "\<exists>st'. mini_add_client st os t = (Ret st', t @ [Sys_Accept (ms_sock st), Sys_Calloc]
      @ sends (map fst xs) (''server: client '' @ decimal (ms_g_id st) @ '' just arrived'' @ [LF]))
    \<and> chained (ms_clients st') (xs @ [(fd, ms_g_id st)]) \<and> ms_g_id st' = ms_g_id st + 1 \<and> ms_curr st' = insert fd (ms_curr st)"
proof -
  let ?i = "ms_g_id st"
  let ?u = "t @ [Sys_Accept (ms_sock st), Sys_Calloc]"
  let ?msg = "''server: client '' @ decimal ?i @ '' just arrived'' @ [LF]"
  from link_client_holds [OF assms(1), of fd ?i] obtain s where
    s: "link_client fd ?i (ms_clients st) = Ret s" "chained s (xs @ [(fd, ?i)])" by blast
  let ?st = "st\<lparr>ms_clients := s, ms_g_id := ?i + 1\<rparr>"
  have "int32 ?i" using assms(3,4) by (simp add: int32_def)
  from arrival_text(1,2) [OF assms(3) this] announce_outcome [of ?st "xs @ [(fd, ?i)]" ?msg os fd ?u] s(2) assms(5)
  have a: "announce fd ?msg ?st os ?u = (Ret (?st\<lparr>ms_msg := put_bytes (?msg @ [NUL]) (ms_msg st)\<rparr>),
      ?u @ sends (receivers fd (ms_write st) (xs @ [(fd, ?i)])) ?msg)"
    by (simp add: outcome_def)
  have "receivers fd (ms_write st) (xs @ [(fd, ?i)]) = map fst xs"
    using assms(2,10) by (auto simp: receivers_def filter_id_conv rev_image_eqI)
  with add_client_runs [OF assms(7-9,6,4) s(1) refl a] s(2) show ?thesis by simp
qed

theorem arrival_announced_witness:
  "\<exists>st'. mini_add_client chat_state (chat_os (\<lambda>_. None)) [Sys_Socket, Sys_Bind 3 80, Sys_Listen 3 0]
    = (Ret st', [Sys_Socket, Sys_Bind 3 80, Sys_Listen 3 0, Sys_Accept 3, Sys_Calloc,
        Sys_Send 4 (''server: client 2 just arrived'' @ [LF]), Sys_Send 5 (''server: client 2 just arrived'' @ [LF])])
    \<and> chained (ms_clients st') [(4, 0), (5, 1), (6, 2)]"
proof -
  have "ms_write chat_state = insert (ms_sock chat_state) (fst ` set [(4, 0), (5, 1 :: int)])" by (simp add: chat_state_def)
  from arrival_announced [OF _ this, of "chat_os (\<lambda>_. None)" "[Sys_Socket, Sys_Bind 3 80, Sys_Listen 3 0]" 6]
  have "\<exists>st'. mini_add_client chat_state (chat_os (\<lambda>_. None)) [Sys_Socket, Sys_Bind 3 80, Sys_Listen 3 0]
    = (Ret st', [Sys_Socket, Sys_Bind 3 80, Sys_Listen 3 0] @ [Sys_Accept (ms_sock chat_state), Sys_Calloc] @
        sends (map fst [(4, 0), (5, 1 :: int)]) (''server: client '' @ decimal (ms_g_id chat_state) @ '' just arrived'' @ [LF]))
    \<and> chained (ms_clients st') ([(4, 0), (5, 1)] @ [(6, ms_g_id chat_state)])"
    by (simp add: two_clients_hold chat_state_def chat_os_def int32_def sends_ok_def) blast
  then show ?thesis by (auto simp: chat_state_def decimal_def dec_digits.simps digit_char_lit)
qed

end
