(* ===== verification/EchoServ.thy ===== *)
theory EchoServ
  imports ChatRoom
begin

text \<open>
  The program in force of \<^verbatim>\<open>src/exam06/mini_serv.c\<close>.  Its list, its arrivals and its start are those of
  \<^verbatim>\<open>mini_serv_original.c\<close> with more output, but its loop sends what it receives back to the
  sender, does not take a client that left out of the list, and has no \<^verbatim>\<open>break\<close>.
\<close>

definition echo_start :: "string list \<Rightarrow> mini io" where
  "echo_start argv = mini_start argv"

definition echo_client :: "int \<Rightarrow> mini \<Rightarrow> mini io" where
  "echo_client fd st =
     io_bind (call os_data (Sys_Recv fd)) (\<lambda>answer.
     if answer \<in> {None, Some []}
     then io_bind (call os_ok (Sys_Close fd)) (\<lambda>_. io_return (st\<lparr>ms_curr := ms_curr st - {fd}\<rparr>))
     else let st = st\<lparr>ms_str := put_bytes (take STR_SIZE (the answer)) (ms_str st)\<rparr>
          in io_bind (io_of (string_at STR_SIZE (ms_str st) 0)) (\<lambda>s.
             io_bind (call os_count (Sys_Send fd s)) (\<lambda>n.
             if n < 0 then fatal (ms_sock st) else io_return st)))"

partial_function (option) echo_loop ::
  "int \<Rightarrow> mini \<Rightarrow> os \<Rightarrow> history \<Rightarrow> (mini res \<times> history) option" where
  "echo_loop fd st os t =
     (case get_max_fd (ms_sock st) (ms_clients st) of
        Inl e \<Rightarrow> Some (Inl e, t)
      | Inr m \<Rightarrow>
          if m < fd then Some (Ret st, t)
          else case (if fd \<notin> ms_read st then io_return st
                     else if ms_sock st = fd then mini_add_client st
                     else echo_client fd st) os t of
                 (Inl e, t1) \<Rightarrow> Some (Inl e, t1)
               | (Inr st1, t1) \<Rightarrow> echo_loop (fd + 1) st1 os t1)"

definition echo_round :: "mini \<Rightarrow> mini io" where
  "echo_round st =
     (let st = st\<lparr>ms_read := ms_curr st, ms_write := ms_curr st\<rparr>
      in io_bind (io_of (get_max_fd (ms_sock st) (ms_clients st))) (\<lambda>m.
         io_bind (call os_ready (Sys_Select (m + 1) (ms_read st) {})) (\<lambda>answer.
         case answer of
           None \<Rightarrow> io_return st
         | Some (r, w) \<Rightarrow> ended_io (echo_loop 0 (st\<lparr>ms_read := ms_curr st \<inter> r\<rparr>)))))"

abbreviation echo_reaches :: "string list \<Rightarrow> os \<Rightarrow> mini \<Rightarrow> history \<Rightarrow> bool" where
  "echo_reaches argv \<equiv> loop_reaches (echo_start argv) echo_round"

section \<open>What is echoed\<close>

text \<open>
  The buffer is never cleared: a message shorter than an earlier one, of any client, is sent back with the
  end of that one behind it.
\<close>

lemma echo_client_sends:
  assumes "ms_str st = buf_of w" "NUL \<notin> set w" "length w < STR_SIZE"
    "os_data os (t @ [Sys_Recv fd]) = Some d" "d \<noteq> []" "NUL \<notin> set d" "length d < STR_SIZE"
  shows "echo_client fd st os t =
    (let s = d @ drop (length d) w; t1 = t @ [Sys_Recv fd, Sys_Send fd s]
     in if os_count os t1 < 0 then fatal (ms_sock st) os t1 else (Ret (st\<lparr>ms_str := buf_of s\<rparr>), t1))"
proof -
  let ?s = "d @ drop (length d) w"
  have "put_bytes (take STR_SIZE d) (ms_str st) = buf_of ?s" using assms by (simp add: put_bytes_buf_of)
  moreover have "NUL \<notin> set ?s" "length ?s < STR_SIZE" using assms by (auto dest: in_set_dropD)
  then have "string_at STR_SIZE (buf_of ?s) 0 = Ret ?s" by (simp add: string_at_buf_of)
  ultimately show ?thesis
    using assms(4,5) by (simp add: echo_client_def io_bind_call io_of_apply Let_def)
qed

section \<open>Rounds end\<close>

definition echo_inv :: "(int \<times> int) list \<Rightarrow> mini \<Rightarrow> bool" where
  "echo_inv xs st \<longleftrightarrow> chained (ms_clients st) xs \<and> numbered (ms_g_id st) xs
     \<and> (\<forall>fd\<in>set (ms_sock st # map fst xs). fd < 1024)
     \<and> (\<exists>w. ms_str st = buf_of w \<and> NUL \<notin> set w \<and> length w < STR_SIZE)"

lemma echo_inv_setters [simp]:
  "echo_inv xs (st\<lparr>ms_read := r\<rparr>) \<longleftrightarrow> echo_inv xs st" "echo_inv xs (st\<lparr>ms_write := r\<rparr>) \<longleftrightarrow> echo_inv xs st"
  "echo_inv xs (st\<lparr>ms_curr := r\<rparr>) \<longleftrightarrow> echo_inv xs st"
  by (simp_all add: echo_inv_def)

lemma fold_max_less:
  "m < b \<Longrightarrow> \<forall>(fd, i)\<in>set xs. fd < b \<Longrightarrow> fold (\<lambda>(fd, i). max fd) xs m < (b :: int)"
  by (induction xs arbitrary: m) auto

lemma echo_client_goes_on:
  assumes "echo_inv xs st" "text_data os"
  shows "goes_on (\<lambda>st' t'. echo_inv xs st') (echo_client fd st os t)"
proof (cases "os_data os (t @ [Sys_Recv fd]) \<in> {None, Some []}")
  case True
  with assms(1) show ?thesis by (auto simp: echo_client_def io_bind_call io_of_apply)
next
  case False
  then obtain d where d: "os_data os (t @ [Sys_Recv fd]) = Some d" "d \<noteq> []" by auto
  with assms(2) have d': "NUL \<notin> set d" "length d < STR_SIZE" unfolding text_data_def by blast+
  from assms(1) obtain w where w: "ms_str st = buf_of w" "NUL \<notin> set w" "length w < STR_SIZE" by (auto simp: echo_inv_def)
  then have "NUL \<notin> set (d @ drop (length d) w)" "length (d @ drop (length d) w) < STR_SIZE"
    using d' by (auto dest: in_set_dropD)
  then have "echo_inv xs (st\<lparr>ms_str := buf_of (d @ drop (length d) w)\<rparr>)"
    using assms(1) unfolding echo_inv_def by (simp del: set_append length_append) blast
  then show ?thesis
    using echo_client_sends [OF w d d'] by (simp add: Let_def goes_on_fatal)
qed

lemma echo_arrival:
  assumes "echo_inv xs st"
  shows "goes_on (\<lambda>st' t'. \<exists>xs'. echo_inv xs' st') (mini_add_client st os t)"
proof (rule goes_on_mono, rule add_client_shape)
  show "chained (ms_clients st) xs" "numbered (ms_g_id st) xs" using assms by (simp_all add: echo_inv_def)
qed (use assms in \<open>auto simp: echo_inv_def intro!: numbered_next exI [of _ "xs @ [(_, _)]"]\<close>)

lemma echo_loop_goes_on:
  assumes "echo_inv xs st" "text_data os" "1024 - fd \<le> int n"
  shows "\<exists>r. echo_loop fd st os t = Some r \<and> goes_on (\<lambda>st' t'. \<exists>xs'. echo_inv xs' st') r"
  using assms(1,3)
proof (induction n arbitrary: fd st t xs)
  case 0
  have "fold (\<lambda>(fd, i). max fd) xs (ms_sock st) < 1024" using 0 by (intro fold_max_less) (auto simp: echo_inv_def)
  moreover have "get_max_fd (ms_sock st) (ms_clients st) = Ret (fold (\<lambda>(fd, i). max fd) xs (ms_sock st))"
    using 0 by (simp add: echo_inv_def get_max_fd_holds)
  ultimately show ?case using 0 by (subst echo_loop.simps) auto
next
  case (Suc n)
  let ?m = "fold (\<lambda>(fd, i). max fd) xs (ms_sock st)"
  have g: "get_max_fd (ms_sock st) (ms_clients st) = Ret ?m"
    using Suc.prems(1) by (simp add: echo_inv_def get_max_fd_holds)
  let ?step = "if fd \<notin> ms_read st then io_return st else if ms_sock st = fd then mini_add_client st else echo_client fd st"
  have "goes_on (\<lambda>st' t'. \<exists>xs'. echo_inv xs' st') (echo_client fd st os t)"
    by (rule goes_on_mono [OF echo_client_goes_on [OF Suc.prems(1) assms(2)]]) blast
  with echo_arrival [OF Suc.prems(1)] Suc.prems(1)
  have s: "goes_on (\<lambda>st' t'. \<exists>xs'. echo_inv xs' st') (?step os t)" by (auto simp: io_of_apply)
  show ?case
  proof (cases "?m < fd")
    case True
    with g Suc.prems(1) show ?thesis by (subst echo_loop.simps) auto
  next
    case False
    obtain r t1 where r: "?step os t = (r, t1)" by (cases "?step os t")
    show ?thesis
    proof (cases r)
      case (Inl e)
      with False g s r show ?thesis by (subst echo_loop.simps) (simp del: if_not_P)
    next
      case (Inr st1)
      with s r obtain xs1 where "echo_inv xs1 st1" by auto
      from Suc.IH [OF this, of "fd + 1" t1] Suc.prems(2)
      have "\<exists>r. echo_loop (fd + 1) st1 os t1 = Some r \<and> goes_on (\<lambda>st' t'. \<exists>xs'. echo_inv xs' st') r" by simp
      with False g r Inr show ?thesis by (subst echo_loop.simps) simp
    qed
  qed
qed


lemma echo_round_goes_on:
  assumes "echo_inv xs st" "text_data os"
  shows "goes_on (\<lambda>st' t'. \<exists>xs'. echo_inv xs' st') (echo_round st os t)"
proof -
  let ?st = "st\<lparr>ms_read := ms_curr st, ms_write := ms_curr st\<rparr>"
  let ?m = "fold (\<lambda>(fd, i). max fd) xs (ms_sock st)"
  let ?t = "t @ [Sys_Select (?m + 1) (ms_curr st) {}]"
  have g: "get_max_fd (ms_sock st) (ms_clients st) = Ret ?m" using assms(1) by (simp add: echo_inv_def get_max_fd_holds)
  show ?thesis
  proof (cases "os_ready os ?t")
    case None
    with g assms(1) show ?thesis by (auto simp: echo_round_def io_bind_call io_of_apply)
  next
    case (Some rw)
    obtain r w where rw: "rw = (r, w)" by (cases rw)
    have "echo_inv xs (?st\<lparr>ms_read := ms_curr st \<inter> r\<rparr>)" using assms(1) by simp
    from echo_loop_goes_on [OF this assms(2), of 0 1024 ?t] g Some rw show ?thesis
      by (auto simp: echo_round_def io_bind_call ended_io_def)
  qed
qed

lemma echo_start_inv:
  assumes "echo_start argv os [] = (Ret st, t)"
  shows "echo_inv [] st"
proof -
  have i: "chat_inv os [] st t" using assms by (auto simp: echo_start_def intro: start_inv)
  have "ms_sock st < 1024"
    using assms by (auto simp: echo_start_def mini_start_def fatal_def io_simps fd_set_add_def split: if_splits sum.splits)
  with i show ?thesis unfolding chat_inv_def echo_inv_def clean_buffers_def by (auto intro: exI [of _ "[]"])
qed

interpretation echo: server_loop "echo_start argv" echo_round os
  "\<lambda>st t. text_data os \<longrightarrow> (\<exists>xs. echo_inv xs st)" for argv os
proof unfold_locales
  show "echo_start argv os [] = (Ret st, t) \<Longrightarrow> text_data os \<longrightarrow> (\<exists>xs. echo_inv xs st)" for st t
    using echo_start_inv by blast
next
  fix st t st' t'
  assume "text_data os \<longrightarrow> (\<exists>xs. echo_inv xs st)" "echo_round st os t = (Ret st', t')"
  then show "text_data os \<longrightarrow> (\<exists>xs. echo_inv xs st')"
    by (auto dest!: echo_round_goes_on [where t = t])
qed

section \<open>The properties\<close>

text \<open>
  The echo of a message is the message followed by what the longest message before it has behind its length: the buffer
  is not cleared in between.
\<close>

theorem echo_repeats_old_bytes:
  assumes "ms_str st = buf_of w" "NUL \<notin> set w" "length w < STR_SIZE"
    "os_data os (t @ [Sys_Recv fd]) = Some d" "d \<noteq> []" "NUL \<notin> set d" "length d < STR_SIZE" "sends_ok os"
  shows "echo_client fd st os t = (Ret (st\<lparr>ms_str := buf_of (d @ drop (length d) w)\<rparr>),
    t @ [Sys_Recv fd, Sys_Send fd (d @ drop (length d) w)])"
proof -
  have "\<not> os_count os ((t @ [Sys_Recv fd]) @ [Sys_Send fd (d @ drop (length d) w)]) < 0"
    using assms(8) by (simp add: sends_ok_def not_less del: append_assoc)
  then show ?thesis using echo_client_sends [OF assms(1-7)] by (simp add: Let_def)
qed

theorem echo_repeats_old_bytes_witness:
  "echo_client 5 (chat_state\<lparr>ms_str := buf_of ''secret''\<rparr>) (chat_os (\<lambda>_. Some ''hi'')) []
     = (Ret (chat_state\<lparr>ms_str := buf_of ''hicret''\<rparr>), [Sys_Recv 5, Sys_Send 5 ''hicret''])"
  using echo_repeats_old_bytes [of "chat_state\<lparr>ms_str := buf_of ''secret''\<rparr>" "''secret''"
      "chat_os (\<lambda>_. Some ''hi'')" "[]" 5 "''hi''"]
  by (simp add: chat_os_def sends_ok_def)

text \<open>Every round of the echo server ends, as those of the chat server do.\<close>

theorem echo_rounds_end:
  assumes "echo_reaches argv os st t" "text_data os"
  shows "\<exists>r t'. echo_round st os t = (r, t')
    \<and> ((\<exists>st'. r = Ret st') \<or> r \<in> {Throw (Exit 1), Throw (Undef ''g_id''), Throw (Undef ''FD_SET'')})"
proof -
  from echo.reached [OF assms(1)] assms(2) obtain xs where "echo_inv xs st" by blast
  from echo_round_goes_on [OF this assms(2), of t] show ?thesis
    by (cases "echo_round st os t"; cases "fst (echo_round st os t)") (auto simp: expected_end_def)
qed

theorem echo_rounds_end_witness:
  "\<exists>r t'. echo_round started (chat_os (\<lambda>_. Some ''hi'')) [Sys_Socket, Sys_Bind 3 80, Sys_Listen 3 0] = (r, t')
    \<and> r \<noteq> Throw Never_Returns"
proof -
  have "echo_reaches [''serv'', ''80''] (chat_os (\<lambda>_. Some ''hi'')) started [Sys_Socket, Sys_Bind 3 80, Sys_Listen 3 0]"
    by (rule reaches_start) (simp add: echo_start_def chat_started)
  moreover have "text_data (chat_os (\<lambda>_. Some ''hi''))" by (rule chat_os_text) simp
  ultimately show ?thesis using echo_rounds_end by fastforce
qed

text \<open>
  A client that leaves stays in the list.  When its descriptor is given to the next client,
  the list has the descriptor twice, and the number found for the new client is that of the old one.
\<close>

theorem departed_client_keeps_number:
  assumes "chained (ms_clients st) xs" "map_of xs fd = Some i" "os_data os (t @ [Sys_Recv fd]) = None"
    "0 \<le> fd" "fd < 1024" "os_fd os (t @ [Sys_Recv fd, Sys_Close fd, Sys_Accept (ms_sock st)]) = fd"
    "numbered (ms_g_id st) xs" "io_bind (echo_client fd st) mini_add_client os t = (Ret st', t')"
  shows "chained (ms_clients st') (xs @ [(fd, ms_g_id st)]) \<and> get_id fd (ms_clients st') = Ret i"
proof -
  let ?st = "st\<lparr>ms_curr := ms_curr st - {fd}\<rparr>"
  let ?t = "t @ [Sys_Recv fd, Sys_Close fd]"
  have "echo_client fd st os t = (Ret ?st, ?t)"
    using assms(3) by (simp add: echo_client_def io_bind_call io_of_apply)
  then have "mini_add_client ?st os ?t = (Ret st', t')" using assms(8) by (simp add: io_bind_apply)
  moreover have "chained (ms_clients ?st) xs" "numbered (ms_g_id ?st) xs" using assms(1,7) by simp_all
  note add_client_shape [OF this, of os ?t]
  ultimately have h: "chained (ms_clients st') (xs @ [(fd, ms_g_id st)])" using assms(6) by auto
  from get_id_holds [OF h, of fd] assms(2) h show ?thesis by (simp add: map_add_def)
qed

end
