(* ===== verification/SelectServer.thy ===== *)
theory SelectServer
  imports ChatRoom
begin

text \<open>
  The echo server of \<^verbatim>\<open>src/POC/server_select.c\<close>: a table of 30 descriptors, 0 for a free place,
  the set built from it for \<^verbatim>\<open>select\<close>, arrivals, and the echo.  A system call that only feeds the
  output (\<^verbatim>\<open>getpeername\<close>) is left out.
\<close>

section \<open>The table\<close>

record select_server =
  ss_master :: int
  ss_clients :: "int list"

abbreviation MAX_CLIENTS :: nat where "MAX_CLIENTS \<equiv> 30"

text \<open>\<^verbatim>\<open>FD_ISSET\<close>, for the 1024 descriptors of a set.\<close>

definition fd_is_set :: "int \<Rightarrow> int set \<Rightarrow> bool res" where
  "fd_is_set fd s = (if 0 \<le> fd \<and> fd < 1024 then Ret (fd \<in> s) else Throw (Undef ''FD_ISSET''))"

text \<open>The set and the greatest descriptor, from the place \<open>i\<close> of the table on.\<close>

fun build_set :: "int list \<Rightarrow> int set \<Rightarrow> int \<Rightarrow> (int set \<times> int) res" where
  "build_set [] readfds max_sd = Ret (readfds, max_sd)"
| "build_set (sd # sds) readfds max_sd =
     rbind (if 0 < sd then fd_set_add sd readfds else Ret readfds) (\<lambda>readfds.
     build_set sds readfds (if max_sd < sd then sd else max_sd))"

definition readable_set :: "select_server \<Rightarrow> (int set \<times> int) res" where
  "readable_set st =
     rbind (fd_set_add (ss_master st) {}) (\<lambda>readfds. build_set (ss_clients st) readfds (ss_master st))"

text \<open>The first free place takes the descriptor; without one the table stays as it is.\<close>

fun take_place :: "int \<Rightarrow> int list \<Rightarrow> int list" where
  "take_place fd [] = []"
| "take_place fd (sd # sds) = (if sd = 0 then fd # sds else sd # take_place fd sds)"

definition greeting :: string where
  "greeting = ''ECHO Daemon v1.0 '' @ CRLF"

definition accept_new :: "select_server \<Rightarrow> select_server io" where
  "accept_new st =
     io_bind (call os_fd (Sys_Accept (ss_master st))) (\<lambda>new_socket.
     if new_socket < 0 then io_throw (Exit 1)
     else io_bind (call os_count (Sys_Send new_socket greeting)) (\<lambda>_.
          io_return (st\<lparr>ss_clients := take_place new_socket (ss_clients st)\<rparr>)))"

text \<open>One client; the result is what its place holds afterwards.  A failed \<^verbatim>\<open>read\<close> writes in front of the buffer.\<close>

definition select_serve :: "int \<Rightarrow> int io" where
  "select_serve sd =
     io_bind (call os_data (Sys_Read sd)) (\<lambda>answer.
     case answer of
       None \<Rightarrow> io_throw (Undef ''buffer[-1]'')
     | Some d \<Rightarrow>
         if d = [] then io_bind (call os_ok (Sys_Close sd)) (\<lambda>_. io_return 0)
         else io_bind (call os_count (Sys_Send sd (c_str (take 1024 d)))) (\<lambda>_. io_return sd))"

fun serve_all :: "int set \<Rightarrow> int list \<Rightarrow> int list io" where
  "serve_all readfds [] = io_return []"
| "serve_all readfds (sd # sds) =
     io_bind (io_of (fd_is_set sd readfds)) (\<lambda>ready.
     io_bind (if ready then select_serve sd else io_return sd) (\<lambda>sd.
     io_bind (serve_all readfds sds) (\<lambda>sds. io_return (sd # sds))))"

text \<open>When \<^verbatim>\<open>select\<close> fails, the set stays as it was built, and the round goes on.\<close>

definition select_round :: "select_server \<Rightarrow> select_server io" where
  "select_round st =
     io_bind (io_of (readable_set st)) (\<lambda>(readfds, max_sd).
     io_bind (call os_ready (Sys_Select (max_sd + 1) readfds {})) (\<lambda>answer.
     let readfds = (case answer of None \<Rightarrow> readfds | Some (r, w) \<Rightarrow> readfds \<inter> r)
     in io_bind (io_of (fd_is_set (ss_master st) readfds)) (\<lambda>ready.
        io_bind (if ready then accept_new st else io_return st) (\<lambda>st.
        io_bind (serve_all readfds (ss_clients st)) (\<lambda>sds. io_return (st\<lparr>ss_clients := sds\<rparr>))))))"

definition select_start :: "select_server io" where
  "select_start =
     io_bind (call os_fd Sys_Socket) (\<lambda>master.
     if master = 0 then io_throw (Exit 1)
     else io_bind (call os_ok (Sys_Setsockopt master)) (\<lambda>ok.
     if \<not> ok then io_throw (Exit 1)
     else io_bind (call os_ok (Sys_Bind master 8888)) (\<lambda>ok.
     if \<not> ok then io_throw (Exit 1)
     else io_bind (call os_ok (Sys_Listen master 3)) (\<lambda>ok.
     if \<not> ok then io_throw (Exit 1)
     else io_return \<lparr>ss_master = master, ss_clients = replicate MAX_CLIENTS 0\<rparr>))))"

abbreviation select_reaches :: "os \<Rightarrow> select_server \<Rightarrow> history \<Rightarrow> bool" where
  "select_reaches \<equiv> loop_reaches select_start select_round"

section \<open>Arrivals and places\<close>

definition placed :: "int list \<Rightarrow> int set" where
  "placed sds = set sds - {0}"

text \<open>A table: 30 places, no descriptor in two of them, none of them the listening one, and all of them open.\<close>

definition table_ok :: "os \<Rightarrow> select_server \<Rightarrow> history \<Rightarrow> bool" where
  "table_ok os st t \<longleftrightarrow> length (ss_clients st) = MAX_CLIENTS \<and> distinct (filter (\<lambda>sd. sd \<noteq> 0) (ss_clients st))
     \<and> ss_master st \<notin> set (ss_clients st) \<and> ss_master st \<noteq> 0 \<and> insert (ss_master st) (placed (ss_clients st)) \<subseteq> open_fds os t"

lemma length_take_place [simp]: "length (take_place fd sds) = length sds"
  by (induction sds) auto

lemma placed_simps [simp]: "placed [] = {}" "placed (sd # sds) = (if sd = 0 then placed sds else insert sd (placed sds))"
  by (auto simp: placed_def)

lemma take_place_set: "fd \<noteq> 0 \<Longrightarrow> placed (take_place fd sds) = (if 0 \<in> set sds then insert fd (placed sds) else placed sds)"
  by (induction sds) (simp_all add: insert_commute)

lemma take_place_full: "0 \<notin> set sds \<Longrightarrow> take_place fd sds = sds"
  by (induction sds) auto

lemma take_place_distinct:
  "distinct (filter (\<lambda>sd. sd \<noteq> 0) sds) \<Longrightarrow> fd \<notin> set sds \<Longrightarrow> distinct (filter (\<lambda>sd. sd \<noteq> 0) (take_place fd sds))"
proof (induction sds)
  case (Cons sd sds)
  have "set (take_place fd sds) \<subseteq> insert fd (set sds)" by (induction sds) auto
  with Cons show ?case by auto
qed simp

lemma take_place_subset: "set (take_place fd sds) \<subseteq> insert fd (set sds)"
  by (induction sds) auto


lemma take_place_table:
  assumes "table_ok os st t" "0 < fd" "fd \<notin> open_fds os t" "open_fds os t' = insert fd (open_fds os t)"
  shows "table_ok os (st\<lparr>ss_clients := take_place fd (ss_clients st)\<rparr>) t'"
proof -
  have "fd \<notin> set (ss_clients st)" "fd \<noteq> ss_master st" using assms(1-3) by (auto simp: table_ok_def placed_def)
  with assms take_place_subset [of fd "ss_clients st"] show ?thesis
    by (auto simp: table_ok_def take_place_set take_place_distinct)
qed

section \<open>Serving\<close>

text \<open>
  What is left in the places after serving: each is as before, or free and its descriptor closed.
\<close>

lemma serve_results:
  "select_serve sd os t = (Ret sd', t') \<Longrightarrow> sd' = sd \<and> open_fds os t' = open_fds os t
     \<or> sd' = 0 \<and> open_fds os t' = open_fds os t - {sd}"
  using open_fds_quiet [of "[Sys_Read sd, Sys_Send sd s]" os t for s] open_fds_quiet1 [of "Sys_Read sd" os t]
    open_fds_close [of os "t @ [Sys_Read sd]" sd]
  by (auto simp: select_serve_def io_bind_call io_of_apply split: option.splits if_splits)

lemma serve_all_places:
  assumes "serve_all readfds sds os t = (Ret sds', t')" "distinct (filter (\<lambda>sd. sd \<noteq> 0) sds)" "0 \<notin> readfds"
  shows "length sds' = length sds \<and> distinct (filter (\<lambda>sd. sd \<noteq> 0) sds') \<and> placed sds' \<subseteq> placed sds
    \<and> open_fds os t' = open_fds os t - (placed sds - placed sds')"
  using assms(1,2)
proof (induction sds arbitrary: sds' t)
  case Nil
  then show ?case by (auto simp: io_of_apply)
next
  case (Cons sd sds)
  then obtain sd1 t1 sds1 where s: "(if sd \<in> readfds then select_serve sd else io_return sd) os t = (Ret sd1, t1)"
      "serve_all readfds sds os t1 = (Ret sds1, t')" "sds' = sd1 # sds1"
    by (auto simp: io_bind_Ret io_base fd_is_set_def split: if_splits)
  have d: "distinct (filter (\<lambda>sd. sd \<noteq> 0) sds)" "sd \<noteq> 0 \<Longrightarrow> sd \<notin> placed sds"
    using Cons.prems(2) by (auto simp: placed_def split: if_splits)
  from Cons.IH [OF s(2) d(1)] have ih: "length sds1 = length sds" "distinct (filter (\<lambda>sd. sd \<noteq> 0) sds1)"
    "placed sds1 \<subseteq> placed sds" "open_fds os t' = open_fds os t1 - (placed sds - placed sds1)" by auto
  have z: "0 \<notin> placed xs" for xs by (simp add: placed_def)
  have n: "sd \<noteq> 0 \<Longrightarrow> sd \<notin> set sds1" using d(2) ih(3) by (auto simp: placed_def)
  from s(1) assms(3) have "sd = 0 \<Longrightarrow> open_fds os t1 = open_fds os t" by (auto simp: io_of_apply split: if_splits)
  moreover from s(1) have "sd1 = sd \<and> open_fds os t1 = open_fds os t \<or> sd1 = 0 \<and> open_fds os t1 = open_fds os t - {sd}"
    using serve_results by (auto simp: io_of_apply split: if_splits)
  ultimately show ?case using ih n d(2) s(3) z by auto
qed


section \<open>The invariant of the loop\<close>

definition keeps_stdin :: "os \<Rightarrow> bool" where
  "keeps_stdin os \<longleftrightarrow> (\<forall>t c. os_fd os (t @ [c]) \<noteq> 0)"

lemma build_set_members:
  "build_set sds s m = Ret (s', m') \<Longrightarrow> s' = s \<union> {sd \<in> set sds. 0 < sd}"
  by (induction sds arbitrary: s m) (auto simp: fd_set_add_def rbind_eq_Inr split: if_splits)

lemma readable_set_members:
  "readable_set st = Ret (s, m) \<Longrightarrow> s = insert (ss_master st) {sd \<in> set (ss_clients st). 0 < sd}"
  by (auto simp: readable_set_def rbind_eq_Inr fd_set_add_def dest: build_set_members split: if_splits)

lemma accept_new_table:
  assumes "accept_new st os t = (Ret st', t')" "table_ok os st t" "fresh_fds os" "keeps_stdin os"
  shows "table_ok os st' t' \<and> ss_master st' = ss_master st"
proof -
  let ?t = "t @ [Sys_Accept (ss_master st)]"
  let ?fd = "os_fd os ?t"
  from assms(1) have r: "0 \<le> ?fd" "t' = ?t @ [Sys_Send ?fd greeting]"
    "st' = st\<lparr>ss_clients := take_place ?fd (ss_clients st)\<rparr>"
    by (auto simp: accept_new_def io_bind_call io_of_apply split: if_splits)
  have "0 < ?fd" using r(1) assms(4) by (simp add: keeps_stdin_def order_less_le)
  moreover have "?fd \<notin> open_fds os t" using assms(3) by (simp add: fresh_fds_def)
  moreover have "open_fds os t' = insert ?fd (open_fds os t)"
    using r(1,2) open_fds_quiet1 [of "Sys_Send ?fd greeting" os ?t] by (simp add: open_fds_accept del: append_assoc)
  ultimately show ?thesis using take_place_table [OF assms(2)] r(3) by simp
qed

lemma round_table:
  assumes "select_round st os t = (Ret st', t')" "table_ok os st t" "fresh_fds os" "keeps_stdin os"
  shows "table_ok os st' t'"
proof -
  from assms(1) obtain s m rs where s: "readable_set st = Ret (s, m)"
    and rs: "rs = (case os_ready os (t @ [Sys_Select (m + 1) s {}]) of None \<Rightarrow> s | Some (r, w) \<Rightarrow> s \<inter> r)"
    and r: "io_bind (io_of (fd_is_set (ss_master st) rs)) (\<lambda>ready.
        io_bind (if ready then accept_new st else io_return st) (\<lambda>st.
        io_bind (serve_all rs (ss_clients st)) (\<lambda>sds. io_return (st\<lparr>ss_clients := sds\<rparr>))))
        os (t @ [Sys_Select (m + 1) s {}]) = (Ret st', t')"
    unfolding select_round_def by (auto simp: io_bind_Ret io_base Let_def)
  let ?t = "t @ [Sys_Select (m + 1) s {}]"
  have ok: "table_ok os st ?t" using assms(2) open_fds_quiet1 [of "Sys_Select (m + 1) s {}" os t] by (simp add: table_ok_def)
  have "0 \<notin> s" using readable_set_members [OF s] assms(2) by (simp add: table_ok_def)
  moreover have "rs \<subseteq> s" unfolding rs by (auto split: option.split)
  ultimately have z: "0 \<notin> rs" by blast
  from r obtain b st1 t1 sds where a: "(if b then accept_new st else io_return st) os ?t = (Ret st1, t1)"
    and v: "serve_all rs (ss_clients st1) os t1 = (Ret sds, t')" "st' = st1\<lparr>ss_clients := sds\<rparr>"
    by (auto simp: io_bind_Ret io_base)
  from a have ok1: "table_ok os st1 t1"
    using accept_new_table [OF _ ok assms(3,4)] ok by (auto simp: io_of_apply split: if_splits)
  then have "distinct (filter (\<lambda>sd. sd \<noteq> 0) (ss_clients st1))" by (simp add: table_ok_def)
  from serve_all_places [OF v(1) this z] ok1 v(2) show ?thesis by (auto simp: table_ok_def placed_def)
qed

lemma start_table:
  assumes "select_start os [] = (Ret st, t)" "fresh_fds os" "keeps_stdin os" "0 \<le> os_fd os [Sys_Socket]"
  shows "table_ok os st t"
proof -
  have "open_fds os [Sys_Socket, Sys_Setsockopt m, Sys_Bind m 8888, Sys_Listen m 3] = {os_fd os [Sys_Socket]}" for m
    using assms(4) by (simp add: open_fds_def)
  with assms(1) show ?thesis
    by (auto simp: select_start_def io_bind_call io_of_apply table_ok_def placed_def split: if_splits)
qed

interpretation table: server_loop select_start select_round os
  "\<lambda>st t. fresh_fds os \<and> keeps_stdin os \<and> 0 \<le> os_fd os [Sys_Socket] \<longrightarrow> table_ok os st t" for os
  by unfold_locales (blast intro: start_table round_table)+

text \<open>
  C39. Assume that the system gives out no descriptor that is open (\<open>fresh_fds\<close>) and never the descriptor 0, which
  standard input keeps (\<open>keeps_stdin\<close>), and that the socket to listen on could be opened.  Then every table the loop
  reaches has 30 places; no descriptor stands in two of them, the listening one in none; and every descriptor it
  has is open.
\<close>

theorem table_reachable:
  assumes "select_reaches os st t" "fresh_fds os" "keeps_stdin os" "0 \<le> os_fd os [Sys_Socket]"
  shows "length (ss_clients st) = MAX_CLIENTS \<and> distinct (filter (\<lambda>sd. sd \<noteq> 0) (ss_clients st))
    \<and> ss_master st \<notin> set (ss_clients st) \<and> set (ss_clients st) - {0} \<subseteq> open_fds os t"
proof -
  have "table_ok os st t" using table.reached [OF assms(1)] assms(2-4) by blast
  then show ?thesis by (simp add: table_ok_def placed_def)
qed

text \<open>
  A run of two rounds.  In each \<^verbatim>\<open>select\<close> fails, so that everything counts as ready: a client arrives, then
  another one, and the first gets its two bytes back.
\<close>

abbreviation two_arrivals :: history where
  "two_arrivals \<equiv> [Sys_Socket, Sys_Setsockopt 3, Sys_Bind 3 8888, Sys_Listen 3 3,
     Sys_Select 4 {3} {}, Sys_Accept 3, Sys_Send 8 greeting,
     Sys_Select 9 {3, 8} {}, Sys_Accept 3, Sys_Send 11 greeting, Sys_Read 8, Sys_Send 8 ''hi'']"

lemma two_arrivals_reached:
  "select_reaches (chat_os (\<lambda>_. Some ''hi'')) \<lparr>ss_master = 3, ss_clients = 8 # 11 # replicate 28 0\<rparr> two_arrivals"
proof -
  let ?os = "chat_os (\<lambda>_. Some ''hi'')"
  have "select_start ?os [] = (Ret \<lparr>ss_master = 3, ss_clients = replicate MAX_CLIENTS 0\<rparr>, take 4 two_arrivals)"
    by (simp add: select_start_def io_simps chat_os_def)
  then have "select_reaches ?os \<lparr>ss_master = 3, ss_clients = replicate MAX_CLIENTS 0\<rparr> (take 4 two_arrivals)"
    by (rule reaches_start)
  moreover have "select_round \<lparr>ss_master = 3, ss_clients = replicate MAX_CLIENTS 0\<rparr> ?os (take 4 two_arrivals)
    = (Ret \<lparr>ss_master = 3, ss_clients = 8 # replicate 29 0\<rparr>, take 7 two_arrivals)"
    by (simp add: select_round_def readable_set_def fd_set_add_def fd_is_set_def accept_new_def io_simps chat_os_def
       eval_nat_numeral)
  moreover have "select_round \<lparr>ss_master = 3, ss_clients = 8 # replicate 29 0\<rparr> ?os (take 7 two_arrivals)
    = (Ret \<lparr>ss_master = 3, ss_clients = 8 # 11 # replicate 28 0\<rparr>, two_arrivals)"
    by (simp add: select_round_def readable_set_def fd_set_add_def fd_is_set_def accept_new_def select_serve_def io_simps chat_os_def
       eval_nat_numeral insert_commute c_str_def)
  ultimately show ?thesis by (blast intro: reaches_turn)
qed

theorem table_reachable_witness:
  "\<exists>st. select_reaches (chat_os (\<lambda>_. Some ''hi'')) st two_arrivals \<and> ss_clients st = 8 # 11 # replicate 28 0
    \<and> ss_master st \<notin> set (ss_clients st) \<and> {8, 11} \<subseteq> open_fds (chat_os (\<lambda>_. Some ''hi'')) two_arrivals"
proof -
  have "keeps_stdin (chat_os (\<lambda>_. Some ''hi''))" "0 \<le> os_fd (chat_os (\<lambda>_. Some ''hi'')) [Sys_Socket]"
    by (simp_all add: keeps_stdin_def chat_os_def)
  note t = table_reachable [OF two_arrivals_reached chat_os_fresh this]
  let ?st = "\<lparr>ss_master = 3, ss_clients = 8 # 11 # replicate 28 0\<rparr>"
  have "{8, 11} \<subseteq> set (ss_clients ?st) - {0}" by simp
  with t have "{8, 11} \<subseteq> open_fds (chat_os (\<lambda>_. Some ''hi'')) two_arrivals" by blast
  with t two_arrivals_reached show ?thesis by (intro exI [of _ ?st]) simp
qed

text \<open>The thirty-first client is accepted, greeted and forgotten: its descriptor is open and in no place.\<close>

lemma full_table_loses_client:
  assumes "0 \<notin> set (ss_clients st)" "fd = os_fd os (t @ [Sys_Accept (ss_master st)])" "0 \<le> fd"
  shows "accept_new st os t = (Ret st, t @ [Sys_Accept (ss_master st), Sys_Send fd greeting])"
  using assms by (simp add: accept_new_def io_bind_call io_of_apply take_place_full)

end
