(* ===== verification/ExamMain.thy ===== *)
theory ExamMain
  imports System
begin

text \<open>
  \<^verbatim>\<open>src/exam06/main.c\<close>: cutting a buffer into lines, joining what was received to it, and a \<^verbatim>\<open>main\<close>
  that accepts one connection.  A \<^verbatim>\<open>char *\<close> is a string or, for \<^verbatim>\<open>NULL\<close>, \<open>None\<close>; the parameter \<open>room\<close> says whether the
  allocation succeeds.
\<close>

section \<open>Lines\<close>

text \<open>The results are the return value, \<^verbatim>\<open>*buf\<close> and \<^verbatim>\<open>*msg\<close>.\<close>

function extract_loop :: "bool \<Rightarrow> string \<Rightarrow> nat \<Rightarrow> int \<times> string option \<times> string option" where
  "extract_loop room b i =
     (if length b \<le> i then (0, Some b, None)
      else if b ! i = LF
      then if \<not> room then (-1, Some b, None) else (1, Some (drop (i + 1) b), Some (take (i + 1) b))
      else extract_loop room b (i + 1))"
  by pat_completeness auto
termination by (relation "measure (\<lambda>(room, b, i). length b - i)") auto

declare extract_loop.simps [simp del]

definition extract_message :: "bool \<Rightarrow> string option \<Rightarrow> int \<times> string option \<times> string option" where
  "extract_message room buf = (case buf of None \<Rightarrow> (0, None, None) | Some b \<Rightarrow> extract_loop room b 0)"

definition str_join :: "bool \<Rightarrow> string option \<Rightarrow> string \<Rightarrow> string option" where
  "str_join room buf add =
     (if \<not> room then None else Some ((case buf of None \<Rightarrow> [] | Some b \<Rightarrow> b) @ add))"

section \<open>The program\<close>

text \<open>Every failure ends with \<^verbatim>\<open>exit (0)\<close>.\<close>

definition exam_main :: "int io" where
  "exam_main =
     io_bind (call os_fd Sys_Socket) (\<lambda>sockfd.
     if sockfd = -1 then io_throw (Exit 0)
     else io_bind (call os_ok (Sys_Bind sockfd 8081)) (\<lambda>ok.
     if \<not> ok then io_throw (Exit 0)
     else io_bind (call os_ok (Sys_Listen sockfd 10)) (\<lambda>ok.
     if \<not> ok then io_throw (Exit 0)
     else io_bind (call os_fd (Sys_Accept sockfd)) (\<lambda>connfd.
     if connfd < 0 then io_throw (Exit 0) else io_return 0))))"

section \<open>Lines do not depend on fragments\<close>

lemma extract_loop_line:
  assumes "LF \<notin> set l" "i \<le> length l"
  shows "extract_loop True (l @ LF # b) i = (1, Some b, Some (l @ [LF]))"
  using assms
proof (induction "length l - i" arbitrary: i)
  case 0
  then show ?case by (subst extract_loop.simps) (simp add: nth_append)
next
  case (Suc k)
  then have "i < length l" by simp
  with Suc.prems have "l ! i \<noteq> LF" by (metis nth_mem)
  with Suc \<open>i < length l\<close> show ?case by (subst extract_loop.simps) (simp add: nth_append)
qed

lemma extract_loop_rest: "LF \<notin> set b \<Longrightarrow> i \<le> length b \<Longrightarrow> extract_loop room b i = (0, Some b, None)"
proof (induction "length b - i" arbitrary: i)
  case 0
  then show ?case by (subst extract_loop.simps) simp
next
  case (Suc k)
  then have "i < length b" by simp
  with Suc.prems have "b ! i \<noteq> LF" by (metis nth_mem)
  with Suc \<open>i < length b\<close> show ?case by (subst extract_loop.simps) simp
qed

lemma extract_cases:
  obtains (rest) "LF \<notin> set b" "extract_message True (Some b) = (0, Some b, None)"
    | (line) l b' where "b = l @ LF # b'" "LF \<notin> set l" "extract_message True (Some b) = (1, Some b', Some (l @ [LF]))"
proof (cases "LF \<in> set b")
  case True
  then obtain l b' where "b = l @ LF # b'" "LF \<notin> set l" by (meson split_list_first)
  with line extract_loop_line [of l 0 b'] show ?thesis by (simp add: extract_message_def)
next
  case False
  with rest extract_loop_rest [of b 0 True] show ?thesis by (simp add: extract_message_def)
qed

text \<open>All complete lines of a buffer, taken out one by one, and what is left.\<close>

function drain :: "string \<Rightarrow> string list \<times> string" where
  "drain b = (case extract_message True (Some b) of
     (ret, Some b', Some m) \<Rightarrow> if length b' < length b then (case drain b' of (ms, r) \<Rightarrow> (m # ms, r)) else ([], b)
   | _ \<Rightarrow> ([], b))"
  by pat_completeness auto
termination by (relation "measure length") auto

declare drain.simps [simp del]

lemma drain_rest: "LF \<notin> set b \<Longrightarrow> drain b = ([], b)"
  by (cases b rule: extract_cases) (simp_all add: drain.simps)

lemma drain_line: "LF \<notin> set l \<Longrightarrow> drain (l @ LF # b) = (case drain b of (ms, r) \<Rightarrow> ((l @ [LF]) # ms, r))"
  using extract_loop_line [of l 0 b] by (subst drain.simps) (simp add: extract_message_def)

text \<open>
  C27. Reading on and taking the lines out again gives the lines, and the rest, of the whole: what the pieces
  are in which a text arrives does not matter.
\<close>

theorem drain_fragments:
  "drain (the (str_join True (Some b) c)) =
     (case drain b of (ms, r) \<Rightarrow> case drain (the (str_join True (Some r) c)) of (ms', r') \<Rightarrow> (ms @ ms', r'))"
proof (induction "length b" arbitrary: b rule: less_induct)
  case less
  show ?case
  proof (cases b rule: extract_cases)
    case rest
    then show ?thesis by (simp add: drain_rest str_join_def split: prod.split)
  next
    case (line l b')
    then have "length b' < length b" by simp
    from less [OF this] line(1,2) show ?thesis by (simp add: drain_line str_join_def split: prod.splits)
  qed
qed

lemma drain_concat: "drain b = (ms, r) \<Longrightarrow> b = concat ms @ r \<and> LF \<notin> set r"
proof (induction "length b" arbitrary: b ms r rule: less_induct)
  case less
  show ?case
  proof (cases b rule: extract_cases)
    case rest
    with less.prems show ?thesis by (simp add: drain_rest)
  next
    case (line l b')
    with less.prems obtain ms' where "drain b' = (ms', r)" "ms = (l @ [LF]) # ms'" by (auto simp: drain_line split: prod.splits)
    with less.hyps [of b' ms' r] line(1) show ?thesis by simp
  qed
qed

end
