(* ===== verification/FileServer.thy ===== *)
theory FileServer
  imports MiniServ
begin

text \<open>
  \<^verbatim>\<open>src/POC/server.cpp\<close>: a server over \<^verbatim>\<open>select\<close> that reads the name of a file from each client and sends
  the file.  The loop that reads the name is \<open>None\<close> when it does not end.
\<close>

section \<open>The name\<close>

abbreviation BUFSIZE :: nat where "BUFSIZE \<equiv> 4096"

text \<open>
  \<open>b\<close> is what the buffer holds, \<^verbatim>\<open>msgsize\<close> its length.  A failed \<^verbatim>\<open>read\<close> counts as -1 bytes: one byte
  is given up, and only when a line feed stands in front of it the error is looked at.
\<close>

partial_function (option) read_name :: "int \<Rightarrow> string \<Rightarrow> os \<Rightarrow> history \<Rightarrow> (string res \<times> history) option" where
  "read_name fd b os t =
     (let t = t @ [Sys_Read fd]
      in case os_data os t of
           None \<Rightarrow>
             if length b < 2 then Some (Throw (Undef ''buffer[-1]''), t)
             else if b ! (length b - 2) = LF then Some (Throw (Exit 1), t)
             else read_name fd (take (length b - 1) b) os t
         | Some d \<Rightarrow>
             (let d = take (BUFSIZE - 1 - length b) d
              in if d = [] then Some (Ret b, t)
                 else if last d = LF then Some (Ret (b @ d), t)
                 else read_name fd (b @ d) os t))"

section \<open>A connection\<close>

text \<open>The content goes out in blocks of at most 4096 bytes; what \<^verbatim>\<open>write\<close> returns is not looked at.\<close>

function write_blocks :: "int \<Rightarrow> string \<Rightarrow> unit io" where
  "write_blocks fd s =
     (if s = [] then io_return ()
      else io_bind (call os_count (Sys_Write fd (take BUFSIZE s))) (\<lambda>_. write_blocks fd (drop BUFSIZE s)))"
  by pat_completeness auto
termination by (relation "measure (\<lambda>(fd, s). length s)") auto

declare write_blocks.simps [simp del]

definition close_client :: "int \<Rightarrow> unit io" where
  "close_client fd = io_bind (call os_ok (Sys_Close fd)) (\<lambda>_. io_return ())"

definition handle_connection :: "int \<Rightarrow> unit io" where
  "handle_connection fd =
     io_bind (ended_io (read_name fd [])) (\<lambda>b.
     if b = [] then io_throw (Undef ''buffer[-1]'')
     else io_bind (call os_data (Sys_Realpath (c_str (butlast b)))) (\<lambda>answer.
     case answer of
       None \<Rightarrow> close_client fd
     | Some actual \<Rightarrow>
         io_bind (call os_fd (Sys_Open actual O_RDONLY)) (\<lambda>fp.
         if fp < 0 then close_client fd
         else io_bind (call os_data (Sys_Read_File actual)) (\<lambda>content.
              io_bind (write_blocks fd (case content of None \<Rightarrow> [] | Some s \<Rightarrow> s)) (\<lambda>_.
              io_bind (close_client fd) (\<lambda>_. close_client fp))))))"

section \<open>The server\<close>

text \<open>\<^verbatim>\<open>check\<close>: -1 ends the program.\<close>

definition check_call :: "int \<Rightarrow> int io" where
  "check_call n = (if n = -1 then io_throw (Exit 1) else io_return n)"

definition setup_server :: "int \<Rightarrow> int \<Rightarrow> int io" where
  "setup_server port backlog =
     io_bind (io_bind (call os_fd Sys_Socket) check_call) (\<lambda>server_socket.
     io_bind (call os_ok (Sys_Bind server_socket (word_of_int port))) (\<lambda>ok.
     if \<not> ok then io_throw (Exit 1)
     else io_bind (call os_ok (Sys_Listen server_socket backlog)) (\<lambda>ok.
     if \<not> ok then io_throw (Exit 1) else io_return server_socket)))"

definition accept_new_connection :: "int \<Rightarrow> int io" where
  "accept_new_connection server_socket = io_bind (call os_fd (Sys_Accept server_socket)) check_call"

text \<open>From one descriptor to the last of the 1024, on the descriptors that stay in the set.\<close>

fun visit :: "int \<Rightarrow> int set \<Rightarrow> int list \<Rightarrow> int set \<Rightarrow> int set io" where
  "visit server ready [] current = io_return current"
| "visit server ready (i # is) current =
     io_bind (if i \<notin> ready then io_return current
              else if i = server
              then io_bind (accept_new_connection server) (\<lambda>client. io_of (fd_set_add client current))
              else io_bind (handle_connection i) (\<lambda>_. io_return (current - {i})))
       (visit server ready is)"

definition file_round :: "int \<Rightarrow> int set \<Rightarrow> int set io" where
  "file_round server current =
     io_bind (call os_ready (Sys_Select 1024 current {})) (\<lambda>answer.
     case answer of
       None \<Rightarrow> io_throw (Exit 1)
     | Some (r, w) \<Rightarrow> visit server (current \<inter> r) (map int [0..<1024]) current)"

definition file_start :: "(int \<times> int set) io" where
  "file_start =
     io_bind (setup_server 8080 100) (\<lambda>server.
     io_bind (io_of (fd_set_add server {})) (\<lambda>current. io_return (server, current)))"

section \<open>What is sent\<close>

definition blocks_written :: "int \<Rightarrow> string list \<Rightarrow> history" where
  "blocks_written fd bs = map (Sys_Write fd) bs"

lemma write_blocks_sends:
  "\<exists>bs. write_blocks fd s os t = (Ret (), t @ blocks_written fd bs) \<and> concat bs = s \<and> (\<forall>b\<in>set bs. b \<noteq> [] \<and> length b \<le> BUFSIZE)"
proof (induction "length s" arbitrary: s t rule: less_induct)
  case less
  show ?case
  proof (cases "s = []")
    case True
    then show ?thesis by (intro exI [of _ "[]"]) (simp add: write_blocks.simps io_of_apply blocks_written_def)
  next
    case False
    then have "length (drop BUFSIZE s) < length s" by simp
    from less [OF this, of "t @ [Sys_Write fd (take BUFSIZE s)]"] obtain bs where
      "write_blocks fd (drop BUFSIZE s) os (t @ [Sys_Write fd (take BUFSIZE s)])
        = (Ret (), (t @ [Sys_Write fd (take BUFSIZE s)]) @ blocks_written fd bs)"
      "concat bs = drop BUFSIZE s" "\<forall>b\<in>set bs. b \<noteq> [] \<and> length b \<le> BUFSIZE" by blast
    with False show ?thesis
      by (subst write_blocks.simps) (auto simp: io_simps blocks_written_def intro!: exI [of _ "take BUFSIZE s # bs"])
  qed
qed

text \<open>
  A name that arrives with its line feed in one piece and leads to a file that can be opened: exactly the bytes
  of the file are written, in order and in blocks, and the connection and the file are closed.  Whatever
  \<^verbatim>\<open>realpath\<close> finds is sent; no directory limits it.
\<close>

theorem file_delivered:
  assumes "os_data os (t @ [Sys_Read fd]) = Some (name @ [LF])" "NUL \<notin> set name" "length name < BUFSIZE - 1"
    "os_data os (t @ [Sys_Read fd, Sys_Realpath name]) = Some actual"
    "0 \<le> os_fd os (t @ [Sys_Read fd, Sys_Realpath name, Sys_Open actual O_RDONLY])"
    "os_data os (t @ [Sys_Read fd, Sys_Realpath name, Sys_Open actual O_RDONLY, Sys_Read_File actual]) = Some content"
  shows "\<exists>bs. handle_connection fd os t = (Ret (), t @ [Sys_Read fd, Sys_Realpath name, Sys_Open actual O_RDONLY, Sys_Read_File actual]
      @ blocks_written fd bs @ [Sys_Close fd, Sys_Close (os_fd os (t @ [Sys_Read fd, Sys_Realpath name, Sys_Open actual O_RDONLY]))])
    \<and> concat bs = content \<and> (\<forall>b\<in>set bs. length b \<le> BUFSIZE)"
proof -
  have r: "ended_io (read_name fd []) os t = (Ret (name @ [LF]), t @ [Sys_Read fd])"
    using assms(1,3) by (simp add: ended_io_def read_name.simps)
  let ?t = "t @ [Sys_Read fd, Sys_Realpath name, Sys_Open actual O_RDONLY, Sys_Read_File actual]"
  from write_blocks_sends [of fd content os ?t] obtain bs where
    w: "write_blocks fd content os ?t = (Ret (), ?t @ blocks_written fd bs)" "concat bs = content" "\<forall>b\<in>set bs. length b \<le> BUFSIZE"
    by blast
  have "\<not> os_fd os (t @ [Sys_Read fd, Sys_Realpath name, Sys_Open actual O_RDONLY]) < 0" using assms(5) by simp
  with r w(1) assms(2,4,6) have "handle_connection fd os t = (Ret (), ?t @ blocks_written fd bs
      @ [Sys_Close fd, Sys_Close (os_fd os (t @ [Sys_Read fd, Sys_Realpath name, Sys_Open actual O_RDONLY]))])"
    by (simp add: handle_connection_def io_simps c_str_id close_client_def)
  with w(2,3) show ?thesis by auto
qed

text \<open>A client that closes at once makes the server write in front of its buffer.\<close>

lemma empty_request_undefined:
  "os_data os (t @ [Sys_Read fd]) = Some [] \<Longrightarrow> handle_connection fd os t = (Throw (Undef ''buffer[-1]''), t @ [Sys_Read fd])"
  by (simp add: handle_connection_def io_simps ended_io_def read_name.simps)

end
