(* ===== verification/PocClients.thy ===== *)
theory PocClients
  imports MiniServ
begin

text \<open>
  The single-use programs of \<^verbatim>\<open>src/POC\<close>: \<^verbatim>\<open>client.c\<close>, \<^verbatim>\<open>jc_client.c\<close> and \<^verbatim>\<open>jc_server.c\<close>.  A loop that
  reads until the other side ends is \<open>None\<close> when it does not end.
\<close>

section \<open>client.c\<close>

text \<open>The address is a constant, so \<^verbatim>\<open>inet_pton\<close> accepts it.\<close>

definition poc_client :: "int io" where
  "poc_client =
     io_bind (call os_fd Sys_Socket) (\<lambda>sock.
     if sock < 0 then io_return (-1)
     else io_bind (call os_ok (Sys_Connect sock)) (\<lambda>ok.
     if \<not> ok then io_return (-1)
     else io_bind (call os_count (Sys_Send sock ''Hello from client'')) (\<lambda>_.
          io_bind (call os_data (Sys_Read sock)) (\<lambda>_. io_return 0))))"

section \<open>jc\_client.c\<close>

abbreviation MAX_LINE :: nat where "MAX_LINE \<equiv> 4096"

definition jc_request :: string where
  "jc_request = ''GET / HTTP/1.1'' @ CRLF2"

text \<open>
  The whole array is written, whatever stood in it before: the first bytes are the request, a NUL, and
  what \<open>stack\<close> has behind them.
\<close>

definition sendline :: "string \<Rightarrow> string" where
  "sendline stack = jc_request @ NUL # drop (length jc_request + 1) stack"

text \<open>Reading until the end (\<open>True\<close>) or an error.\<close>

partial_function (option) read_all :: "int \<Rightarrow> os \<Rightarrow> history \<Rightarrow> (bool res \<times> history) option" where
  "read_all fd os t =
     (let t = t @ [Sys_Read fd]
      in case os_data os t of
           None \<Rightarrow> Some (Ret False, t)
         | Some d \<Rightarrow> if d = [] then Some (Ret True, t) else read_all fd os t)"

definition jc_client :: "string \<Rightarrow> string list \<Rightarrow> int io" where
  "jc_client stack argv =
     (if length argv \<noteq> 2 then io_throw (Exit 1)
      else io_bind (call os_fd Sys_Socket) (\<lambda>sockfd.
      if sockfd < 0 then io_throw (Exit 1)
      else io_bind (call os_ok (Sys_Inet_Pton (argv ! 1))) (\<lambda>ok.
      if \<not> ok then io_throw (Exit 1)
      else io_bind (call os_ok (Sys_Connect sockfd)) (\<lambda>ok.
      if \<not> ok then io_throw (Exit 1)
      else io_bind (call os_count (Sys_Write sockfd (sendline stack))) (\<lambda>n.
      if n \<noteq> int MAX_LINE then io_throw (Exit 1)
      else io_bind (ended_io (read_all sockfd)) (\<lambda>ended.
           if ended then io_throw (Exit 0) else io_throw (Exit 1)))))))"

section \<open>jc\_server.c\<close>

text \<open>Reading until a line feed, the end (\<open>True\<close> for both) or an error.\<close>

partial_function (option) read_request :: "int \<Rightarrow> os \<Rightarrow> history \<Rightarrow> (bool res \<times> history) option" where
  "read_request fd os t =
     (let t = t @ [Sys_Read fd]
      in case os_data os t of
           None \<Rightarrow> Some (Ret False, t)
         | Some d \<Rightarrow>
             (let d = take (MAX_LINE - 1) d
              in if d = [] \<or> last d = LF then Some (Ret True, t) else read_request fd os t))"

definition jc_answer :: string where
  "jc_answer = ''HTTP/1.0 200 OK'' @ CRLF2 @ ''Hello''"

text \<open>After the first client the loop has \<^verbatim>\<open>while (1);\<close>.\<close>

definition jc_serve :: "int \<Rightarrow> unit io" where
  "jc_serve listenfd =
     io_bind (call os_fd (Sys_Accept listenfd)) (\<lambda>connfd.
     io_bind (ended_io (read_request connfd)) (\<lambda>ok.
     if \<not> ok then io_throw (Exit 1)
     else io_bind (call os_count (Sys_Write connfd jc_answer)) (\<lambda>_.
          io_bind (call os_ok (Sys_Close connfd)) (\<lambda>_. io_throw Never_Returns))))"

definition jc_server :: "unit io" where
  "jc_server =
     io_bind (call os_fd Sys_Socket) (\<lambda>listenfd.
     if listenfd < 0 then io_throw (Exit 1)
     else io_bind (call os_ok (Sys_Bind listenfd 18000)) (\<lambda>ok.
     if \<not> ok then io_throw (Exit 1)
     else io_bind (call os_ok (Sys_Listen listenfd 10)) (\<lambda>ok.
     if \<not> ok then io_throw (Exit 1) else jc_serve listenfd)))"

section \<open>What they do\<close>

text \<open>A request in one piece is answered and its connection closed, and no other client is ever served.\<close>

lemma jc_serve_first_only:
  assumes "os_fd os (t @ [Sys_Accept s]) = fd" "os_data os (t @ [Sys_Accept s, Sys_Read fd]) = Some (d @ [LF])"
    "length d < MAX_LINE - 1"
  shows "jc_serve s os t = (Throw Never_Returns,
    t @ [Sys_Accept s, Sys_Read fd, Sys_Write fd jc_answer, Sys_Close fd])"
  using assms by (simp add: jc_serve_def io_simps ended_io_def read_request.simps)

lemma read_request_value: "read_request fd os t = Some r \<Longrightarrow> \<exists>b t'. r = (Ret b, t')"
  by (rule read_request.raw_induct [of "\<lambda>fd os t r. \<exists>b t'. r = (Ret b, t')" fd os t r])
    (auto simp: Let_def split: option.splits if_splits)

text \<open>The server never ends by itself in another way than by an exit or by not returning.\<close>

lemma jc_server_ends: "\<exists>e t'. jc_server os t = (Throw e, t') \<and> e \<in> {Exit 1, Never_Returns}"
proof -
  have "\<exists>e t'. jc_serve s os t = (Throw e, t') \<and> e \<in> {Exit 1, Never_Returns}" for s t
  proof -
    let ?t = "t @ [Sys_Accept s]"
    show ?thesis
      using read_request_value [of "os_fd os ?t" os ?t]
      by (fastforce simp: jc_serve_def io_simps ended_io_def split: option.splits)
  qed
  then show ?thesis by (auto simp: jc_server_def io_simps)
qed

text \<open>
  The request goes out in a block of 4096 bytes that shows the memory behind it to the server.
\<close>

lemma sendline_leaks:
  assumes "length stack = MAX_LINE"
  shows "length (sendline stack) = MAX_LINE \<and> drop (length jc_request + 1) (sendline stack) = drop (length jc_request + 1) stack"
  using assms by (simp add: sendline_def jc_request_def)

end
