(* ===== verification/Displays.thy ===== *)
theory Displays
  imports Program ConfigChecker
begin

text \<open>
  What the programs print about themselves, as the text that is printed: \<^verbatim>\<open>helper/Log.cpp\<close>,
  \<^verbatim>\<open>helper/signal_handler.cpp\<close>, the debug functions of \<^verbatim>\<open>webserver.cpp\<close> and \<^verbatim>\<open>header_handler.cpp\<close>, and
  \<^verbatim>\<open>display_server\<close> of \<^verbatim>\<open>ATwebserv/server.cpp\<close>.  Numbers are printed in decimal and a \<^verbatim>\<open>bool\<close> as 0 or 1.
\<close>

section \<open>Terminal sequences\<close>

definition esc :: "string \<Rightarrow> string" where
  "esc n = CHR 0x1B # ''['' @ n @ ''m''"

abbreviation "reset_seq \<equiv> esc ''0''"
abbreviation "green_italic_underline \<equiv> esc ''32'' @ esc ''3'' @ esc ''4''"

definition shown :: "string \<Rightarrow> string \<Rightarrow> string" where
  "shown label value = label @ value @ [LF]"

definition bool_text :: "bool \<Rightarrow> string" where
  "bool_text b = (if b then ''1'' else ''0'')"

section \<open>Log and signals\<close>

definition log_text :: "string \<Rightarrow> string" where
  "log_text msg = shown (esc ''1'' @ esc ''34'' @ ''[WebServ log] '' @ reset_seq @ '': '') msg"

definition debug_log :: "string \<Rightarrow> string" where
  "debug_log msg = shown (esc ''1'' @ esc ''30'' @ ''[WebServ debug] '' @ reset_seq @ '': '') msg"

definition error_log :: "string \<Rightarrow> string" where
  "error_log error = shown (esc ''1'' @ esc ''31'' @ ''[WebServ ERROR] '' @ reset_seq @ '': '') error"

definition SIGINT :: int where "SIGINT = 2"

text \<open>The text printed and what becomes of the process.\<close>

definition signal_handler :: "int \<Rightarrow> string \<times> unit res" where
  "signal_handler signal =
     (if signal = SIGINT then (shown (esc ''36'' @ '' Stopping server...'') reset_seq, Throw (Exit 0)) else ([], Ret ()))"

section \<open>The first server\<close>

definition print_location :: "location_context \<Rightarrow> string" where
  "print_location l =
     [LF] @ ''  ------------- location block -------------'' @ [LF] @
     shown ''  location = '' (loc_context l) @ shown ''  Root = '' (loc_root l) @
     ''  Allowed methods = '' @ concat (map (\<lambda>m. m @ '' '') (loc_allowed_method l)) @ [LF] @
     shown ''  Index = '' (loc_index l) @ shown ''  Autoindex = '' (bool_text (loc_autoindex l)) @
     shown ''  Alias = '' (bool_text (loc_alias l)) @ shown ''  Max file size = '' (decimal (loc_max_file_size l)) @
     shown ''  Auth basic = '' (loc_auth_basic l) @
     ''  Auth user info = '' @ concat (map (\<lambda>u. u @ '' '') (loc_auth_user_info l)) @ [LF] @
     ''  Return = '' @ concat (map (\<lambda>(status, location). shown
       (''redirection_status: '' @ decimal status @ '' redirection_location: '') location) (loc_return l))"

definition print_server :: "server \<Rightarrow> string" where
  "print_server sv =
     ''------------- BEGIN SERVER BLOCK -------------'' @ [LF] @
     shown ''Port = '' (decimal (sv_port sv)) @ shown ''Host = '' (sv_host sv) @
     shown ''Time out = '' (decimal (sv_time_out sv)) @ shown ''Server name = '' (sv_server_name sv) @
     shown ''Error page = '' (sv_error_page sv) @ shown ''CGI file types = '' (sv_cgi_file_types sv) @
     concat (map print_location (sv_location_blocks sv)) @
     [LF] @ ''------------- END SERVER BLOCK -------------'' @ [LF, LF]"

definition print_struct :: "server list \<Rightarrow> string" where
  "print_struct servers = concat (map print_server servers)"

definition print_request :: "header_handler \<Rightarrow> string" where
  "print_request h =
     esc ''33'' @ ''------------- REQUEST -------------'' @ [LF] @ ''Request headers'' @ [LF] @
     shown ''  Method = '' (hh_method h) @ shown ''  Location = '' (hh_file_location h) @
     shown ''  Protocol = '' (hh_protocol h) @ shown ''  Host = '' (hh_requested_host h) @
     shown ''  User agent = '' (hh_user_agent h) @ shown ''  Accept language = '' (hh_accept_language h) @
     shown ''  Accept charset = '' (hh_accept_charset h) @ shown ''  Authorization = '' (hh_authorization h) @
     shown ''  Referer = '' (hh_referer h) @ shown ''  Body = '' (hh_body h) @
     ''Entity headers'' @ [LF] @
     shown ''  Content length = '' (decimal (hh_content_length h)) @ shown ''  Content type = '' (hh_content_type h) @
     shown ''  Content language = '' (hh_content_language h) @ shown ''  Content location = '' (hh_content_location h) @
     ''------------- END REQUEST -------------'' @ [LF, LF] @ reset_seq"

definition print_response_headers :: "string \<Rightarrow> string" where
  "print_response_headers response =
     esc ''35'' @ [LF] @ ''------------- RESPONSE HEADERS -------------'' @ [LF] @ shown response reset_seq"

section \<open>The second server\<close>

text \<open>The loop that prints a separator behind every element but the last; \<open>k\<close> counts up to the size.\<close>

fun separated :: "string list \<Rightarrow> nat \<Rightarrow> string list \<Rightarrow> string" where
  "separated all k [] = []"
| "separated all k (x # xs) = x @ (if k < length all - 1 then '', '' else []) @ separated all (k + 1) xs"

definition display_location :: "locati_info \<Rightarrow> string" where
  "display_location l =
     shown (esc ''32'' @ ''LOCATION : '') reset_seq @ shown ''location : '' (li_location l) @
     shown ''auth_basic : '' (li_auth_basic l) @ shown ''auth_user_file : '' (li_auth_user_file l) @
     shown ''autoindex : '' (li_autoindex l) @ shown ''index : '' (li_index l) @
     shown ''max_file_size : '' (li_max_file_size l) @ shown ''return_directive : '' (li_return_directive l) @
     shown ''root : '' (li_root l) @
     shown ''allowed_method : '' (separated (li_allowed_method l) 0 (li_allowed_method l)) @
     shown ''return : '' (separated (li_retour l) 0 (li_retour l))"

definition display_server :: "server_info list \<Rightarrow> string" where
  "display_server servers = concat (map (\<lambda>s.
     shown (green_italic_underline @ ''DISPLAY SERVER INFORMATION'' @ reset_seq @ esc ''32'' @ '' :'') reset_seq @
     shown ''server_name : '' (si_server_name s) @ shown ''time_out : '' (si_time_out s) @
     shown ''port : '' (si_port s) @ shown ''host : '' (si_host s) @ shown ''error_page : '' (si_error_page s) @
     shown ''max_file_size : '' (si_max_file_size s) @
     concat (map (shown ''cgi_file_types : '') (si_cgi_file_types s)) @
     concat (map display_location (si_location s))) servers)"

section \<open>What is shown\<close>

fun joined :: "string list \<Rightarrow> string" where
  "joined [] = []"
| "joined [x] = x"
| "joined (x # y # ys) = x @ '', '' @ joined (y # ys)"

lemma separated_from: "separated (ys @ xs) (length ys) xs = joined xs"
proof (induction xs arbitrary: ys rule: joined.induct)
  case (3 x y zs)
  from "3" [of "ys @ [x]"] show ?case by simp
qed simp_all

text \<open>No element is followed by a superfluous separator, and none is missing.\<close>

lemma separated_joined: "separated xs 0 xs = joined xs"
  using separated_from [of "[]" xs] by simp

text \<open>
  The keyboard interrupt ends the process with 0, as every \<^verbatim>\<open>std::exception\<close> does, so whoever started
  the server cannot tell them apart; every other signal that is sent to the handler is ignored.
\<close>

lemma interrupt_ends_like_an_exception:
  "snd (signal_handler SIGINT) = Throw e \<Longrightarrow> main_end e = main_end (Runtime_Error s)"
  by (auto simp: signal_handler_def)

text \<open>The display tells servers apart: the settings can be read off it.\<close>

lemma line_inject: "LF \<notin> set v \<Longrightarrow> LF \<notin> set w \<Longrightarrow> v @ LF # r = w @ LF # s \<longleftrightarrow> v = w \<and> r = s"
proof (induction v arbitrary: w)
  case Nil
  then show ?case by (cases w) auto
next
  case (Cons a v)
  then show ?case by (cases w) auto
qed

lemma shown_inject: "LF \<notin> set v \<Longrightarrow> LF \<notin> set w \<Longrightarrow> shown l v @ r = shown l w @ s \<longleftrightarrow> v = w \<and> r = s"
  by (simp add: shown_def line_inject)

lemma decimal_no_LF: "LF \<notin> set (decimal n)"
  using decimal_chars [of n] by (auto simp: is_digit_def schar_def)

lemma decimal_inject: "int32 m \<Longrightarrow> int32 n \<Longrightarrow> decimal m = decimal n \<longleftrightarrow> m = n"
  by (metis ft_atoi_decimal)

lemma print_server_shows_settings:
  assumes "print_server a = print_server b"
    and "\<forall>sv\<in>{a, b}. int32 (sv_port sv) \<and> int32 (sv_time_out sv) \<and> LF \<notin> set (sv_host sv) \<and> LF \<notin> set (sv_server_name sv)
      \<and> LF \<notin> set (sv_error_page sv) \<and> LF \<notin> set (sv_cgi_file_types sv)"
  shows "settings a = settings b \<and> sv_host a = sv_host b \<and> sv_server_name a = sv_server_name b
    \<and> sv_cgi_file_types a = sv_cgi_file_types b"
  using assms by (simp add: print_server_def shown_inject decimal_no_LF decimal_inject settings_def)

end
