(* ===== verification/Spec2Isabelle.thy ===== *)
theory Spec2Isabelle
  imports LibFunctions ParseFunctions CheckFunctions GetNextLine LocationContext FileLocation
    RequestBuf Base64 Response RequestParser System RequestResolver RequestHandler Server
    Configuration FileDescriptors EventLoop LoopInvariant LoopProgress Program
    AnswerPhases Delivery FirstVisit ConfigChecker
    ATClientHandler ATRequestHandler ATCgi ATWriter ATServer
    ClientList MiniServ ChatRoom EchoServ SelectServer
    ExamMain FileServer PocClients Displays
begin

text \<open>
  This library models the web servers of the repository and the small servers written on the way to
  them, and proves what they do.

  \<^bold>\<open>The programs.\<close>
  \<^item> \<^verbatim>\<open>src/webserv/webserver\<close>: a server over \<^verbatim>\<open>select\<close>.  \<^verbatim>\<open>main\<close> reads a configuration file into servers
    and location blocks, checks it, opens the listening sockets and runs the loop.  Each server serves one
    of its clients at a time: the bytes of a request are collected (\<^verbatim>\<open>request_buf\<close>) until they are
    complete, parsed, resolved to a location and a file, handled (a file, an upload, a CGI
    script), and the response is sent in parts over several rounds.
  \<^item> \<^verbatim>\<open>src/ATwebserv\<close>: a second server over \<^verbatim>\<open>epoll\<close>, with its own reader of configuration files, a map of
    clients with their requests, answers and time-outs, and one object for all requests that is
    filled, answered from and cleared for each of them.
  \<^item> \<^verbatim>\<open>src/exam06\<close>: a chat server that relays lines between its clients, and a variant that echoes.
  \<^item> \<^verbatim>\<open>src/POC\<close>: an echo server with a table of 30 clients, a file server, and programs for one use.

  \<^bold>\<open>What the programs share in the model.\<close>  \<open>Prelude\<close> has results (\<open>exn + 'a\<close>: the exceptions the code
  throws, undefined behaviour, a call that never returns, an exit), 32-bit wrap-around, positions
  of \<^verbatim>\<open>std::string\<close>, finite maps in the order of their keys, and two interfaces: \<open>codec\<close> for conversions that undo
  each other and \<open>normaliser\<close> for cleaning functions.  \<open>StdString\<close> has the operations of \<^verbatim>\<open>std::string\<close>.
  \<open>System\<close> has the system calls: an operation is a function of the operating system \<open>os\<close>, a parameter
  that answers each call from the history of calls made so far, and of that history; it returns
  a result and the longer history.  So a theorem for every \<open>os\<close> speaks of every behaviour of the
  system.  \<open>makes\<close> and \<open>results\<close> are the rules for the calls an operation makes and the values it
  returns; the interface \<open>server_loop\<close> gives the invariants of a program that starts once and then repeats a
  round.

  \<^bold>\<open>The first server\<close> (paths below \<^verbatim>\<open>src/webserv/webserver\<close>).
  \<^item> \<open>LibFunctions\<close>, \<open>ParseFunctions\<close>, \<open>CheckFunctions\<close>, \<open>FileLocation\<close>: \<^verbatim>\<open>helper\<close>.  Numbers to text and
    back, splitting of lines, closed blocks, hexadecimal sizes, cleaning of paths.
  \<^item> \<open>GetNextLine\<close>: \<^verbatim>\<open>gnl\<close>, the reader of lines over a static buffer.
  \<^item> \<open>LocationContext\<close>, \<open>Server\<close>, \<open>Configuration\<close>: \<^verbatim>\<open>server/location_context.*\<close>, \<^verbatim>\<open>client.*\<close>, \<^verbatim>\<open>server.*\<close> and the
    first half of \<^verbatim>\<open>webserver.cpp\<close>.  Printed configurations are read back, and the
    check accepts exactly the well-formed ones.
  \<^item> \<open>RequestBuf\<close>: \<^verbatim>\<open>server/request_buf.*\<close>, whose verdict does not depend on how the bytes arrive in pieces.
  \<^item> \<open>Base64\<close>, \<open>Response\<close>: \<^verbatim>\<open>server/Base64.*\<close>, \<^verbatim>\<open>server/response.*\<close>.
  \<^item> \<open>RequestParser\<close>, \<open>RequestResolver\<close>, \<open>RequestHandler\<close>: \<^verbatim>\<open>server/header_handler.*\<close> in the order of a request:
    reading it, finding the location, the method and the rights, and acting and answering.
  \<^item> \<open>FileDescriptors\<close>, \<open>EventLoop\<close>: \<^verbatim>\<open>server/file_descriptors.*\<close> and \<^verbatim>\<open>webserver::run\<close>.
    A round is a function on the state with an outcome (go on, leave the
    round, an exception), the loop is the inductive relation \<open>rounds\<close>.
  \<^item> \<open>LoopInvariant\<close>, \<open>LoopProgress\<close>, \<open>Program\<close>: what every reachable state keeps, stated once in the
    interfaces \<open>loop_invariant\<close> and \<open>server_invariant\<close>; how a server stops serving for ever; and
    \<^verbatim>\<open>main.cpp\<close>, from the configuration file to the loop.
  \<^item> \<open>AnswerPhases\<close>, \<open>Delivery\<close>, \<open>FirstVisit\<close>: all of it together.  A client is served in three phases (its request
    arrives, the file is read, the answer leaves), instances of the interface \<open>phase\<close>, whose number falls in every
    round; one after the other they lead from the first byte of a request to the last byte of its answer, request
    after request, and, from \<^verbatim>\<open>main\<close> and the first connection, from a configuration file to the first file sent.

  \<^bold>\<open>The second server\<close> (paths below \<^verbatim>\<open>src/ATwebserv\<close>).
  \<^item> \<open>ConfigChecker\<close>: \<^verbatim>\<open>config_checker.*\<close>, the reader; \<open>None\<close> where it does not end.
  \<^item> \<open>ATClientHandler\<close>: \<^verbatim>\<open>client_handler.*\<close>, when a request is complete, time-outs, transfers in chunks.
  \<^item> \<open>ATRequestHandler\<close>, \<open>ATWriter\<close>: \<^verbatim>\<open>request_handler.*\<close>.  Reading a request, its virtual server and
    location, and the steps of \<^verbatim>\<open>writer\<close>, whose invariants are proved once in \<open>writer_invariant\<close> and
    \<open>answer_invariant\<close> and give the form of the answer and the files a request can change.
  \<^item> \<open>ATCgi\<close>: \<^verbatim>\<open>cgi_handler.*\<close>, the environment, input and output of a script.
  \<^item> \<open>ATServer\<close>: \<^verbatim>\<open>server.*\<close> and \<^verbatim>\<open>main.cpp\<close>, one round, the reachable states, answers and exceptions.

  \<^bold>\<open>The small servers.\<close>
  \<^item> \<open>ClientList\<close>: the chained \<^verbatim>\<open>t_client\<close> cells of \<^verbatim>\<open>exam06/mini_serv_original.c\<close> in a heap, and the proof that
    the operations are those of a list (\<open>chained\<close> is the abstraction, \<open>client_directory\<close> the interface).
  \<^item> \<open>MiniServ\<close>, \<open>ChatRoom\<close>: the rest of that file.  Lines reach every other client; cells,
    descriptors and the set for \<^verbatim>\<open>select\<close> agree in every reachable state; no round
    misuses memory or runs for ever.
  \<^item> \<open>EchoServ\<close>: the \<^verbatim>\<open>main\<close> in force of \<^verbatim>\<open>exam06/mini_serv.c\<close>.
  \<^item> \<open>SelectServer\<close>: \<^verbatim>\<open>POC/server_select.c\<close>, whose table keeps 30 places with different open descriptors.
  \<^item> \<open>ExamMain\<close>: \<^verbatim>\<open>exam06/main.c\<close>; taking lines out of a buffer does not depend on the pieces in which it arrived.
  \<^item> \<open>FileServer\<close>: \<^verbatim>\<open>POC/server.cpp\<close>; a file that is asked for is delivered, in blocks.
  \<^item> \<open>PocClients\<close>: \<^verbatim>\<open>POC/client.c\<close>, \<^verbatim>\<open>POC/jc_client.c\<close>, \<^verbatim>\<open>POC/jc_server.c\<close>.

  \<^bold>\<open>Output.\<close>  \<open>Displays\<close>: the texts that the servers print about themselves (\<^verbatim>\<open>helper/Log.cpp\<close>, \<^verbatim>\<open>print_struct\<close>,
  \<^verbatim>\<open>print_request\<close>, \<^verbatim>\<open>display_server\<close>) and the handler of the keyboard interrupt.

  \<^bold>\<open>Loops.\<close>  Loops that may not end are partial functions with \<open>None\<close> for a run that does not
  (\<open>check_conFile\<close>, the walks of \<open>ClientList\<close>, \<open>fd_loop\<close>, \<open>echo_loop\<close>, \<open>read_name\<close>); callers turn it into
  \<open>Never_Returns\<close>, and the theorems either show that this is not the result or give the input on which it is.
  Three functions have a bound instead: \<open>chunk_loop\<close> gets two rounds more than the body has bytes, and each
  round that goes on takes a byte from it; \<open>client_loop\<close> counts down the clients of a server,
  as the loop in the code does; \<open>transfer n\<close>, a loop over calls of \<^verbatim>\<open>chunked_resp\<close> that only theorems
  use, ends for every \<open>n\<close> above the number of blocks of 8192 bytes.  \<open>polls n\<close> is another such loop, over
  calls of \<^verbatim>\<open>chunked_rqst\<close>; its theorem holds for every \<open>n\<close>.

  \<^bold>\<open>What is idealised.\<close>  C++ allocation does not fail (where C code looks at \<^verbatim>\<open>malloc\<close> or \<^verbatim>\<open>calloc\<close>, the result is a
  parameter), and freed addresses are not used again.  Strings are shorter than 2147483648 bytes.  The files seen by \<^verbatim>\<open>stat\<close> do not change during one request of the first server.
  Receiving gives at most as many bytes as the buffer has.  Writes to the standard output and error that only
  inform are left out.  The clock, the file system, the scripts and the lister of directories are answers of
  \<open>os\<close>; the lister's output has no NUL.  In \<open>ATClientHandler\<close>, \<^verbatim>\<open>fill_resp\<close> changes the copy it stores; the string
  it was given is not used again.  Hypotheses about the system are named: \<open>fresh_fds\<close> (\<^verbatim>\<open>accept\<close> gives no descriptor
  that is open), \<open>text_data\<close> (what arrives has no NUL and fits), \<open>sends_ok\<close>, \<open>keeps_stdin\<close>,
  \<open>connects\<close> (the next calls report a connection and accept it), \<open>site\<close> with \<open>obliging\<close> (\<^verbatim>\<open>select\<close> reports what it is asked about,
  and no other connection), \<open>arrives\<close> (the pieces a client sends), \<open>file_gives\<close> (reads give some bytes of the file)
  and \<open>sound_write\<close> (writes take some of the bytes).

  \<^bold>\<open>Not modelled.\<close>  \<^verbatim>\<open>request_handler::display\<close> and the monitor of progress, which only print; versions of
  functions that are commented out; constructors, destructors and accessors that only copy or free; and
  the pages, scripts, test programs and container files, which are data for the servers.
\<close>

end
